(* ===== verification/Prelude.thy ===== *)
theory Prelude
  imports Main "HOL-Library.Word"
begin

text \<open>
  Shared base of the development: the C integer types as machine words, the outcome of
  running a piece of kernel code, little-endian byte encodings, and the collections of
  simplification rules the component theories extend.

  A kernel function that takes arguments and runs in a kernel state of type \<open>'s\<close> is a HOL
  function into \<open>('a, 's) outcome\<close>:
  \<^item> \<open>Done x s\<close>: it returned \<open>x\<close> and left the kernel state \<open>s\<close>;
  \<^item> \<open>Panic m\<close>: it called \<open>panic(m)\<close>, which never returns (\<open>kernel/printf.c\<close>), or it
    dereferenced a null pointer, which traps into \<open>kerneltrap\<close> and panics there;
  \<^item> \<open>Spins\<close>: it waits in \<open>acquire\<close> for a spinlock that another CPU holds;
  \<^item> \<open>Switch s\<close>: it gave up the CPU (\<open>sched\<close>) in kernel state \<open>s\<close>.
\<close>

type_synonym uint8 = "8 word"
type_synonym uint16 = "16 word"
type_synonym uint32 = "32 word"
type_synonym uint64 = "64 word"

section \<open>Outcomes\<close>

datatype ('a, 's) outcome =
    Done 'a 's
  | Panic string
  | Spins
  | Switch 's

text \<open>Sequencing: the second part runs only when the first one returned.\<close>

fun obind :: "('a, 's) outcome \<Rightarrow> ('a \<Rightarrow> 's \<Rightarrow> ('b, 's) outcome) \<Rightarrow> ('b, 's) outcome" where
  "obind (Done x s) f = f x s"
| "obind (Panic m) f = Panic m"
| "obind Spins f = Spins"
| "obind (Switch s) f = Switch s"

lemma obind_cong [fundef_cong]:
  "m = m' \<Longrightarrow> (\<And>x s. m' = Done x s \<Longrightarrow> f x s = g x s) \<Longrightarrow> obind m f = obind m' g"
  by (cases m') simp_all

text \<open>The code returns, and its result and final state satisfy \<open>P\<close> (total correctness).\<close>

fun yields :: "('a, 's) outcome \<Rightarrow> ('a \<Rightarrow> 's \<Rightarrow> bool) \<Rightarrow> bool" where
  "yields (Done x s) P = P x s"
| "yields (Panic m) P = False"
| "yields Spins P = False"
| "yields (Switch s) P = False"

lemma yields_obind: "yields (obind m f) P = yields m (\<lambda>x s. yields (f x s) P)"
  by (cases m) simp_all

lemma yields_iff: "yields m P \<longleftrightarrow> (\<exists>x s. m = Done x s \<and> P x s)"
  by (cases m) simp_all

lemma yields_mono: "yields m P \<Longrightarrow> (\<And>x s. P x s \<Longrightarrow> Q x s) \<Longrightarrow> yields m Q"
  by (cases m) simp_all

lemma yieldsE:
  assumes "yields m P"
  obtains x s where "m = Done x s" and "P x s"
  using assms by (cases m) simp_all

lemma obind_assoc: "obind (obind m f) g = obind m (\<lambda>x s. obind (f x s) g)"
  by (cases m) simp_all

lemma obind_Done_iff:
  "obind m f = Done y t \<longleftrightarrow> (\<exists>x s. m = Done x s \<and> f x s = Done y t)"
  by (cases m) simp_all

text \<open>A \<open>for\<close> loop over the indices \<open>is\<close> whose body may stop the run.\<close>

fun ofor :: "'i list \<Rightarrow> ('i \<Rightarrow> 's \<Rightarrow> (unit, 's) outcome) \<Rightarrow> 's \<Rightarrow> (unit, 's) outcome" where
  "ofor [] body s = Done () s"
| "ofor (i # is) body s = obind (body i s) (\<lambda>_. ofor is body)"

lemma ofor_invariant:
  assumes "P is s"
    and "\<And>i js s. P (i # js) s \<Longrightarrow> yields (body i s) (\<lambda>_. P js)"
  shows "yields (ofor is body s) (\<lambda>_. P [])"
  using assms(1)
proof (induction "is" arbitrary: s)
  case (Cons i js)
  from assms(2) [OF Cons.prems] obtain t where "body i s = Done () t" "P js t" by (auto simp: yields_iff)
  with Cons.IH show ?case by simp
qed simp

lemma ofor_append: "ofor (xs @ ys) body s = obind (ofor xs body s) (\<lambda>_. ofor ys body)"
proof (induction xs arbitrary: s)
  case (Cons x xs)
  then show ?case by (cases "body x s") simp_all
qed simp

lemma ofor_upt:
  assumes "P k s" and "k \<le> n" and "\<And>i s. k \<le> i \<Longrightarrow> i < n \<Longrightarrow> P i s \<Longrightarrow> yields (body i s) (\<lambda>_. P (Suc i))"
  shows "yields (ofor [k..<n] body s) (\<lambda>_. P n)"
  using assms
proof (induction "n - k" arbitrary: k s)
  case (Suc d)
  then have k: "k < n" by simp
  from Suc.prems(3) [OF order_refl k Suc.prems(1)] obtain t where t: "body k s = Done () t" "P (Suc k) t"
    by (auto simp: yields_iff)
  have "yields (ofor [Suc k..<n] body t) (\<lambda>_. P n)"
    using Suc.hyps(2) t(2) k Suc.prems(3) by (intro Suc.hyps(1)) simp_all
  with k t(1) show ?case by (simp add: upt_conv_Cons)
qed simp

section \<open>Lists\<close>

lemma pairs_Suc:
  assumes "\<And>i j. D i j = D j i"
  shows "(\<forall>i < Suc n. \<forall>j < Suc n. i \<noteq> j \<longrightarrow> D i j) \<longleftrightarrow>
      (\<forall>i < n. \<forall>j < n. i \<noteq> j \<longrightarrow> D i j) \<and> (\<forall>i < n. D i n)"
  using assms unfolding less_Suc_eq by auto

lemma Int_eq_sym: "(A \<inter> B = {}) = (B \<inter> A = {})"
  by blast

lemma distinct_concat_upt:
  "distinct (concat (map f [0..<n])) \<longleftrightarrow>
     (\<forall>i < n. distinct (f i)) \<and> (\<forall>i < n. \<forall>j < n. i \<noteq> j \<longrightarrow> set (f i) \<inter> set (f j) = {})"
proof (induction n)
  case (Suc n)
  have "set (concat (map f [0..<n])) = (\<Union>i \<in> {i. i < n}. set (f i))"
    by auto
  then have "set (concat (map f [0..<n])) \<inter> set (f n) = {} \<longleftrightarrow> (\<forall>i < n. set (f i) \<inter> set (f n) = {})"
    by blast
  then have "distinct (concat (map f [0..<Suc n])) \<longleftrightarrow>
      distinct (concat (map f [0..<n])) \<and> distinct (f n) \<and> (\<forall>i < n. set (f i) \<inter> set (f n) = {})"
    by simp
  then show ?case
    unfolding Suc.IH pairs_Suc [of "\<lambda>i j. set (f i) \<inter> set (f j) = {}", OF Int_eq_sym]
    by (simp add: All_less_Suc) blast
qed simp

section \<open>Little-endian encodings\<close>

text \<open>
  RISC-V (and the file system image \<open>mkfs\<close> writes) keep integers in little-endian byte
  order. \<open>le_word\<close> reads a byte list, \<open>le_bytes n\<close> writes the low \<open>n\<close> bytes of a word.
\<close>

fun le_word :: "uint8 list \<Rightarrow> 'a::len word" where
  "le_word [] = 0"
| "le_word (b # bs) = or (ucast b) (push_bit 8 (le_word bs))"

fun le_bytes :: "nat \<Rightarrow> 'a::len word \<Rightarrow> uint8 list" where
  "le_bytes 0 w = []"
| "le_bytes (Suc n) w = ucast w # le_bytes n (drop_bit 8 w)"

lemma length_le_bytes [simp]: "length (le_bytes n w) = n"
  by (induction n arbitrary: w) simp_all

lemma le_word_le_bytes: "le_word (le_bytes n w) = take_bit (8 * n) (w :: 'a::len word)"
proof (induction n arbitrary: w)
  case 0
  then show ?case by simp
next
  case (Suc n)
  show ?case
    unfolding le_bytes.simps le_word.simps Suc.IH
    by (rule bit_word_eqI) (auto simp: bit_simps not_le)
qed

lemma le_word_le_bytes_full:
  assumes "8 * n = LENGTH('a::len)"
  shows "le_word (le_bytes n w) = (w :: 'a word)"
  unfolding le_word_le_bytes using assms by (simp add: take_bit_word_eq_self)

lemma le_word_zeros [simp]: "le_word (replicate n 0) = 0"
  by (induction n) simp_all

section \<open>Fields of byte arrays\<close>

text \<open>\<open>get_le n off bs\<close>: the \<open>n\<close>-byte integer at offset \<open>off\<close>; \<open>splice off xs bs\<close>: \<open>bs\<close> with \<open>xs\<close> written at \<open>off\<close>.\<close>

definition get_le :: "nat \<Rightarrow> nat \<Rightarrow> uint8 list \<Rightarrow> 'a::len word" where
  "get_le n off bs = le_word (take n (drop off bs))"

definition splice :: "nat \<Rightarrow> uint8 list \<Rightarrow> uint8 list \<Rightarrow> uint8 list" where
  "splice off xs bs = take off bs @ xs @ drop (off + length xs) bs"

lemma length_splice [simp]: "off + length xs \<le> length bs \<Longrightarrow> length (splice off xs bs) = length bs"
  by (simp add: splice_def)

lemma splice_same: "off + length xs \<le> length bs \<Longrightarrow> take (length xs) (drop off (splice off xs bs)) = xs"
  by (simp add: splice_def)

lemma nth_splice:
  assumes "off + length xs \<le> length bs" and "i < length bs"
  shows "splice off xs bs ! i = (if off \<le> i \<and> i < off + length xs then xs ! (i - off) else bs ! i)"
  using assms by (auto simp: splice_def nth_append min_def)

lemma splice_other:
  assumes "off + length xs \<le> length bs" and "o2 + n \<le> length bs" and "o2 + n \<le> off \<or> off + length xs \<le> o2"
  shows "take n (drop o2 (splice off xs bs)) = take n (drop o2 bs)"
  using assms by (intro nth_equalityI) (auto simp: nth_splice)

lemma get_le_splice_same:
  assumes "8 * n = LENGTH('a::len)" and "off + n \<le> length bs"
  shows "get_le n off (splice off (le_bytes n (w :: 'a word)) bs) = w"
  using splice_same [of off "le_bytes n w" bs] assms by (simp add: get_le_def le_word_le_bytes_full)

lemma get_le_splice_other:
  assumes "off + length xs \<le> length bs" and "o2 + n \<le> length bs" and "o2 + n \<le> off \<or> off + length xs \<le> o2"
  shows "get_le n o2 (splice off xs bs) = get_le n o2 bs"
  using splice_other [OF assms] by (simp add: get_le_def)

section \<open>Words\<close>

lemma unat_lt_2_64 [simp]: "unat (a :: uint64) < 18446744073709551616"
  using unsigned_less [of a, where 'a = nat] by simp

lemma unat_max_64 [simp]: "unat (- 1 :: uint64) = 18446744073709551615"
  by (simp add: unsigned_minus_1_eq_mask mask_eq_exp_minus_1)

lemma unat_succ_64:
  assumes "(w :: uint64) \<noteq> - 1"
  shows "unat (w + 1) = Suc (unat w)"
proof -
  have "unat w \<noteq> 18446744073709551615"
    using assms by (metis unat_max_64 word_unat_eq_iff)
  then have "unat w < 18446744073709551615" using unat_lt_2_64 [of w] by linarith
  then show ?thesis by (simp add: unat_word_ariths)
qed

lemma not_bit_above:
  assumes "unat w < 2 ^ k" and "k \<le> n"
  shows "\<not> bit (w :: 'a::len word) n"
proof -
  have "take_bit k (unat w) = unat w"
    using assms(1) by (simp add: take_bit_nat_eq_self_iff)
  then have "take_bit k w = w"
    by (metis unsigned_take_bit_eq word_unat_eq_iff)
  then show ?thesis using assms(2) by (metis bit_take_bit_iff not_less)
qed

end
