(* ===== verification/Riscv.thy ===== *)
theory Riscv
  imports Prelude
begin

unbundle bit_operations_syntax

text \<open>
  The constants and address macros of \<open>kernel/riscv.h\<close>, \<open>kernel/memlayout.h\<close> and
  \<open>kernel/param.h\<close>: page rounding, the Sv39 page-table-entry encoding, and the layout of the
  kernel address space. All addresses are 64-bit words, so every macro wraps as the C does.
\<close>

section \<open>Constants\<close>

text \<open>
  The values the C expressions have: \<open>MAXVA = 1L << 38\<close>, \<open>PHYSTOP = KERNBASE + 128 * 1024 * 1024\<close>,
  \<open>TRAMPOLINE = MAXVA - PGSIZE\<close>, \<open>TRAPFRAME = TRAMPOLINE - PGSIZE\<close>,
  \<open>LOGSIZE = NBUF = MAXOPBLOCKS * 3\<close>.
\<close>

abbreviation (input) PGSIZE :: uint64 where "PGSIZE \<equiv> 4096"
abbreviation (input) PGSHIFT :: nat where "PGSHIFT \<equiv> 12"

abbreviation (input) PTE_V :: uint64 where "PTE_V \<equiv> 1"
abbreviation (input) PTE_R :: uint64 where "PTE_R \<equiv> 2"
abbreviation (input) PTE_W :: uint64 where "PTE_W \<equiv> 4"
abbreviation (input) PTE_X :: uint64 where "PTE_X \<equiv> 8"
abbreviation (input) PTE_U :: uint64 where "PTE_U \<equiv> 16"

abbreviation (input) MAXVA :: uint64 where "MAXVA \<equiv> 0x4000000000"

abbreviation (input) UART0 :: uint64 where "UART0 \<equiv> 0x10000000"
abbreviation (input) VIRTIO0 :: uint64 where "VIRTIO0 \<equiv> 0x10001000"
abbreviation (input) PLIC :: uint64 where "PLIC \<equiv> 0x0c000000"
abbreviation (input) KERNBASE :: uint64 where "KERNBASE \<equiv> 0x80000000"
abbreviation (input) PHYSTOP :: uint64 where "PHYSTOP \<equiv> 0x88000000"
abbreviation (input) TRAMPOLINE :: uint64 where "TRAMPOLINE \<equiv> 0x3FFFFFF000"
abbreviation (input) TRAPFRAME :: uint64 where "TRAPFRAME \<equiv> 0x3FFFFFE000"

abbreviation (input) NPROC :: nat where "NPROC \<equiv> 64"
abbreviation (input) NCPU :: nat where "NCPU \<equiv> 8"
abbreviation (input) NOFILE :: nat where "NOFILE \<equiv> 16"
abbreviation (input) NFILE :: nat where "NFILE \<equiv> 100"
abbreviation (input) NINODE :: nat where "NINODE \<equiv> 50"
abbreviation (input) NDEV :: nat where "NDEV \<equiv> 10"
abbreviation (input) ROOTDEV :: uint32 where "ROOTDEV \<equiv> 1"
abbreviation (input) MAXARG :: nat where "MAXARG \<equiv> 32"
abbreviation (input) MAXOPBLOCKS :: nat where "MAXOPBLOCKS \<equiv> 10"
abbreviation (input) LOGSIZE :: nat where "LOGSIZE \<equiv> 30"
abbreviation (input) NBUF :: nat where "NBUF \<equiv> 30"
abbreviation (input) FSSIZE :: nat where "FSSIZE \<equiv> 1000"
abbreviation (input) MAXPATH :: nat where "MAXPATH \<equiv> 128"

section \<open>Address macros\<close>

definition PGROUNDUP :: "uint64 \<Rightarrow> uint64" where
  "PGROUNDUP sz = (sz + PGSIZE - 1) AND NOT (PGSIZE - 1)"

definition PGROUNDDOWN :: "uint64 \<Rightarrow> uint64" where
  "PGROUNDDOWN a = a AND NOT (PGSIZE - 1)"

definition PA2PTE :: "uint64 \<Rightarrow> uint64" where
  "PA2PTE pa = push_bit 10 (drop_bit 12 pa)"

definition PTE2PA :: "uint64 \<Rightarrow> uint64" where
  "PTE2PA pte = push_bit 12 (drop_bit 10 pte)"

definition PTE_FLAGS :: "uint64 \<Rightarrow> uint64" where
  "PTE_FLAGS pte = pte AND 0x3FF"

definition PXSHIFT :: "nat \<Rightarrow> nat" where
  "PXSHIFT level = PGSHIFT + 9 * level"

definition PX :: "nat \<Rightarrow> uint64 \<Rightarrow> uint64" where
  "PX level va = drop_bit (PXSHIFT level) va AND 0x1FF"

definition KSTACK :: "nat \<Rightarrow> uint64" where
  "KSTACK p = TRAMPOLINE - (of_nat p + 1) * 2 * PGSIZE"

definition MAKE_SATP :: "uint64 \<Rightarrow> uint64" where
  "MAKE_SATP pagetable = push_bit 60 8 OR drop_bit 12 pagetable"

section \<open>Pages\<close>

text \<open>Page-aligned addresses, and the number of the page an address lies in.\<close>

definition page_aligned :: "uint64 \<Rightarrow> bool" where
  "page_aligned a \<longleftrightarrow> a mod PGSIZE = 0"

definition page_of :: "uint64 \<Rightarrow> nat" where
  "page_of a = unat a div 4096"

lemma page_index_bound: "unat (a :: uint64) div 4096 < 4503599627370496"
  by (simp add: div_less_iff_less_mult)

lemma low_mask_eq: "(4095 :: uint64) = mask 12" "(511 :: uint64) = mask 9" "(1023 :: uint64) = mask 10"
  by (simp_all add: mask_eq_exp_minus_1)

lemma PGROUNDDOWN_eq: "PGROUNDDOWN a = push_bit 12 (drop_bit 12 a)"
  unfolding PGROUNDDOWN_def by (simp add: low_mask_eq) (rule bit_word_eqI, auto simp: bit_simps)

lemma unat_PGROUNDDOWN: "unat (PGROUNDDOWN a) = unat a div 4096 * 4096"
proof -
  have "PGROUNDDOWN a = (a div 4096) * 4096"
    by (simp add: PGROUNDDOWN_eq push_bit_eq_mult drop_bit_eq_div)
  then show ?thesis
    using page_index_bound [of a] by (simp add: unat_mult_lem [THEN iffD1] unat_div)
qed

lemma page_aligned_unat: "page_aligned a \<longleftrightarrow> unat a mod 4096 = 0"
  by (simp add: page_aligned_def word_unat_eq_iff unat_mod)

lemma page_aligned_PGROUNDDOWN [simp]: "page_aligned (PGROUNDDOWN a)"
  by (simp add: page_aligned_unat unat_PGROUNDDOWN)

lemma PGROUNDDOWN_aligned: "page_aligned a \<Longrightarrow> PGROUNDDOWN a = a"
  by (simp add: word_unat_eq_iff unat_PGROUNDDOWN page_aligned_unat) (metis div_mod_decomp add.right_neutral)

lemma PGROUNDUP_alt: "PGROUNDUP a = PGROUNDDOWN (a + 4095)"
  by (simp add: PGROUNDUP_def PGROUNDDOWN_def add.commute)

lemma page_aligned_PGROUNDUP [simp]: "page_aligned (PGROUNDUP a)"
  by (simp add: PGROUNDUP_alt)

lemma unat_PGROUNDUP:
  assumes "unat a + 4095 < 2 ^ 64"
  shows "unat (PGROUNDUP a) = (unat a + 4095) div 4096 * 4096"
  using assms by (simp add: PGROUNDUP_alt unat_PGROUNDDOWN unat_word_ariths)

lemma page_aligned_bound:
  assumes "page_aligned a"
  shows "unat a + 4095 < 18446744073709551616"
proof -
  have "unat a = 4096 * (unat a div 4096)"
    using assms by (simp add: page_aligned_unat mod_eq_0_iff_dvd)
  then show ?thesis using page_index_bound [of a] by linarith
qed

lemma PGROUNDUP_aligned:
  assumes "page_aligned a"
  shows "PGROUNDUP a = a"
proof -
  obtain q where q: "unat a = 4096 * q"
    using assms by (auto simp: page_aligned_unat)
  have "unat (PGROUNDUP a) = (unat a + 4095) div 4096 * 4096"
    using page_aligned_bound [OF assms] by (intro unat_PGROUNDUP) simp
  also have "\<dots> = unat a"
    by (simp add: q)
  finally show ?thesis by (simp add: word_unat_eq_iff)
qed

section \<open>Page-table entries\<close>

lemma PTE2PA_PA2PTE:
  assumes "page_aligned pa" and "pa < 2 ^ 56" and "fl < 1024"
  shows "PTE2PA (PA2PTE pa OR fl) = pa"
proof -
  have fl: "\<not> bit fl n" if "10 \<le> n" for n
    using assms(3) that by (intro not_bit_above [of _ 10]) (simp_all add: word_less_nat_alt)
  have hi: "\<not> bit pa n" if "56 \<le> n" for n
    using assms(2) that by (intro not_bit_above [of _ 56]) (simp_all add: word_less_nat_alt)
  have lo: "\<not> bit pa n" if "n < 12" for n
  proof -
    have "PGROUNDDOWN pa = pa" using assms(1) by (rule PGROUNDDOWN_aligned)
    then have "bit pa n = bit (push_bit 12 (drop_bit 12 pa)) n" by (simp add: PGROUNDDOWN_eq)
    with that show ?thesis by (simp add: bit_simps)
  qed
  show ?thesis
    unfolding PTE2PA_def PA2PTE_def
  proof (rule bit_word_eqI)
    fix n assume n: "n < LENGTH(64)"
    show "bit (push_bit 12 (drop_bit 10 (push_bit 10 (drop_bit 12 pa) OR fl))) n = bit pa n"
      using n fl [of "10 + (n - 12)"] hi [of n] lo [of n]
      by (cases "n < 12"; cases "n < 56") (auto simp: bit_simps)
  qed
qed

end
