(* ===== verification/Byte_Mem.thy ===== *)
theory Byte_Mem
  imports Riscv
begin

text \<open>
  Physical memory as a map from 64-bit addresses to bytes, 64-bit loads and stores, and the
  memory routines of \<open>kernel/string.c\<close> (\<open>memset\<close>, \<open>memcmp\<close>, \<open>memmove\<close>, \<open>memcpy\<close>) as the loops
  the C runs over it. The interface the page-table code needs of aligned 64-bit loads and stores
  is the locale \<open>word_store\<close>, interpreted here on \<open>load64\<close> and \<open>store64\<close>.
\<close>

type_synonym memory = "uint64 \<Rightarrow> uint8"

section \<open>Loads and stores\<close>

definition load_bytes :: "memory \<Rightarrow> uint64 \<Rightarrow> nat \<Rightarrow> uint8 list" where
  "load_bytes m a n = map (\<lambda>i. m (a + of_nat i)) [0..<n]"

fun store_bytes :: "memory \<Rightarrow> uint64 \<Rightarrow> uint8 list \<Rightarrow> memory" where
  "store_bytes m a [] = m"
| "store_bytes m a (b # bs) = store_bytes (m(a := b)) (a + 1) bs"

definition load64 :: "memory \<Rightarrow> uint64 \<Rightarrow> uint64" where
  "load64 m a = le_word (load_bytes m a 8)"

definition store64 :: "memory \<Rightarrow> uint64 \<Rightarrow> uint64 \<Rightarrow> memory" where
  "store64 m a v = store_bytes m a (le_bytes 8 v)"

text \<open>Distance of an address from a base, as an offset into an object placed there.\<close>

lemma unat_minus_one_diff:
  assumes "a \<noteq> (d :: uint64)"
  shows "unat (a - d) = Suc (unat (a - (d + 1)))"
proof -
  have "a - (d + 1) \<noteq> - 1" using assms by (simp add: algebra_simps eq_neg_iff_add_eq_0)
  then show ?thesis using unat_succ_64 [of "a - (d + 1)"] by simp
qed

lemma offset_iff:
  assumes "i < 18446744073709551616"
  shows "a = d + of_nat i \<longleftrightarrow> unat (a - (d :: uint64)) = i"
proof
  assume "a = d + of_nat i"
  then show "unat (a - d) = i" using assms by (simp add: unat_of_nat)
next
  assume "unat (a - d) = i"
  then have "of_nat i = a - d" by auto
  then show "a = d + of_nat i" by simp
qed

lemma store_bytes_apply:
  assumes "length bs < 18446744073709551616"
  shows "store_bytes m d bs a = (if unat (a - d) < length bs then bs ! unat (a - d) else m a)"
  using assms
proof (induction bs arbitrary: m d a)
  case Nil
  then show ?case by simp
next
  case (Cons b bs)
  show ?case
  proof (cases "a = d")
    case True
    with Cons.prems show ?thesis by (simp add: Cons.IH)
  next
    case False
    with Cons show ?thesis by (simp add: unat_minus_one_diff [OF False])
  qed
qed

lemma length_load_bytes [simp]: "length (load_bytes m a n) = n"
  by (simp add: load_bytes_def)

lemma load_bytes_cong:
  "(\<And>i. i < n \<Longrightarrow> m (a + of_nat i) = m' (a + of_nat i)) \<Longrightarrow> load_bytes m a n = load_bytes m' a n"
  by (simp add: load_bytes_def)

lemma load_store_bytes:
  assumes "length bs < 18446744073709551616"
  shows "load_bytes (store_bytes m a bs) a (length bs) = bs"
  using assms by (intro nth_equalityI) (simp_all add: load_bytes_def store_bytes_apply unat_of_nat)

lemma load64_store64_same [simp]: "load64 (store64 m a v) a = v"
proof -
  have "load_bytes (store_bytes m a (le_bytes 8 v)) a 8 = le_bytes 8 v"
    using load_store_bytes [of "le_bytes 8 v" m a] by simp
  then show ?thesis by (simp add: load64_def store64_def le_word_le_bytes_full)
qed

text \<open>
  An aligned 64-bit access stays within its eight-byte slot, so accesses to different slots
  do not interfere.
\<close>

definition word_aligned :: "uint64 \<Rightarrow> bool" where
  "word_aligned a \<longleftrightarrow> unat a mod 8 = 0"

lemma slot_of_offset:
  assumes "word_aligned a" and "i < 8"
  shows "unat (a + of_nat i) div 8 = unat a div 8"
proof -
  obtain q where q: "unat a = 8 * q" using assms(1) by (auto simp: word_aligned_def)
  have "unat a < 18446744073709551616" by simp
  with q assms(2) have "unat (a + of_nat i) = 8 * q + i"
    by (simp add: unat_word_ariths unat_of_nat)
  with q assms(2) show ?thesis by simp
qed

lemma store64_other:
  assumes "word_aligned a" and "unat b div 8 \<noteq> unat a div 8"
  shows "store64 m a v b = m b"
proof -
  have "\<not> unat (b - a) < 8"
  proof
    assume "unat (b - a) < 8"
    then have "unat (a + of_nat (unat (b - a))) div 8 = unat a div 8"
      using assms(1) slot_of_offset by blast
    with assms(2) show False by simp
  qed
  then show ?thesis by (simp add: store64_def store_bytes_apply)
qed

lemma load64_store64_other:
  assumes "word_aligned a" and "word_aligned b" and "a \<noteq> b"
  shows "load64 (store64 m a v) b = load64 m b"
proof -
  have "unat a \<noteq> unat b" using assms(3) by (simp add: word_unat_eq_iff)
  with assms(1,2) have "unat a div 8 \<noteq> unat b div 8"
    unfolding word_aligned_def by (metis mult_div_mod_eq)
  with assms(1,2) show ?thesis
    unfolding load64_def
    by (intro arg_cong [where f = le_word] load_bytes_cong store64_other) (auto simp: slot_of_offset)
qed

text \<open>
  The interface of aligned word access: what a client of the memory (the page allocator and the
  page-table walk) relies on. The frame law says which bytes a store leaves alone.
\<close>

locale word_store =
  fixes ld :: "'m \<Rightarrow> uint64 \<Rightarrow> uint64"
    and st :: "'m \<Rightarrow> uint64 \<Rightarrow> uint64 \<Rightarrow> 'm"
  assumes ld_st_same: "ld (st m a v) a = v"
    and ld_st_other: "word_aligned a \<Longrightarrow> word_aligned b \<Longrightarrow> a \<noteq> b \<Longrightarrow> ld (st m a v) b = ld m b"
begin

lemma ld_st:
  assumes "word_aligned a" and "word_aligned b"
  shows "ld (st m a v) b = (if a = b then v else ld m b)"
  using assms by (simp add: ld_st_same ld_st_other)

end

interpretation mem64: word_store load64 store64
  by unfold_locales (simp_all add: load64_store64_other)

section \<open>Filling memory\<close>

text \<open>\<open>for(i = 0; i < n; i++) cdst[i] = c;\<close> with the byte the \<open>int\<close> argument is cut to.\<close>

function memset_loop :: "memory \<Rightarrow> uint64 \<Rightarrow> uint8 \<Rightarrow> nat \<Rightarrow> nat \<Rightarrow> memory" where
  "memset_loop m dst c i n =
     (if i < n then memset_loop (m(dst + of_nat i := c)) dst c (Suc i) n else m)"
  by pat_completeness auto
termination
  by (relation "measure (\<lambda>(m, dst, c, i, n). n - i)") auto

declare memset_loop.simps [simp del]

definition memset :: "memory \<Rightarrow> uint64 \<Rightarrow> uint32 \<Rightarrow> nat \<Rightarrow> memory" where
  "memset m dst c n = memset_loop m dst (ucast c) 0 n"

lemma memset_loop_apply:
  assumes "n < 18446744073709551616" and "i \<le> n"
  shows "memset_loop m dst c i n a =
    (if i \<le> unat (a - dst) \<and> unat (a - dst) < n then c else m a)"
  using assms
proof (induction m dst c i n rule: memset_loop.induct)
  case (1 m dst c i n)
  show ?case
  proof (cases "i < n")
    case True
    have "a = dst + of_nat i \<longleftrightarrow> unat (a - dst) = i"
      using True "1.prems" by (intro offset_iff) simp
    with True "1.prems" "1.IH" show ?thesis
      by (subst memset_loop.simps) (auto simp: not_le fun_upd_def)
  next
    case False
    with "1.prems" show ?thesis by (subst memset_loop.simps) auto
  qed
qed

lemma memset_apply:
  assumes "n < 18446744073709551616"
  shows "memset m dst c n a = (if unat (a - dst) < n then ucast c else m a)"
  using memset_loop_apply [OF assms, of 0] by (simp add: memset_def)

section \<open>Moving and comparing memory\<close>

text \<open>
  The two loops of \<open>memmove\<close>: \<open>while(n-- > 0) *d++ = *s++;\<close> and, for a destination that
  overlaps the end of the source, \<open>while(n-- > 0) *--d = *--s;\<close> from the far ends.
\<close>

fun copy_forward :: "memory \<Rightarrow> uint64 \<Rightarrow> uint64 \<Rightarrow> nat \<Rightarrow> memory" where
  "copy_forward m d s 0 = m"
| "copy_forward m d s (Suc n) = copy_forward (m(d := m s)) (d + 1) (s + 1) n"

fun copy_backward :: "memory \<Rightarrow> uint64 \<Rightarrow> uint64 \<Rightarrow> nat \<Rightarrow> memory" where
  "copy_backward m d s 0 = m"
| "copy_backward m d s (Suc n) = copy_backward (m(d - 1 := m (s - 1))) (d - 1) (s - 1) n"

definition memmove :: "memory \<Rightarrow> uint64 \<Rightarrow> uint64 \<Rightarrow> nat \<Rightarrow> memory" where
  "memmove m dst src n =
     (if n = 0 then m
      else if src < dst \<and> src + of_nat n > dst
      then copy_backward m (dst + of_nat n) (src + of_nat n) n
      else copy_forward m dst src n)"

definition memcpy :: "memory \<Rightarrow> uint64 \<Rightarrow> uint64 \<Rightarrow> nat \<Rightarrow> memory" where
  "memcpy m dst src n = memmove m dst src n"

fun memcmp :: "memory \<Rightarrow> uint64 \<Rightarrow> uint64 \<Rightarrow> nat \<Rightarrow> int" where
  "memcmp m s1 s2 0 = 0"
| "memcmp m s1 s2 (Suc n) =
     (if m s1 \<noteq> m s2 then uint (m s1) - uint (m s2) else memcmp m (s1 + 1) (s2 + 1) n)"

lemma copy_forward_apply:
  assumes "n < 18446744073709551616" and "\<And>k. 0 < k \<Longrightarrow> k < n \<Longrightarrow> d \<noteq> s + of_nat k"
  shows "copy_forward m d s n a = (if unat (a - d) < n then m (s + (a - d)) else m a)"
  using assms
proof (induction n arbitrary: m d s)
  case 0
  then show ?case by simp
next
  case (Suc n)
  have IH: "copy_forward (m(d := m s)) (d + 1) (s + 1) n a =
      (if unat (a - (d + 1)) < n then (m(d := m s)) (s + 1 + (a - (d + 1))) else (m(d := m s)) a)"
  proof (rule Suc.IH)
    show "n < 18446744073709551616" using Suc.prems(1) by simp
    show "d + 1 \<noteq> s + 1 + of_nat k" if "0 < k" "k < n" for k
      using Suc.prems(2) [of k] that by (simp add: algebra_simps)
  qed
  show ?case
  proof (cases "a = d")
    case True
    with Suc.prems(1) IH show ?thesis by simp
  next
    case False
    have "s + (a - d) \<noteq> d" if "unat (a - d) < Suc n"
    proof -
      have "0 < unat (a - d)" using False by (simp add: unat_gt_0)
      with Suc.prems(2) [of "unat (a - d)"] that show ?thesis by auto
    qed
    moreover have "s + 1 + (a - (d + 1)) = s + (a - d)" by simp
    ultimately show ?thesis
      using False unat_minus_one_diff [OF False] unfolding copy_forward.simps IH by auto
  qed
qed

lemma copy_backward_apply:
  assumes "n < 18446744073709551616" and "\<And>k. 0 < k \<Longrightarrow> k < n \<Longrightarrow> s \<noteq> d + of_nat k"
  shows "copy_backward m (d + of_nat n) (s + of_nat n) n a =
    (if unat (a - d) < n then m (s + (a - d)) else m a)"
  using assms
proof (induction n arbitrary: m)
  case 0
  then show ?case by simp
next
  case (Suc n)
  let ?m = "m(d + of_nat n := m (s + of_nat n))"
  have IH: "copy_backward ?m (d + of_nat n) (s + of_nat n) n a =
      (if unat (a - d) < n then ?m (s + (a - d)) else ?m a)"
    using Suc.prems by (intro Suc.IH) auto
  have here: "a = d + of_nat n \<longleftrightarrow> unat (a - d) = n"
    using Suc.prems(1) by (intro offset_iff) simp
  have src: "s + (a - d) \<noteq> d + of_nat n" if "unat (a - d) < n"
  proof
    assume eq: "s + (a - d) = d + of_nat n"
    have "(of_nat (n - unat (a - d)) :: uint64) = of_nat n - (a - d)"
      using that by (simp add: of_nat_diff)
    moreover have "s = d + (of_nat n - (a - d))"
      using eq by (metis add_diff_cancel_right' add_diff_eq)
    ultimately have "s = d + of_nat (n - unat (a - d))" by simp
    moreover have "n - unat (a - d) < Suc n" by simp
    ultimately show False using Suc.prems(2) [of "n - unat (a - d)"] that by simp
  qed
  have "copy_backward m (d + of_nat (Suc n)) (s + of_nat (Suc n)) (Suc n) a =
      copy_backward ?m (d + of_nat n) (s + of_nat n) n a"
    by (simp add: algebra_simps)
  with IH here src show ?case by (auto simp: less_Suc_eq)
qed

text \<open>
  The abstract contract: the destination receives the bytes the source held before the call,
  whether or not the two ranges overlap, and no other byte changes.
\<close>

lemma memmove_apply:
  assumes "unat src + n < 18446744073709551616" and "unat dst + n \<le> 18446744073709551616"
  shows "memmove m dst src n a = (if unat (a - dst) < n then m (src + (a - dst)) else m a)"
proof -
  have n: "n < 18446744073709551616" using assms(1) by linarith
  have un: "unat (of_nat n :: uint64) = n" using n by (simp add: unat_of_nat)
  have send: "unat (src + of_nat n) = unat src + n"
    using assms(1) un by (simp add: unat_word_ariths)
  have add: "unat (x + of_nat k) = unat x + k"
    if "unat x + n \<le> 18446744073709551616" "k < n" for x :: uint64 and k
    using that n by (simp add: unat_word_ariths unat_of_nat)
  show ?thesis
  proof (cases "src < dst \<and> src + of_nat n > dst")
    case True
    have "src \<noteq> dst + of_nat k" if "0 < k" "k < n" for k
    proof
      assume "src = dst + of_nat k"
      then have "unat src = unat dst + k" using add [of dst k] assms(2) that by simp
      with True show False by (simp add: word_less_nat_alt)
    qed
    with True n show ?thesis by (simp add: memmove_def copy_backward_apply)
  next
    case False
    have "dst \<noteq> src + of_nat k" if "0 < k" "k < n" for k
    proof
      assume "dst = src + of_nat k"
      then have "unat dst = unat src + k" using add [of src k] assms(1) that by simp
      with False send that show False by (simp add: word_less_nat_alt)
    qed
    with n have "copy_forward m dst src n a = (if unat (a - dst) < n then m (src + (a - dst)) else m a)"
      by (rule copy_forward_apply)
    with False show ?thesis unfolding memmove_def by (simp only: if_False) simp
  qed
qed

lemma memcmp_eq_0:
  "memcmp m s1 s2 n = 0 \<longleftrightarrow> load_bytes m s1 n = load_bytes m s2 n"
proof (induction n arbitrary: s1 s2)
  case 0
  then show ?case by (simp add: load_bytes_def)
next
  case (Suc n)
  have shift: "load_bytes m s (Suc n) = m s # load_bytes m (s + 1) n" for s
    by (simp add: load_bytes_def upt_conv_Cons map_Suc_upt [symmetric] add.assoc del: upt_Suc)
  show ?case by (simp add: shift Suc.IH word_uint_eq_iff)
qed

section \<open>Properties\<close>

text \<open>
  C34. \<open>memmove\<close> gives every destination byte the value its source byte had before the call, also
  when the ranges overlap in either direction, and changes no other byte, as long as neither
  range wraps around the address space.
\<close>

theorem memmove_copies:
  assumes "unat src + n < 2 ^ 64" and "unat dst + n \<le> 2 ^ 64"
  shows "load_bytes (memmove m dst src n) dst n = load_bytes m src n \<and>
    (\<forall>a. n \<le> unat (a - dst) \<longrightarrow> memmove m dst src n a = m a)"
proof
  have app: "memmove m dst src n a = (if unat (a - dst) < n then m (src + (a - dst)) else m a)" for a
    using assms by (intro memmove_apply) simp_all
  have "unat (of_nat i :: uint64) < n" if "i < n" for i
    using that assms(1) by (simp add: unat_of_nat)
  then show "load_bytes (memmove m dst src n) dst n = load_bytes m src n"
    by (auto simp: load_bytes_def app)
  show "\<forall>a. n \<le> unat (a - dst) \<longrightarrow> memmove m dst src n a = m a"
    by (simp add: app)
qed

theorem memmove_copies_witness:
  "load_bytes (memmove (\<lambda>a. if a = 100 then 1 else if a = 101 then 2 else if a = 102 then 3 else 0) 101 100 3) 101 3 = [1, 2, 3]"
  using memmove_copies [of 100 3 101 "\<lambda>a. if a = 100 then 1 else if a = 101 then 2 else if a = 102 then 3 else 0"]
  by (simp add: load_bytes_def upt_rec)

end
