(* ===== verification/Spinlock.thy ===== *)
theory Spinlock
  imports Riscv
begin

unbundle bit_operations_syntax

text \<open>
  CPUs, interrupt enabling and spinlocks (\<open>kernel/spinlock.c\<close>, \<open>kernel/spinlock.h\<close>, the
  \<open>struct cpu\<close> and \<open>struct context\<close> of \<open>kernel/proc.h\<close>, \<open>intr_on\<close>/\<open>intr_off\<close>/\<open>intr_get\<close> of
  \<open>kernel/riscv.h\<close>).

  The state \<open>machine\<close> is what every hart shares with its own registers indexed by hart number;
  \<open>tp\<close> is the hart the code runs on. A lock object is named by a \<open>lockid\<close> instead of by its
  address. The components above extend this record with their own fields, so every operation
  is polymorphic in the rest of the state.
\<close>

section \<open>State\<close>

record spinlock =
  lk_locked :: uint32
  lk_name :: string
  lk_cpu :: "nat option"

datatype lockid =
    KmemLock | PidLock | WaitLock | ProcLock nat | TicksLock
  | BcacheLock | BufLk nat | LogLock | ItableLock | InodeLk nat | FtableLock
  | PipeLock uint64 | ConsLock | UartLock | PrLock | VdiskLock

record kcontext =
  ctx_ra :: uint64
  ctx_sp :: uint64
  ctx_s0 :: uint64
  ctx_s1 :: uint64
  ctx_s2 :: uint64
  ctx_s3 :: uint64
  ctx_s4 :: uint64
  ctx_s5 :: uint64
  ctx_s6 :: uint64
  ctx_s7 :: uint64
  ctx_s8 :: uint64
  ctx_s9 :: uint64
  ctx_s10 :: uint64
  ctx_s11 :: uint64

record cpu =
  cpu_proc :: "nat option"
  cpu_context :: kcontext
  noff :: int
  intena :: bool

record machine =
  tp :: nat
  cpus :: "nat \<Rightarrow> cpu"
  sstatus :: "nat \<Rightarrow> uint64"
  lks :: "lockid \<Rightarrow> spinlock"

section \<open>Interrupts\<close>

abbreviation (input) SSTATUS_SIE :: uint64 where "SSTATUS_SIE \<equiv> 2"

definition mycpu :: "('a) machine_scheme \<Rightarrow> cpu" where
  "mycpu s = cpus s (tp s)"

definition set_mycpu :: "cpu \<Rightarrow> ('a) machine_scheme \<Rightarrow> ('a) machine_scheme" where
  "set_mycpu c s = s\<lparr>cpus := (cpus s)(tp s := c)\<rparr>"

definition intr_on :: "('a) machine_scheme \<Rightarrow> ('a) machine_scheme" where
  "intr_on s = s\<lparr>sstatus := (sstatus s)(tp s := sstatus s (tp s) OR SSTATUS_SIE)\<rparr>"

definition intr_off :: "('a) machine_scheme \<Rightarrow> ('a) machine_scheme" where
  "intr_off s = s\<lparr>sstatus := (sstatus s)(tp s := sstatus s (tp s) AND NOT SSTATUS_SIE)\<rparr>"

definition intr_get :: "('a) machine_scheme \<Rightarrow> bool" where
  "intr_get s \<longleftrightarrow> sstatus s (tp s) AND SSTATUS_SIE \<noteq> 0"

definition push_off :: "('a) machine_scheme \<Rightarrow> (unit, ('a) machine_scheme) outcome" where
  "push_off s =
     (let old = intr_get s;
          s = intr_off s;
          s = (if noff (mycpu s) = 0 then set_mycpu ((mycpu s)\<lparr>intena := old\<rparr>) s else s)
      in Done () (set_mycpu ((mycpu s)\<lparr>noff := noff (mycpu s) + 1\<rparr>) s))"

definition pop_off :: "('a) machine_scheme \<Rightarrow> (unit, ('a) machine_scheme) outcome" where
  "pop_off s =
     (if intr_get s then Panic ''pop_off - interruptible''
      else if noff (mycpu s) < 1 then Panic ''pop_off''
      else let s = set_mycpu ((mycpu s)\<lparr>noff := noff (mycpu s) - 1\<rparr>) s
           in Done () (if noff (mycpu s) = 0 \<and> intena (mycpu s) then intr_on s else s))"

section \<open>Locks\<close>

definition initlock :: "lockid \<Rightarrow> string \<Rightarrow> ('a) machine_scheme \<Rightarrow> (unit, ('a) machine_scheme) outcome" where
  "initlock lk name s =
     Done () (s\<lparr>lks := (lks s)(lk := \<lparr>lk_locked = 0, lk_name = name, lk_cpu = None\<rparr>)\<rparr>)"

definition holding :: "lockid \<Rightarrow> ('a) machine_scheme \<Rightarrow> bool" where
  "holding lk s \<longleftrightarrow> lk_locked (lks s lk) \<noteq> 0 \<and> lk_cpu (lks s lk) = Some (tp s)"

text \<open>The atomic swap that finds the lock taken is retried forever: the outcome \<open>Spins\<close>.\<close>

definition acquire :: "lockid \<Rightarrow> ('a) machine_scheme \<Rightarrow> (unit, ('a) machine_scheme) outcome" where
  "acquire lk s =
     obind (push_off s) (\<lambda>_ s.
     if holding lk s then Panic ''acquire''
     else if lk_locked (lks s lk) \<noteq> 0 then Spins
     else let s = s\<lparr>lks := (lks s)(lk := (lks s lk)\<lparr>lk_locked := 1\<rparr>)\<rparr>
          in Done () (s\<lparr>lks := (lks s)(lk := (lks s lk)\<lparr>lk_cpu := Some (tp s)\<rparr>)\<rparr>))"

definition release :: "lockid \<Rightarrow> ('a) machine_scheme \<Rightarrow> (unit, ('a) machine_scheme) outcome" where
  "release lk s =
     (if \<not> holding lk s then Panic ''release''
      else let s = s\<lparr>lks := (lks s)(lk := (lks s lk)\<lparr>lk_cpu := None\<rparr>)\<rparr>;
               s = s\<lparr>lks := (lks s)(lk := (lks s lk)\<lparr>lk_locked := 0\<rparr>)\<rparr>
           in pop_off s)"

section \<open>Critical sections\<close>

text \<open>
  The interrupt state is consistent when the nesting depth is not negative and interrupts are
  off inside every critical section.
\<close>

definition hart_ok :: "('a) machine_scheme \<Rightarrow> bool" where
  "hart_ok s \<longleftrightarrow> 0 \<le> noff (mycpu s) \<and> (0 < noff (mycpu s) \<longrightarrow> \<not> intr_get s)"

definition lock_free :: "lockid \<Rightarrow> ('a) machine_scheme \<Rightarrow> bool" where
  "lock_free lk s \<longleftrightarrow> lk_locked (lks s lk) = 0 \<and> lk_cpu (lks s lk) = None"

text \<open>
  What one entry (\<open>pushed\<close>) and a matched entry and exit (\<open>settle\<close>) leave behind: only the
  saved flag \<open>intena\<close> of an idle hart changes, to the interrupt enable bit it will restore.
\<close>

definition pushed :: "('a) machine_scheme \<Rightarrow> ('a) machine_scheme" where
  "pushed s = s\<lparr>cpus := (cpus s)(tp s := (mycpu s)\<lparr>noff := noff (mycpu s) + 1,
        intena := (if noff (mycpu s) = 0 then intr_get s else intena (mycpu s))\<rparr>),
      sstatus := (sstatus s)(tp s := sstatus s (tp s) AND NOT SSTATUS_SIE)\<rparr>"

definition settle :: "('a) machine_scheme \<Rightarrow> ('a) machine_scheme" where
  "settle s = s\<lparr>cpus := (cpus s)(tp s := (mycpu s)\<lparr>
        intena := (if noff (mycpu s) = 0 then intr_get s else intena (mycpu s))\<rparr>)\<rparr>"

definition acq :: "lockid \<Rightarrow> ('a) machine_scheme \<Rightarrow> ('a) machine_scheme" where
  "acq lk s = (pushed s)\<lparr>lks := (lks s)(lk := (lks s lk)\<lparr>lk_locked := 1, lk_cpu := Some (tp s)\<rparr>)\<rparr>"

lemma sie_not: "NOT SSTATUS_SIE = - 3"
  by simp

lemma sie_bit: "x AND SSTATUS_SIE \<noteq> 0 \<longleftrightarrow> bit x 1"
proof -
  have "x AND 2 = (if bit x 1 then 2 else 0)"
    by (rule bit_word_eqI) (auto simp: bit_simps bit_2_iff)
  then show ?thesis by simp
qed

lemma sie_off: "(x AND - 3) AND SSTATUS_SIE = 0"
  unfolding sie_not [symmetric] by (rule bit_word_eqI) (auto simp: bit_simps)

lemma sie_restore_on: "x AND SSTATUS_SIE \<noteq> 0 \<Longrightarrow> (x AND - 3) OR SSTATUS_SIE = x"
  unfolding sie_not [symmetric] sie_bit
  by (rule bit_word_eqI) (auto simp: bit_simps bit_2_iff)

lemma sie_restore_off: "x AND SSTATUS_SIE = 0 \<Longrightarrow> x AND - 3 = x"
  unfolding sie_not [symmetric] using sie_bit [of x]
  by (intro bit_word_eqI) (auto simp: bit_simps bit_2_iff)

lemmas machine_unfold =
  mycpu_def set_mycpu_def intr_on_def intr_off_def intr_get_def Let_def

lemma push_off_eq: "push_off s = Done () (pushed s)"
  by (cases "cpus s (tp s)") (simp add: push_off_def pushed_def machine_unfold)

lemma mycpu_pushed [simp]:
  "mycpu (pushed s) = (mycpu s)\<lparr>noff := noff (mycpu s) + 1,
     intena := (if noff (mycpu s) = 0 then intr_get s else intena (mycpu s))\<rparr>"
  by (simp add: pushed_def mycpu_def)

lemma intr_get_pushed [simp]: "\<not> intr_get (pushed s)"
  by (simp add: pushed_def intr_get_def sie_off)

lemma pop_off_pushed:
  assumes "hart_ok s"
  shows "pop_off (pushed s) = Done () (settle s)"
  using assms
  by (cases "cpus s (tp s)"; cases "sstatus s (tp s) AND SSTATUS_SIE = 0")
    (auto simp: pop_off_def pushed_def settle_def hart_ok_def machine_unfold
      sie_off sie_restore_on sie_restore_off)

lemma acquire_free:
  assumes "lock_free lk s"
  shows "acquire lk s = Done () (acq lk s)"
  using assms
  by (simp add: acquire_def push_off_eq holding_def lock_free_def acq_def pushed_def Let_def)

lemma acquire_held: "holding lk s \<Longrightarrow> acquire lk s = Panic ''acquire''"
  by (simp add: acquire_def push_off_eq holding_def pushed_def)

lemma acquire_contended:
  "lk_locked (lks s lk) \<noteq> 0 \<Longrightarrow> lk_cpu (lks s lk) \<noteq> Some (tp s) \<Longrightarrow> acquire lk s = Spins"
  by (simp add: acquire_def push_off_eq holding_def pushed_def)

lemma tp_settle [simp]: "tp (settle s) = tp s"
  and lks_settle [simp]: "lks (settle s) = lks s"
  and sstatus_settle [simp]: "sstatus (settle s) = sstatus s"
  by (simp_all add: settle_def)

lemma tp_acq [simp]: "tp (acq lk s) = tp s"
  and lks_acq: "lks (acq lk s) = (lks s)(lk := (lks s lk)\<lparr>lk_locked := 1, lk_cpu := Some (tp s)\<rparr>)"
  by (simp_all add: acq_def pushed_def)

lemma noff_settle [simp]: "noff (mycpu (settle s)) = noff (mycpu s)"
  and cpu_proc_settle [simp]: "cpu_proc (mycpu (settle s)) = cpu_proc (mycpu s)"
  by (simp_all add: settle_def mycpu_def)

lemma noff_acq [simp]: "noff (mycpu (acq lk s)) = noff (mycpu s) + 1"
  and cpu_proc_acq [simp]: "cpu_proc (mycpu (acq lk s)) = cpu_proc (mycpu s)"
  by (simp_all add: acq_def pushed_def mycpu_def)

lemma intr_get_settle [simp]: "intr_get (settle s) = intr_get s"
  by (simp add: settle_def intr_get_def)

lemma intr_get_acq [simp]: "\<not> intr_get (acq lk s)"
  by (simp add: acq_def pushed_def intr_get_def sie_off)

lemma hart_ok_settle [simp]: "hart_ok (settle s) = hart_ok s"
  by (simp add: hart_ok_def)

lemma hart_ok_acq [simp]: "hart_ok s \<Longrightarrow> hart_ok (acq lk s)"
  by (simp add: hart_ok_def)

lemma settle_settle [simp]: "settle (settle s) = settle s"
  by (cases "cpus s (tp s)") (simp add: settle_def mycpu_def intr_get_def)

lemma settle_acq [simp]:
  assumes "hart_ok s"
  shows "settle (acq lk s) = acq lk s"
  using assms
  by (cases "cpus s (tp s)") (auto simp: settle_def acq_def pushed_def hart_ok_def mycpu_def intr_get_def)

lemma acq_settle [simp]: "acq lk (settle s) = acq lk s"
  by (cases "cpus s (tp s)") (auto simp: settle_def acq_def pushed_def mycpu_def intr_get_def)

lemma lock_free_settle [simp]: "lock_free lk (settle s) = lock_free lk s"
  by (simp add: lock_free_def)

lemma lock_free_acq [simp]: "lock_free l (acq lk s) \<longleftrightarrow> l \<noteq> lk \<and> lock_free l s"
  by (simp add: lock_free_def lks_acq)

lemma holding_acq [simp]: "holding lk (acq lk s)"
  by (simp add: holding_def lks_acq)

text \<open>A matched acquire and release of a free lock leaves every lock as it was.\<close>

lemma release_acq:
  assumes "hart_ok s" and "lock_free lk s"
  shows "release lk (acq lk s) = Done () (settle s)"
proof -
  have lk: "(lks s)(lk := (lks s lk)\<lparr>lk_locked := 0, lk_cpu := None\<rparr>) = lks s"
    using assms(2) by (cases "lks s lk") (auto simp: lock_free_def fun_eq_iff)
  have "release lk (acq lk s) = pop_off (pushed (s\<lparr>lks := (lks s)(lk := (lks s lk)\<lparr>lk_locked := 0, lk_cpu := None\<rparr>)\<rparr>))"
    by (cases s; cases "lks s lk") (simp add: release_def holding_def acq_def pushed_def machine_unfold)
  also have "\<dots> = Done () (settle s)"
    using pop_off_pushed [OF assms(1)] by (simp add: lk)
  finally show ?thesis .
qed

lemma acquire_release:
  assumes "hart_ok s" and "lock_free lk s"
  shows "obind (acquire lk s) (\<lambda>_ s. release lk s) = Done () (settle s)"
  using assms by (simp add: acquire_free release_acq)

section \<open>Nesting of push_off and pop_off\<close>

fun push_off_n :: "nat \<Rightarrow> ('a) machine_scheme \<Rightarrow> (unit, ('a) machine_scheme) outcome" where
  "push_off_n 0 s = Done () s"
| "push_off_n (Suc n) s = obind (push_off s) (\<lambda>_. push_off_n n)"

fun pop_off_n :: "nat \<Rightarrow> ('a) machine_scheme \<Rightarrow> (unit, ('a) machine_scheme) outcome" where
  "pop_off_n 0 s = Done () s"
| "pop_off_n (Suc n) s = obind (pop_off_n n s) (\<lambda>_. pop_off)"

lemma hart_ok_pushed [simp]: "hart_ok s \<Longrightarrow> hart_ok (pushed s)"
  by (simp add: hart_ok_def)

lemma settle_pushed [simp]: "hart_ok s \<Longrightarrow> settle (pushed s) = pushed s"
  by (cases "cpus s (tp s)") (auto simp: settle_def pushed_def hart_ok_def mycpu_def intr_get_def)

lemma push_pop_n:
  assumes "hart_ok s"
  shows "obind (push_off_n n s) (\<lambda>_. pop_off_n n) = Done () (if n = 0 then s else settle s)"
  using assms
proof (induction n arbitrary: s)
  case 0
  then show ?case by simp
next
  case (Suc n)
  have last: "pop_off_n (Suc n) = (\<lambda>s. obind (pop_off_n n s) (\<lambda>_. pop_off))"
    by (rule ext) simp
  have "obind (push_off_n (Suc n) s) (\<lambda>_. pop_off_n (Suc n)) =
      obind (obind (push_off_n n (pushed s)) (\<lambda>_. pop_off_n n)) (\<lambda>_. pop_off)"
    unfolding last by (simp add: push_off_eq obind_assoc)
  also have "obind (push_off_n n (pushed s)) (\<lambda>_. pop_off_n n) = Done () (pushed s)"
    using Suc by simp
  finally show ?case using Suc.prems by (simp add: pop_off_pushed)
qed

section \<open>Mutual exclusion between harts\<close>

text \<open>
  \<open>acquire\<close> and \<open>release\<close> seen by the other harts: the swap on \<open>lk->locked\<close> and the write of
  \<open>lk->cpu\<close> are separate memory operations, so another hart can run between them. A hart is
  outside, in the retry loop, past the swap but not yet recorded as owner, in its critical
  section, or past the clearing of \<open>lk->cpu\<close> but still holding \<open>lk->locked\<close>.
\<close>

datatype lock_pc = Outside | Swapping | Swapped | Critical | Clearing

record lock_sys =
  ls_pc :: "nat \<Rightarrow> lock_pc"
  ls_lock :: spinlock

definition holds :: "nat \<Rightarrow> spinlock \<Rightarrow> bool" where
  "holds h l \<longleftrightarrow> lk_locked l \<noteq> 0 \<and> lk_cpu l = Some h"

inductive lock_step :: "lock_sys \<Rightarrow> lock_sys \<Rightarrow> bool" where
  enter: "ls_pc s h = Outside \<Longrightarrow> \<not> holds h (ls_lock s) \<Longrightarrow>
    lock_step s (s\<lparr>ls_pc := (ls_pc s)(h := Swapping)\<rparr>)"
| swap_taken: "ls_pc s h = Swapping \<Longrightarrow> lk_locked (ls_lock s) \<noteq> 0 \<Longrightarrow>
    lock_step s (s\<lparr>ls_lock := (ls_lock s)\<lparr>lk_locked := 1\<rparr>\<rparr>)"
| swap_free: "ls_pc s h = Swapping \<Longrightarrow> lk_locked (ls_lock s) = 0 \<Longrightarrow>
    lock_step s (s\<lparr>ls_pc := (ls_pc s)(h := Swapped), ls_lock := (ls_lock s)\<lparr>lk_locked := 1\<rparr>\<rparr>)"
| record_cpu: "ls_pc s h = Swapped \<Longrightarrow>
    lock_step s (s\<lparr>ls_pc := (ls_pc s)(h := Critical), ls_lock := (ls_lock s)\<lparr>lk_cpu := Some h\<rparr>\<rparr>)"
| clear_cpu: "ls_pc s h = Critical \<Longrightarrow> holds h (ls_lock s) \<Longrightarrow>
    lock_step s (s\<lparr>ls_pc := (ls_pc s)(h := Clearing), ls_lock := (ls_lock s)\<lparr>lk_cpu := None\<rparr>\<rparr>)"
| unlock: "ls_pc s h = Clearing \<Longrightarrow>
    lock_step s (s\<lparr>ls_pc := (ls_pc s)(h := Outside), ls_lock := (ls_lock s)\<lparr>lk_locked := 0\<rparr>\<rparr>)"

definition lock_start :: "string \<Rightarrow> lock_sys" where
  "lock_start name = \<lparr>ls_pc = (\<lambda>_. Outside), ls_lock = \<lparr>lk_locked = 0, lk_name = name, lk_cpu = None\<rparr>\<rparr>"

inductive lock_reach :: "lock_sys \<Rightarrow> bool" where
  start: "lock_reach (lock_start name)"
| step: "lock_reach s \<Longrightarrow> lock_step s t \<Longrightarrow> lock_reach t"

text \<open>A hart is inside from the successful swap to the release of \<open>lk->locked\<close>.\<close>

definition inside :: "lock_sys \<Rightarrow> nat \<Rightarrow> bool" where
  "inside s h \<longleftrightarrow> ls_pc s h \<in> {Swapped, Critical, Clearing}"

definition lock_inv :: "lock_sys \<Rightarrow> bool" where
  "lock_inv s \<longleftrightarrow>
     (\<forall>h k. inside s h \<and> inside s k \<longrightarrow> h = k) \<and>
     (\<forall>h. inside s h \<longrightarrow> lk_locked (ls_lock s) \<noteq> 0) \<and>
     (\<forall>h. lk_cpu (ls_lock s) = Some h \<longleftrightarrow> ls_pc s h = Critical)"

lemma lock_inv_start: "lock_inv (lock_start name)"
  by (simp add: lock_inv_def lock_start_def inside_def)

lemma lock_inv_step:
  assumes "lock_step s t" and "lock_inv s"
  shows "lock_inv t"
  using assms
proof (induction rule: lock_step.induct)
  case (enter s h)
  then show ?case by (auto simp: lock_inv_def inside_def)
next
  case (swap_taken s h)
  then show ?case by (auto simp: lock_inv_def inside_def)
next
  case (swap_free s h)
  then show ?case by (auto simp: lock_inv_def inside_def)
next
  case (record_cpu s h)
  then show ?case by (auto simp: lock_inv_def inside_def)
next
  case (clear_cpu s h)
  then show ?case by (auto simp: lock_inv_def inside_def)
next
  case (unlock s h)
  then show ?case by (auto simp: lock_inv_def inside_def)
qed

lemma lock_reach_inv: "lock_reach s \<Longrightarrow> lock_inv s"
proof (induction rule: lock_reach.induct)
  case (start name)
  show ?case by (rule lock_inv_start)
next
  case (step s t)
  then show ?case by (blast intro: lock_inv_step)
qed

section \<open>Properties\<close>

text \<open>A hart as it runs between system calls: no lock held, interrupts on.\<close>

definition ctx0 :: kcontext where
  "ctx0 = \<lparr>ctx_ra = 0, ctx_sp = 0, ctx_s0 = 0, ctx_s1 = 0, ctx_s2 = 0, ctx_s3 = 0, ctx_s4 = 0,
     ctx_s5 = 0, ctx_s6 = 0, ctx_s7 = 0, ctx_s8 = 0, ctx_s9 = 0, ctx_s10 = 0, ctx_s11 = 0\<rparr>"

definition hart0 :: machine where
  "hart0 = \<lparr>tp = 0, cpus = (\<lambda>_. \<lparr>cpu_proc = None, cpu_context = ctx0, noff = 0, intena = False\<rparr>),
     sstatus = (\<lambda>_. SSTATUS_SIE), lks = (\<lambda>_. \<lparr>lk_locked = 0, lk_name = [], lk_cpu = None\<rparr>)\<rparr>"

lemma hart0_ok [simp]: "hart_ok (machine.extend hart0 x)" "lock_free lk (machine.extend hart0 x)"
  by (simp_all add: hart0_def machine.defs hart_ok_def lock_free_def mycpu_def)

text \<open>
  C30. In every interleaving of harts that acquire and release one spinlock, at most one hart is
  between its successful swap and its release of \<open>lk->locked\<close>, the lock word is set while one is,
  and \<open>holding\<close> is true exactly for the hart inside its critical section.
\<close>

theorem spinlock_mutual_exclusion:
  assumes "lock_reach s"
  shows "(\<forall>h k. inside s h \<and> inside s k \<longrightarrow> h = k) \<and>
    (\<forall>h. inside s h \<longrightarrow> lk_locked (ls_lock s) \<noteq> 0) \<and>
    (\<forall>h. holds h (ls_lock s) \<longleftrightarrow> ls_pc s h = Critical)"
proof -
  have "lock_inv s" using assms by (rule lock_reach_inv)
  then show ?thesis unfolding lock_inv_def holds_def inside_def by blast
qed

theorem spinlock_mutual_exclusion_witness:
  "\<exists>s. lock_reach s \<and> inside s 3 \<and> (\<forall>k. inside s k \<longrightarrow> k = 3)"
proof -
  let ?s0 = "lock_start ''kmem''"
  let ?s1 = "?s0\<lparr>ls_pc := (ls_pc ?s0)(3 := Swapping)\<rparr>"
  let ?s2 = "?s1\<lparr>ls_pc := (ls_pc ?s1)(3 := Swapped), ls_lock := (ls_lock ?s1)\<lparr>lk_locked := 1\<rparr>\<rparr>"
  have "lock_step ?s0 ?s1" by (rule lock_step.enter) (simp_all add: lock_start_def holds_def)
  moreover have "lock_step ?s1 ?s2" by (rule lock_step.swap_free) (simp_all add: lock_start_def)
  ultimately have r: "lock_reach ?s2" by (blast intro: lock_reach.intros)
  have i: "inside ?s2 3" by (simp add: inside_def)
  show ?thesis using spinlock_mutual_exclusion [OF r] r i by blast
qed

text \<open>
  C35. The sequential \<open>acquire\<close> and \<open>release\<close> are runs of the interleaved model: an \<open>acquire\<close> that
  returns takes the lock from the idle state of its hart to the critical section, and a
  \<open>release\<close> from there back to idle.
\<close>

theorem acquire_release_are_steps:
  "(acquire lk s = Done () t \<longrightarrow>
      lock_step\<^sup>*\<^sup>* \<lparr>ls_pc = pc(tp s := Outside), ls_lock = lks s lk\<rparr>
        \<lparr>ls_pc = pc(tp s := Critical), ls_lock = lks t lk\<rparr>) \<and>
   (release lk s = Done () t \<longrightarrow>
      lock_step\<^sup>*\<^sup>* \<lparr>ls_pc = pc(tp s := Critical), ls_lock = lks s lk\<rparr>
        \<lparr>ls_pc = pc(tp s := Outside), ls_lock = lks t lk\<rparr>)"
proof (intro conjI impI)
  assume "acquire lk s = Done () t"
  then have nh: "\<not> holding lk s" and free: "lk_locked (lks s lk) = 0"
    and t: "lks t lk = (lks s lk)\<lparr>lk_locked := 1, lk_cpu := Some (tp s)\<rparr>"
    by (auto simp: acquire_def push_off_eq pushed_def holding_def machine_unfold split: if_splits)
  let ?s0 = "\<lparr>ls_pc = pc(tp s := Outside), ls_lock = lks s lk\<rparr>"
  let ?s1 = "?s0\<lparr>ls_pc := (ls_pc ?s0)(tp s := Swapping)\<rparr>"
  let ?s2 = "?s1\<lparr>ls_pc := (ls_pc ?s1)(tp s := Swapped), ls_lock := (ls_lock ?s1)\<lparr>lk_locked := 1\<rparr>\<rparr>"
  let ?s3 = "?s2\<lparr>ls_pc := (ls_pc ?s2)(tp s := Critical), ls_lock := (ls_lock ?s2)\<lparr>lk_cpu := Some (tp s)\<rparr>\<rparr>"
  have "lock_step ?s0 ?s1" using nh by (intro lock_step.enter) (simp_all add: holds_def holding_def)
  moreover have "lock_step ?s1 ?s2" using free by (intro lock_step.swap_free) simp_all
  moreover have "lock_step ?s2 ?s3" by (intro lock_step.record_cpu) simp
  ultimately have "lock_step\<^sup>*\<^sup>* ?s0 ?s3" by (meson r_into_rtranclp rtranclp_trans)
  then show "lock_step\<^sup>*\<^sup>* ?s0 \<lparr>ls_pc = pc(tp s := Critical), ls_lock = lks t lk\<rparr>"
    by (simp add: t)
next
  assume "release lk s = Done () t"
  then have h: "holding lk s" and t: "lks t lk = (lks s lk)\<lparr>lk_locked := 0, lk_cpu := None\<rparr>"
    by (auto simp: release_def pop_off_def machine_unfold split: if_splits)
  let ?s0 = "\<lparr>ls_pc = pc(tp s := Critical), ls_lock = lks s lk\<rparr>"
  let ?s1 = "?s0\<lparr>ls_pc := (ls_pc ?s0)(tp s := Clearing), ls_lock := (ls_lock ?s0)\<lparr>lk_cpu := None\<rparr>\<rparr>"
  let ?s2 = "?s1\<lparr>ls_pc := (ls_pc ?s1)(tp s := Outside), ls_lock := (ls_lock ?s1)\<lparr>lk_locked := 0\<rparr>\<rparr>"
  have "lock_step ?s0 ?s1" using h by (intro lock_step.clear_cpu) (simp_all add: holds_def holding_def)
  moreover have "lock_step ?s1 ?s2" by (intro lock_step.unlock) simp
  ultimately have "lock_step\<^sup>*\<^sup>* ?s0 ?s2" by (meson r_into_rtranclp rtranclp_trans)
  then show "lock_step\<^sup>*\<^sup>* ?s0 \<lparr>ls_pc = pc(tp s := Outside), ls_lock = lks t lk\<rparr>"
    by (cases "lks s lk") (simp add: t)
qed

theorem acquire_release_are_steps_witness:
  "lock_step\<^sup>*\<^sup>* \<lparr>ls_pc = (\<lambda>_. Outside)(0 := Outside), ls_lock = lks hart0 KmemLock\<rparr>
     \<lparr>ls_pc = (\<lambda>_. Outside)(0 := Critical), ls_lock = lks (acq KmemLock hart0) KmemLock\<rparr>"
proof -
  have "acquire KmemLock hart0 = Done () (acq KmemLock hart0)"
    by (rule acquire_free) (simp add: hart0_def lock_free_def)
  moreover have "tp hart0 = 0" by (simp add: hart0_def)
  ultimately show ?thesis
    using acquire_release_are_steps [of KmemLock hart0 "acq KmemLock hart0" "\<lambda>_. Outside"] by simp
qed



end
