(* ===== verification/Kalloc.thy ===== *)
theory Kalloc
  imports Byte_Mem Spinlock
begin

text \<open>
  The physical page allocator (\<open>kernel/kalloc.c\<close>). Free pages form a linked list threaded
  through the pages themselves: \<open>kmem.freelist\<close> is the first page, the first eight bytes of a
  free page hold the address of the next. \<open>kend\<close> is the linker symbol \<open>end\<close>, the first address
  after the kernel image.

  The abstract view of the allocator is the list of its free pages, \<open>kmem_inv s ps\<close>. The locale
  \<open>page_allocator\<close> states what its clients rely on.
\<close>

section \<open>Operations\<close>

record kmem = machine +
  mem :: memory
  freelist :: uint64
  kend :: uint64

definition kfree :: "uint64 \<Rightarrow> ('a) kmem_scheme \<Rightarrow> (unit, ('a) kmem_scheme) outcome" where
  "kfree pa s =
     (if pa mod PGSIZE \<noteq> 0 \<or> pa < kend s \<or> PHYSTOP \<le> pa then Panic ''kfree''
      else let s = s\<lparr>mem := memset (mem s) pa 1 4096\<rparr>
      in obind (acquire KmemLock s) (\<lambda>_ s.
         let s = s\<lparr>mem := store64 (mem s) pa (freelist s)\<rparr>;
             s = s\<lparr>freelist := pa\<rparr>
         in release KmemLock s))"

definition kalloc :: "('a) kmem_scheme \<Rightarrow> (uint64, ('a) kmem_scheme) outcome" where
  "kalloc s =
     obind (acquire KmemLock s) (\<lambda>_ s.
     let r = freelist s;
         s = (if r \<noteq> 0 then s\<lparr>freelist := load64 (mem s) r\<rparr> else s)
     in obind (release KmemLock s) (\<lambda>_ s.
     let s = (if r \<noteq> 0 then s\<lparr>mem := memset (mem s) r 5 4096\<rparr> else s)
     in Done r s))"

text \<open>
  \<open>for(; p + PGSIZE <= (char*)pa_end; p += PGSIZE) kfree(p);\<close>. The loop ends because \<open>kfree\<close>
  panics at \<open>PHYSTOP\<close> at the latest.
\<close>

lemma kfree_Done_below: "kfree pa s = Done x t \<Longrightarrow> pa < PHYSTOP"
  by (simp add: kfree_def not_le split: if_splits)

function freerange_loop :: "uint64 \<Rightarrow> uint64 \<Rightarrow> ('a) kmem_scheme \<Rightarrow> (unit, ('a) kmem_scheme) outcome" where
  "freerange_loop p pa_end s =
     (if p + PGSIZE \<le> pa_end
      then obind (kfree p s) (\<lambda>_ s. freerange_loop (p + PGSIZE) pa_end s)
      else Done () s)"
  by pat_completeness auto
termination
proof (relation "measure (\<lambda>(p, pa_end, s). 18446744073709551616 - unat p)", goal_cases)
  case 1
  then show ?case by simp
next
  case (2 p pa_end s x t)
  then have "p < PHYSTOP" by (auto dest: kfree_Done_below)
  then have "unat p < 2281701376" by (simp add: word_less_nat_alt)
  then show ?case by (simp add: unat_word_ariths)
qed

declare freerange_loop.simps [simp del]

definition freerange :: "uint64 \<Rightarrow> uint64 \<Rightarrow> ('a) kmem_scheme \<Rightarrow> (unit, ('a) kmem_scheme) outcome" where
  "freerange pa_start pa_end s = freerange_loop (PGROUNDUP pa_start) pa_end s"

definition kinit :: "('a) kmem_scheme \<Rightarrow> (unit, ('a) kmem_scheme) outcome" where
  "kinit s = obind (initlock KmemLock ''kmem'' s) (\<lambda>_ s. freerange (kend s) PHYSTOP s)"

section \<open>The free list\<close>

text \<open>A page the allocator manages.\<close>

definition ram_page :: "('a) kmem_scheme \<Rightarrow> uint64 \<Rightarrow> bool" where
  "ram_page s pa \<longleftrightarrow> page_aligned pa \<and> kend s \<le> pa \<and> pa < PHYSTOP"

text \<open>\<open>links m h ps\<close>: from \<open>h\<close> the links in memory visit exactly the pages \<open>ps\<close>.\<close>

fun links :: "memory \<Rightarrow> uint64 \<Rightarrow> uint64 list \<Rightarrow> bool" where
  "links m h [] \<longleftrightarrow> h = 0"
| "links m h (p # ps) \<longleftrightarrow> h = p \<and> p \<noteq> 0 \<and> links m (load64 m p) ps"

definition kmem_inv :: "('a) kmem_scheme \<Rightarrow> uint64 list \<Rightarrow> bool" where
  "kmem_inv s ps \<longleftrightarrow>
     hart_ok s \<and> lock_free KmemLock s \<and> KERNBASE \<le> kend s \<and> kend s \<le> PHYSTOP \<and>
     links (mem s) (freelist s) ps \<and> distinct ps \<and> (\<forall>p \<in> set ps. ram_page s p)"

text \<open>Bytes of a page, and of the rest of memory.\<close>

definition in_page :: "uint64 \<Rightarrow> uint64 \<Rightarrow> bool" where
  "in_page p a \<longleftrightarrow> unat (a - p) < 4096"

definition same_outside :: "uint64 set \<Rightarrow> memory \<Rightarrow> memory \<Rightarrow> bool" where
  "same_outside P m m' \<longleftrightarrow> (\<forall>a. (\<forall>p \<in> P. \<not> in_page p a) \<longrightarrow> m' a = m a)"

lemma unat_in_page:
  assumes "page_aligned p" and "in_page p a"
  shows "unat a div 4096 = unat p div 4096"
proof -
  obtain q where q: "unat p = 4096 * q" using assms(1) by (auto simp: page_aligned_unat)
  define k where "k = a - p"
  then have a: "a = p + k" and k: "unat k < 4096" using assms(2) by (simp_all add: in_page_def)
  from k q page_aligned_bound [OF assms(1)] have "unat a = 4096 * q + unat k"
    unfolding a by (simp add: unat_word_ariths)
  with q k show ?thesis by simp
qed

lemma in_page_iff:
  assumes "page_aligned p"
  shows "in_page p a \<longleftrightarrow> unat a div 4096 = unat p div 4096"
proof
  assume "in_page p a"
  with assms show "unat a div 4096 = unat p div 4096" by (rule unat_in_page)
next
  assume eq: "unat a div 4096 = unat p div 4096"
  have p: "unat p = 4096 * (unat p div 4096)"
    using assms by (simp add: page_aligned_unat mod_eq_0_iff_dvd)
  have "unat a = 4096 * (unat p div 4096) + unat a mod 4096"
    unfolding eq [symmetric] by simp
  with p have "unat p \<le> unat a" and "unat a - unat p < 4096" by linarith+
  then show "in_page p a" by (simp add: in_page_def unat_sub word_le_nat_alt)
qed

lemma in_page_self [simp]: "in_page p p"
  by (simp add: in_page_def)

lemma word_in_page:
  assumes "page_aligned p" and "word_aligned b" and "in_page p b" and "i < 8"
  shows "in_page p (b + of_nat i)"
proof -
  have "unat (b + of_nat i) div 8 div 512 = unat b div 8 div 512"
    using slot_of_offset [OF assms(2,4)] by simp
  then have "unat (b + of_nat i) div 4096 = unat b div 4096"
    by (simp add: div_mult2_eq [symmetric])
  with assms(1,3) show ?thesis by (simp add: in_page_iff)
qed

lemma page_word_aligned: "page_aligned p \<Longrightarrow> word_aligned p"
proof -
  assume "page_aligned p"
  then have "4096 dvd unat p" by (auto simp: page_aligned_unat)
  then have "8 dvd unat p" by (rule dvd_trans [rotated]) simp
  then show ?thesis by (auto simp: word_aligned_def)
qed

lemma in_page_disjoint:
  assumes "page_aligned p" and "page_aligned q" and "in_page p a" and "in_page q a"
  shows "p = q"
proof -
  have "unat p div 4096 = unat q div 4096" using assms unat_in_page by metis
  with assms(1,2) have "unat p = unat q"
    unfolding page_aligned_unat by (metis mult_div_mod_eq)
  then show ?thesis by (simp add: word_unat_eq_iff)
qed

text \<open>Taking and releasing locks does not touch the allocator's fields.\<close>

lemma kmem_acq [simp]:
  "mem (acq l s) = mem s" "freelist (acq l s) = freelist s" "kend (acq l s) = kend s"
  "mem_update f (acq l s) = acq l (mem_update f s)"
  "freelist_update g (acq l s) = acq l (freelist_update g s)"
  by (simp_all add: acq_def pushed_def mycpu_def intr_get_def)

lemma kmem_settle [simp]:
  "mem (settle s) = mem s" "freelist (settle s) = freelist s" "kend (settle s) = kend s"
  "mem_update f (settle s) = settle (mem_update f s)"
  "freelist_update g (settle s) = settle (freelist_update g s)"
  by (simp_all add: settle_def mycpu_def intr_get_def)

lemma kmem_machine [simp]:
  "hart_ok (mem_update f s) = hart_ok s" "hart_ok (freelist_update g s) = hart_ok s"
  "lock_free l (mem_update f s) = lock_free l s" "lock_free l (freelist_update g s) = lock_free l s"
  by (simp_all add: hart_ok_def lock_free_def mycpu_def intr_get_def)

lemma kalloc_eq:
  assumes "hart_ok s" and "lock_free KmemLock s"
  shows "kalloc s =
    (if freelist s = 0 then Done 0 (settle s)
     else Done (freelist s) (settle (s\<lparr>freelist := load64 (mem s) (freelist s),
            mem := memset (mem s) (freelist s) 5 4096\<rparr>)))"
  using assms by (simp add: kalloc_def acquire_free release_acq Let_def)

lemma kfree_eq:
  assumes "hart_ok s" and "lock_free KmemLock s" and "ram_page s pa"
  shows "kfree pa s = Done () (settle (s\<lparr>mem := store64 (memset (mem s) pa 1 4096) pa (freelist s),
            freelist := pa\<rparr>))"
  using assms
  by (simp add: kfree_def acquire_free release_acq Let_def ram_page_def page_aligned_def not_le not_less)

lemma kfree_panics:
  assumes "\<not> ram_page s pa"
  shows "kfree pa s = Panic ''kfree''"
  using assms by (auto simp: kfree_def ram_page_def page_aligned_def not_le)

section \<open>Frames\<close>

lemma same_outside_refl [simp]: "same_outside P m m"
  by (simp add: same_outside_def)

lemma same_outside_trans:
  "same_outside P m m' \<Longrightarrow> same_outside Q m' m'' \<Longrightarrow> same_outside (P \<union> Q) m m''"
  by (auto simp: same_outside_def)

lemma same_outside_mono: "same_outside P m m' \<Longrightarrow> P \<subseteq> Q \<Longrightarrow> same_outside Q m m'"
  by (auto simp: same_outside_def)

lemma same_outside_memset [simp]: "same_outside {p} m (memset m p c 4096)"
  by (simp add: same_outside_def in_page_def memset_apply)

lemma same_outside_store64:
  assumes "page_aligned p" and "word_aligned a" and "in_page p a"
  shows "same_outside {p} m (store64 m a v)"
  unfolding same_outside_def
proof (intro allI impI)
  fix b assume "\<forall>q \<in> {p}. \<not> in_page q b"
  then have b: "\<not> in_page p b" by simp
  have "unat b div 8 \<noteq> unat a div 8"
  proof
    assume "unat b div 8 = unat a div 8"
    then have "unat b div 8 div 512 = unat a div 8 div 512" by simp
    then have "unat b div 4096 = unat a div 4096" by (simp add: div_mult2_eq [symmetric])
    with b assms(1,3) show False by (simp add: in_page_iff)
  qed
  with assms(2) show "store64 m a v b = m b" by (rule store64_other)
qed

lemma load64_same_outside:
  assumes "same_outside P m m'" and "\<forall>p \<in> P. page_aligned p" and "page_aligned q" and "q \<notin> P"
    and "word_aligned b" and "in_page q b"
  shows "load64 m' b = load64 m b"
  unfolding load64_def
proof (rule arg_cong [where f = le_word], rule load_bytes_cong)
  fix i :: nat assume "i < 8"
  then have "in_page q (b + of_nat i)" using assms word_in_page by blast
  then have "\<forall>p \<in> P. \<not> in_page p (b + of_nat i)" using assms(2-4) in_page_disjoint by blast
  with assms(1) show "m' (b + of_nat i) = m (b + of_nat i)" by (simp add: same_outside_def)
qed

lemma links_cong:
  "(\<And>p. p \<in> set ps \<Longrightarrow> load64 m' p = load64 m p) \<Longrightarrow> links m' h ps = links m h ps"
  by (induction ps arbitrary: h) auto

lemma links_same_outside:
  assumes "same_outside P m m'" and "\<forall>p \<in> P. page_aligned p"
    and "\<forall>q \<in> set ps. page_aligned q" and "set ps \<inter> P = {}"
  shows "links m' h ps = links m h ps"
  using assms by (intro links_cong load64_same_outside) (auto simp: page_word_aligned)

text \<open>
  The state changed only in memory, the head of the free list and the scratch field \<open>intena\<close>.
\<close>

definition only_mem :: "('a) kmem_scheme \<Rightarrow> ('a) kmem_scheme \<Rightarrow> bool" where
  "only_mem s t \<longleftrightarrow> (\<exists>m f. t = s\<lparr>mem := m, freelist := f\<rparr> \<or> t = settle (s\<lparr>mem := m, freelist := f\<rparr>))"

lemma only_mem_updates [simp]:
  "only_mem s (s\<lparr>mem := m, freelist := f\<rparr>)" "only_mem s (settle (s\<lparr>mem := m, freelist := f\<rparr>))"
  "only_mem s (settle (s\<lparr>freelist := f, mem := m\<rparr>))"
proof -
  show "only_mem s (s\<lparr>mem := m, freelist := f\<rparr>)" and
    settled: "only_mem s (settle (s\<lparr>mem := m, freelist := f\<rparr>))"
    unfolding only_mem_def by blast+
  have "s\<lparr>freelist := f, mem := m\<rparr> = s\<lparr>mem := m, freelist := f\<rparr>" by (cases s) simp
  with settled show "only_mem s (settle (s\<lparr>freelist := f, mem := m\<rparr>))" by metis
qed

lemma only_mem_refl [simp]: "only_mem s s"
  unfolding only_mem_def by (rule exI [of _ "mem s"], rule exI [of _ "freelist s"]) simp

lemma only_mem_settle [simp]: "only_mem s (settle s)"
  unfolding only_mem_def by (rule exI [of _ "mem s"], rule exI [of _ "freelist s"]) simp

lemma only_mem_mem [simp]: "only_mem s (s\<lparr>mem := m\<rparr>)"
  unfolding only_mem_def by (rule exI [of _ m], rule exI [of _ "freelist s"]) simp

lemma only_mem_trans:
  assumes "only_mem s t" and "only_mem t u"
  shows "only_mem s u"
proof -
  from assms(1) obtain m f where t: "t = s\<lparr>mem := m, freelist := f\<rparr> \<or> t = settle (s\<lparr>mem := m, freelist := f\<rparr>)"
    by (auto simp: only_mem_def)
  from assms(2) obtain m' f' where u: "u = t\<lparr>mem := m', freelist := f'\<rparr> \<or> u = settle (t\<lparr>mem := m', freelist := f'\<rparr>)"
    by (auto simp: only_mem_def)
  from t have "t\<lparr>mem := m', freelist := f'\<rparr> \<in> {s\<lparr>mem := m', freelist := f'\<rparr>, settle (s\<lparr>mem := m', freelist := f'\<rparr>)}"
    by auto
  with u show ?thesis by (elim disjE insertE emptyE) (simp_all only: settle_settle only_mem_updates)
qed

lemma only_mem_keeps:
  assumes "only_mem s t"
  shows "kend t = kend s" and "lks t = lks s" and "tp t = tp s" and "sstatus t = sstatus s"
    and "noff (mycpu t) = noff (mycpu s)" and "cpu_proc (mycpu t) = cpu_proc (mycpu s)"
    and "kmem.more t = kmem.more s" and "hart_ok t = hart_ok s" and "lock_free lk t = lock_free lk s"
    and "ram_page t = ram_page s"
  using assms by (auto simp: only_mem_def mycpu_def settle_def ram_page_def fun_eq_iff hart_ok_def
    lock_free_def intr_get_def)

section \<open>The allocator refines its list of free pages\<close>

lemma ram_page_simps [simp]:
  "ram_page (mem_update f s) = ram_page s" "ram_page (freelist_update g s) = ram_page s"
  "ram_page (settle s) = ram_page s"
  by (simp_all add: ram_page_def fun_eq_iff)

lemma ram_page_aligned: "ram_page s p \<Longrightarrow> page_aligned p"
  by (simp add: ram_page_def)

lemma ram_page_nonzero: "kmem_inv s ps \<Longrightarrow> ram_page s p \<Longrightarrow> p \<noteq> 0"
  by (auto simp: kmem_inv_def ram_page_def)

lemma kalloc_empty:
  assumes "kmem_inv s []"
  shows "kalloc s = Done 0 (settle s) \<and> kmem_inv (settle s) []"
  using assms by (simp add: kmem_inv_def kalloc_eq)

lemma kalloc_pop:
  assumes inv: "kmem_inv s (p # ps)"
  shows "yields (kalloc s) (\<lambda>r t. r = p \<and> kmem_inv t ps \<and> only_mem s t \<and>
    same_outside {p} (mem s) (mem t) \<and> (\<forall>a. in_page p a \<longrightarrow> mem t a = 5))"
proof -
  let ?m = "memset (mem s) p 5 4096"
  have al: "page_aligned p" "\<forall>q \<in> set ps. page_aligned q" and np: "p \<notin> set ps"
    using inv by (auto simp: kmem_inv_def ram_page_def)
  have "links ?m (load64 (mem s) p) ps = links (mem s) (load64 (mem s) p) ps"
    by (rule links_same_outside [of "{p}"]) (use al np in auto)
  with inv have "kmem_inv (settle (s\<lparr>freelist := load64 (mem s) p, mem := ?m\<rparr>)) ps"
    by (simp add: kmem_inv_def)
  moreover have "kalloc s = Done p (settle (s\<lparr>freelist := load64 (mem s) p, mem := ?m\<rparr>))"
    using inv by (simp add: kmem_inv_def kalloc_eq)
  moreover have "only_mem s (settle (s\<lparr>freelist := load64 (mem s) p, mem := ?m\<rparr>))"
    by simp
  ultimately show ?thesis by (simp add: memset_apply in_page_def)
qed

lemma kfree_push:
  assumes inv: "kmem_inv s ps" and p: "ram_page s p" and np: "p \<notin> set ps"
  shows "yields (kfree p s) (\<lambda>_ t. kmem_inv t (p # ps) \<and> only_mem s t \<and>
    same_outside {p} (mem s) (mem t))"
proof -
  let ?junk = "memset (mem s) p 1 4096"
  let ?m = "store64 ?junk p (freelist s)"
  have al: "page_aligned p" "\<forall>q \<in> set ps. page_aligned q" and p0: "p \<noteq> 0"
    using inv p ram_page_nonzero [OF inv p] by (auto simp: kmem_inv_def ram_page_def)
  have "same_outside {p} ?junk ?m"
    using al by (intro same_outside_store64) (simp_all add: page_word_aligned)
  then have so: "same_outside {p} (mem s) ?m"
    using same_outside_trans [OF same_outside_memset] by fastforce
  have "links ?m (freelist s) ps = links (mem s) (freelist s) ps"
    by (rule links_same_outside [OF so]) (use al np in auto)
  with inv p np p0 have "kmem_inv (settle (s\<lparr>mem := ?m, freelist := p\<rparr>)) (p # ps)"
    by (simp add: kmem_inv_def)
  moreover have "only_mem s (settle (s\<lparr>mem := ?m, freelist := p\<rparr>))"
    by simp
  ultimately show ?thesis using so inv p by (simp add: kmem_inv_def kfree_eq)
qed

section \<open>The pages that the allocator starts with\<close>

definition pages :: "uint64 \<Rightarrow> nat \<Rightarrow> uint64 list" where
  "pages p n = map (\<lambda>i. p + of_nat (4096 * i)) [0..<n]"

lemma pages_0 [simp]: "pages p 0 = []"
  by (simp add: pages_def)

lemma pages_Suc: "pages p (Suc n) = p # pages (p + 4096) n"
  by (simp add: pages_def map_upt_Suc algebra_simps del: upt_Suc)

lemma page_step:
  assumes "page_aligned p" and "unat p + 4096 \<le> 2281701376"
  shows "unat (p + 4096) = unat p + 4096" and "page_aligned (p + 4096)"
  using assms by (auto simp: page_aligned_unat unat_word_ariths)

lemma freerange_loop_frees:
  assumes "kmem_inv s ps" and "page_aligned p" and "kend s \<le> p" and "page_aligned e"
    and "unat p + 4096 * n = unat e" and "unat e \<le> 2281701376" and "\<forall>q \<in> set ps. q < p"
  shows "yields (freerange_loop p e s) (\<lambda>_ t. kmem_inv t (rev (pages p n) @ ps) \<and> kend t = kend s)"
  using assms
proof (induction n arbitrary: s ps p)
  case 0
  then have "unat p = unat e" "unat (p + 4096) = unat p + 4096" by (simp_all add: unat_word_ariths)
  then have "\<not> p + 4096 \<le> e" by (simp add: word_le_nat_alt)
  with 0 show ?case by (simp add: freerange_loop.simps)
next
  case (Suc n)
  have step: "unat (p + 4096) = unat p + 4096" "page_aligned (p + 4096)"
    using Suc.prems page_step [of p] by auto
  have "p + 4096 \<le> e" using Suc.prems step by (simp add: word_le_nat_alt)
  have "ram_page s p" using Suc.prems by (simp add: ram_page_def word_less_nat_alt)
  moreover have "p \<notin> set ps" using Suc.prems by auto
  ultimately obtain t where t: "kfree p s = Done () t" "kmem_inv t (p # ps)" "kend t = kend s"
    using kfree_push [OF Suc.prems(1)] only_mem_keeps(1) by (fastforce simp: yields_iff)
  have "yields (freerange_loop (p + 4096) e t)
    (\<lambda>_ u. kmem_inv u (rev (pages (p + 4096) n) @ p # ps) \<and> kend u = kend t)"
    using Suc.prems t step by (intro Suc.IH) (auto simp: word_less_nat_alt word_le_nat_alt)
  with t \<open>p + 4096 \<le> e\<close> show ?case by (subst freerange_loop.simps) (simp add: pages_Suc)
qed

lemma kinit_frees:
  assumes "hart_ok s" and "KERNBASE \<le> kend s" and "kend s \<le> PHYSTOP" and "freelist s = 0"
  shows "yields (kinit s) (\<lambda>_ t. kmem_inv t
    (rev (pages (PGROUNDUP (kend s)) ((2281701376 - unat (PGROUNDUP (kend s))) div 4096))))"
proof -
  let ?p = "PGROUNDUP (kend s)"
  have k: "unat (kend s) \<le> 2281701376" using assms(3) by (simp add: word_le_nat_alt)
  obtain t where t: "initlock KmemLock ''kmem'' s = Done () t" "kmem_inv t []" "kend t = kend s"
    using assms by (auto simp: initlock_def kmem_inv_def hart_ok_def lock_free_def mycpu_def intr_get_def)
  have up: "unat ?p = 4096 * ((unat (kend s) + 4095) div 4096)"
    using k by (simp add: unat_PGROUNDUP)
  have "(unat (kend s) + 4095) div 4096 \<le> (2281701376 + 4095) div 4096"
    by (rule div_le_mono) (use k in simp)
  then have "unat ?p \<le> 2281701376" unfolding up by simp
  moreover have "unat (kend s) \<le> unat ?p" unfolding up by simp
  moreover have "4096 dvd (2281701376 - unat ?p)" unfolding up by (rule dvd_diff_nat) auto
  ultimately have "yields (freerange_loop ?p PHYSTOP t)
    (\<lambda>_ u. kmem_inv u (rev (pages ?p ((2281701376 - unat ?p) div 4096)) @ []) \<and> kend u = kend t)"
    using t by (intro freerange_loop_frees)
      (simp_all add: word_le_nat_alt page_aligned_unat [of 2281701376])
  with t show ?thesis by (auto simp: kinit_def freerange_def elim: yields_mono)
qed

section \<open>The interface of the allocator\<close>

text \<open>\<open>n\<close> allocations in a row.\<close>

fun alloc_n :: "('s \<Rightarrow> (uint64, 's) outcome) \<Rightarrow> nat \<Rightarrow> 's \<Rightarrow> (uint64 list, 's) outcome" where
  "alloc_n alloc 0 s = Done [] s"
| "alloc_n alloc (Suc n) s =
     obind (alloc s) (\<lambda>p s. obind (alloc_n alloc n s) (\<lambda>ps s. Done (p # ps) s))"

text \<open>
  What a client of the allocator relies on: \<open>inv s ps\<close> is the abstract state, the free pages in
  the order in which they will be given out.
\<close>

locale page_allocator =
  fixes alloc :: "'s \<Rightarrow> (uint64, 's) outcome"
    and free :: "uint64 \<Rightarrow> 's \<Rightarrow> (unit, 's) outcome"
    and inv :: "'s \<Rightarrow> uint64 list \<Rightarrow> bool"
    and usable :: "'s \<Rightarrow> uint64 \<Rightarrow> bool"
    and ram :: "'s \<Rightarrow> memory"
  assumes alloc_none: "inv s [] \<Longrightarrow>
      yields (alloc s) (\<lambda>r t. r = 0 \<and> inv t [] \<and> usable t = usable s \<and> ram t = ram s)"
    and alloc_some: "inv s (p # ps) \<Longrightarrow>
      yields (alloc s) (\<lambda>r t. r = p \<and> inv t ps \<and> usable t = usable s \<and> same_outside {p} (ram s) (ram t))"
    and free_some: "inv s ps \<Longrightarrow> usable s p \<Longrightarrow> p \<notin> set ps \<Longrightarrow>
      yields (free p s) (\<lambda>_ t. inv t (p # ps) \<and> usable t = usable s \<and> same_outside {p} (ram s) (ram t))"
    and inv_sound: "inv s ps \<Longrightarrow> distinct ps \<and> 0 \<notin> set ps \<and> (\<forall>p \<in> set ps. usable s p)"
begin

lemma alloc_all:
  "inv s (ps @ qs) \<Longrightarrow> yields (alloc_n alloc (length ps) s)
    (\<lambda>rs t. rs = ps \<and> inv t qs \<and> usable t = usable s \<and> same_outside (set ps) (ram s) (ram t))"
proof (induction ps arbitrary: s)
  case Nil
  then show ?case by simp
next
  case (Cons p ps)
  from Cons.prems have "yields (alloc s)
    (\<lambda>r t. r = p \<and> inv t (ps @ qs) \<and> usable t = usable s \<and> same_outside {p} (ram s) (ram t))"
    by (intro alloc_some) simp
  then show ?case
    by (auto simp: yields_obind elim!: yields_mono dest!: Cons.IH)
      (use same_outside_trans in fastforce)
qed

lemma alloc_fresh:
  assumes "inv s (p # q # ps)"
  shows "yields (alloc_n alloc 2 s) (\<lambda>rs t. rs = [p, q] \<and> p \<noteq> q)"
  using alloc_all [of s "[p, q]" ps] assms inv_sound [OF assms] by (auto elim!: yields_mono simp: numeral_2_eq_2)

lemma free_alloc:
  assumes "inv s ps" and "usable s p" and "p \<notin> set ps"
  shows "yields (obind (free p s) (\<lambda>_. alloc)) (\<lambda>r t. r = p \<and> inv t ps \<and> same_outside {p} (ram s) (ram t))"
proof -
  from free_some [OF assms] obtain t where t: "free p s = Done () t" "inv t (p # ps)"
    "same_outside {p} (ram s) (ram t)" by (auto simp: yields_iff)
  from alloc_some [OF t(2)] show ?thesis
    using t same_outside_trans [OF t(3), of "{p}"] by (auto elim!: yields_mono)
qed

lemma exhausted:
  "inv s ps \<Longrightarrow> yields (alloc_n alloc (Suc (length ps)) s) (\<lambda>rs t. rs = ps @ [0] \<and> inv t [])"
proof (induction ps arbitrary: s)
  case Nil
  from alloc_none [OF this] show ?case by (auto simp: yields_obind elim!: yields_mono)
next
  case (Cons p ps)
  from alloc_some [OF Cons.prems] obtain t where "alloc s = Done p t" "inv t ps"
    by (auto simp: yields_iff)
  with Cons.IH [of t] show ?case
    by (auto simp: yields_obind simp del: alloc_n.simps(2) elim!: yields_mono) (simp add: yields_obind)
qed

end

interpretation pa: page_allocator kalloc kfree kmem_inv ram_page mem
proof
  fix s :: "'a kmem_scheme" and p ps
  show "kmem_inv s [] \<Longrightarrow>
      yields (kalloc s) (\<lambda>r t. r = 0 \<and> kmem_inv t [] \<and> ram_page t = ram_page s \<and> mem t = mem s)"
    by (simp add: kalloc_empty)
  show "kmem_inv s (p # ps) \<Longrightarrow> yields (kalloc s)
      (\<lambda>r t. r = p \<and> kmem_inv t ps \<and> ram_page t = ram_page s \<and> same_outside {p} (mem s) (mem t))"
    by (drule kalloc_pop) (auto elim!: yields_mono simp: only_mem_keeps)
  show "kmem_inv s ps \<Longrightarrow> ram_page s p \<Longrightarrow> p \<notin> set ps \<Longrightarrow> yields (kfree p s)
      (\<lambda>_ t. kmem_inv t (p # ps) \<and> ram_page t = ram_page s \<and> same_outside {p} (mem s) (mem t))"
    by (drule (2) kfree_push) (auto elim!: yields_mono simp: only_mem_keeps)
  show "kmem_inv s ps \<Longrightarrow> distinct ps \<and> 0 \<notin> set ps \<and> (\<forall>p \<in> set ps. ram_page s p)"
    using ram_page_nonzero by (auto simp: kmem_inv_def)
qed

section \<open>Properties\<close>

text \<open>A kernel whose image ends at \<open>e\<close>, with zeroed memory and first free page \<open>f\<close>.\<close>

definition kmem0 :: "uint64 \<Rightarrow> uint64 \<Rightarrow> kmem" where
  "kmem0 e f = machine.extend hart0 \<lparr>mem = (\<lambda>_. 0), freelist = f, kend = e, \<dots> = ()\<rparr>"

lemma kmem0_simps [simp]:
  "mem (kmem0 e f) = (\<lambda>_. 0)" "freelist (kmem0 e f) = f" "kend (kmem0 e f) = e"
  "hart_ok (kmem0 e f)" "lock_free lk (kmem0 e f)"
  by (simp_all add: kmem0_def) (simp_all add: machine.defs)

lemma load64_zero [simp]: "load64 (\<lambda>_. 0) a = 0"
  by (simp add: load64_def load_bytes_def map_replicate_const le_word_zeros)

text \<open>
  C31. \<open>kalloc\<close> takes the first page off the abstract free list and gives it out filled with
  junk, changing no other byte of memory; with no free page it returns 0 and changes nothing.
\<close>

theorem kalloc_refines_pop:
  assumes "kmem_inv s ps"
  shows "yields (kalloc s) (\<lambda>r t. kmem_inv t (tl ps) \<and>
    (case ps of
       [] \<Rightarrow> r = 0 \<and> mem t = mem s
     | p # _ \<Rightarrow> r = p \<and> r \<noteq> 0 \<and> ram_page s r \<and> r \<notin> set (tl ps) \<and>
         (\<forall>a. mem t a = (if in_page r a then 5 else mem s a))))"
proof (cases ps)
  case Nil
  with assms show ?thesis by (simp add: kalloc_empty)
next
  case (Cons p qs)
  with assms have inv: "kmem_inv s (p # qs)" by simp
  from kalloc_pop [OF inv] pa.inv_sound [OF inv] show ?thesis
    by (auto elim!: yields_mono simp: Cons same_outside_def)
qed

theorem kalloc_refines_pop_witness:
  "yields (kalloc (kmem0 0x80010000 0x80020000)) (\<lambda>r t. r = 0x80020000 \<and> mem t 0x80020fff = 5 \<and> mem t 0x80021000 = 0)"
proof -
  have inv: "kmem_inv (kmem0 0x80010000 0x80020000) [0x80020000]"
    by (simp add: kmem_inv_def ram_page_def page_aligned_def)
  from kalloc_refines_pop [OF inv] show ?thesis
    by (rule yields_mono) (simp add: in_page_def)
qed

text \<open>
  C32. \<open>kfree\<close> panics on every address that is not an aligned page between the end of the kernel and
  \<open>PHYSTOP\<close>; a page that is not on the free list already is put in front of it, and memory outside
  of the page is left alone.
\<close>

theorem kfree_refines_push:
  assumes "kmem_inv s ps"
  shows "(\<not> ram_page s p \<longrightarrow> kfree p s = Panic ''kfree'') \<and>
    (ram_page s p \<and> p \<notin> set ps \<longrightarrow>
       yields (kfree p s) (\<lambda>_ t. kmem_inv t (p # ps) \<and> (\<forall>a. \<not> in_page p a \<longrightarrow> mem t a = mem s a)))"
  using kfree_push [OF assms, of p] kfree_panics [of s p]
  by (auto simp: same_outside_def intro: yields_mono)

theorem kfree_refines_push_witness:
  "kfree 0x80020008 (kmem0 0x80010000 0) = Panic ''kfree'' \<and>
   yields (kfree 0x80020000 (kmem0 0x80010000 0)) (\<lambda>_ t. kmem_inv t [0x80020000])"
proof -
  have inv: "kmem_inv (kmem0 0x80010000 0) []" by (simp add: kmem_inv_def)
  have "\<not> ram_page (kmem0 0x80010000 0) 0x80020008" "ram_page (kmem0 0x80010000 0) 0x80020000"
    by (simp_all add: ram_page_def page_aligned_def)
  with kfree_refines_push [OF inv, of "0x80020008"] kfree_refines_push [OF inv, of "0x80020000"]
  show ?thesis by (auto elim!: yields_mono)
qed

text \<open>
  C33. \<open>kinit\<close> puts every whole page between the end of the kernel and \<open>PHYSTOP\<close> on the free list:
  allocating as many times as there are such pages gives each of them once, highest first, and
  one more allocation fails.
\<close>

theorem kinit_then_kalloc_all:
  assumes "hart_ok s" and "KERNBASE \<le> kend s" and "kend s \<le> PHYSTOP" and "freelist s = 0"
    and "ps = rev (pages (PGROUNDUP (kend s)) ((unat PHYSTOP - unat (PGROUNDUP (kend s))) div 4096))"
  shows "yields (obind (kinit s) (\<lambda>_. alloc_n kalloc (length ps + 1)))
    (\<lambda>rs t. rs = ps @ [0] \<and> distinct ps \<and> 0 \<notin> set ps \<and> kmem_inv t [])"
proof -
  have "unat PHYSTOP = 2281701376" by simp
  with assms kinit_frees [OF assms(1-4)] obtain t where
    t: "kinit s = Done () t" "kmem_inv t ps" by (auto simp: yields_iff)
  from pa.exhausted [OF t(2)] pa.inv_sound [OF t(2)] show ?thesis
    by (auto simp: t(1) elim!: yields_mono)
qed

theorem kinit_then_kalloc_all_witness:
  "yields (obind (kinit (kmem0 0x87ffdabc 0)) (\<lambda>_. alloc_n kalloc 3))
    (\<lambda>rs t. rs = [0x87fff000, 0x87ffe000, 0])"
proof -
  have up: "PGROUNDUP 0x87ffdabc = 0x87ffe000" by (simp add: PGROUNDUP_def)
  have "rev (pages (PGROUNDUP 0x87ffdabc) ((unat PHYSTOP - unat (PGROUNDUP 0x87ffdabc)) div 4096)) =
      [0x87fff000, 0x87ffe000]"
    by (simp add: up pages_def upt_rec)
  with kinit_then_kalloc_all [of "kmem0 0x87ffdabc 0" "[0x87fff000, 0x87ffe000]"] show ?thesis
    by (auto elim!: yields_mono simp: numeral_3_eq_3)
qed

text \<open>A kernel with the free pages \<open>ps\<close> and all other memory zero.\<close>

fun pool_mem :: "uint64 list \<Rightarrow> memory" where
  "pool_mem [] = (\<lambda>_. 0)"
| "pool_mem (p # ps) = store64 (pool_mem ps) p (case ps of [] \<Rightarrow> 0 | q # _ \<Rightarrow> q)"

definition pool :: "uint64 \<Rightarrow> uint64 list \<Rightarrow> kmem" where
  "pool e ps = (kmem0 e (case ps of [] \<Rightarrow> 0 | p # _ \<Rightarrow> p))\<lparr>mem := pool_mem ps\<rparr>"

lemma pool_mem_outside: "(\<forall>p \<in> set ps. page_aligned p) \<Longrightarrow> same_outside (set ps) (\<lambda>_. 0) (pool_mem ps)"
proof (induction ps)
  case (Cons p ps)
  let ?v = "case ps of [] \<Rightarrow> 0 | q # _ \<Rightarrow> q"
  have "same_outside {p} (pool_mem ps) (store64 (pool_mem ps) p ?v)"
    using Cons.prems by (intro same_outside_store64) (simp_all add: page_word_aligned)
  from same_outside_trans [OF _ this] Cons show ?case by (simp add: insert_commute)
qed simp

lemma pool_mem_links:
  "distinct ps \<Longrightarrow> \<forall>p \<in> set ps. page_aligned p \<and> p \<noteq> 0 \<Longrightarrow>
    links (pool_mem ps) (case ps of [] \<Rightarrow> 0 | p # _ \<Rightarrow> p) ps"
proof (induction ps)
  case (Cons p ps)
  let ?v = "case ps of [] \<Rightarrow> 0 | q # _ \<Rightarrow> q"
  have "same_outside {p} (pool_mem ps) (store64 (pool_mem ps) p ?v)"
    using Cons.prems by (intro same_outside_store64) (simp_all add: page_word_aligned)
  from links_same_outside [OF this, of ps] Cons show ?case by simp
qed simp

lemma pool_inv:
  assumes "distinct ps" and "\<forall>p \<in> set ps. page_aligned p \<and> e \<le> p \<and> p < PHYSTOP"
    and "KERNBASE \<le> e" and "e \<le> PHYSTOP"
  shows "kmem_inv (pool e ps) ps"
proof -
  have "\<forall>p \<in> set ps. page_aligned p \<and> p \<noteq> 0"
    using assms by (auto dest: order_trans)
  with assms pool_mem_links [OF assms(1)] show ?thesis
    by (simp add: kmem_inv_def pool_def ram_page_def)
qed

end
