(* ===== verification/Vm.thy ===== *)
theory Vm
  imports Kalloc
begin

text \<open>
  Virtual memory (\<open>kernel/vm.c\<close>): Sv39 page tables, kept in modelled physical memory, and the
  user address spaces built from them. A \<open>pagetable_t\<close> is the physical address of its page, which
  is also its kernel virtual address because the kernel maps RAM one to one. Kernel buffers that
  are not in the allocator's pages are byte lists.

  \<open>etext\<close> and \<open>trampoline\<close> are the linker symbols of the same names.
\<close>

record vm = kmem +
  etext :: uint64
  trampoline :: uint64
  kernel_pagetable :: uint64
  satp :: "nat \<Rightarrow> uint64"

section \<open>Walking the page table\<close>

definition pte_addr :: "uint64 \<Rightarrow> nat \<Rightarrow> uint64 \<Rightarrow> uint64" where
  "pte_addr pagetable level va = pagetable + 8 * PX level va"

text \<open>The loop of \<open>walk\<close>, from \<open>level\<close> down.\<close>

fun walk_levels :: "nat \<Rightarrow> uint64 \<Rightarrow> uint64 \<Rightarrow> bool \<Rightarrow> ('a) kmem_scheme \<Rightarrow> (uint64, ('a) kmem_scheme) outcome" where
  "walk_levels 0 pagetable va alloc s = Done (pte_addr pagetable 0 va) s"
| "walk_levels (Suc l) pagetable va alloc s =
     (let pte = pte_addr pagetable (Suc l) va
      in if load64 (mem s) pte AND PTE_V \<noteq> 0
         then walk_levels l (PTE2PA (load64 (mem s) pte)) va alloc s
         else if \<not> alloc then Done 0 s
         else obind (kalloc s) (\<lambda>pagetable s.
              if pagetable = 0 then Done 0 s
              else let s = s\<lparr>mem := memset (mem s) pagetable 0 4096\<rparr>;
                       s = s\<lparr>mem := store64 (mem s) pte (PA2PTE pagetable OR PTE_V)\<rparr>
                   in walk_levels l pagetable va alloc s))"

definition walk :: "uint64 \<Rightarrow> uint64 \<Rightarrow> bool \<Rightarrow> ('a) kmem_scheme \<Rightarrow> (uint64, ('a) kmem_scheme) outcome" where
  "walk pagetable va alloc s =
     (if MAXVA \<le> va then Panic ''walk'' else walk_levels 2 pagetable va alloc s)"

definition walkaddr :: "uint64 \<Rightarrow> uint64 \<Rightarrow> ('a) kmem_scheme \<Rightarrow> (uint64, ('a) kmem_scheme) outcome" where
  "walkaddr pagetable va s =
     (if MAXVA \<le> va then Done 0 s
      else obind (walk pagetable va False s) (\<lambda>pte s.
        if pte = 0 then Done 0 s
        else if load64 (mem s) pte AND PTE_V = 0 then Done 0 s
        else if load64 (mem s) pte AND PTE_U = 0 then Done 0 s
        else Done (PTE2PA (load64 (mem s) pte)) s))"

lemma walk_Done_below: "walk pagetable va alloc s = Done x t \<Longrightarrow> va < MAXVA"
  by (simp add: walk_def not_le split: if_splits)

lemma page_step_decreases:
  assumes "a < MAXVA"
  shows "18446744073709551616 - unat (a + PGSIZE) < 18446744073709551616 - unat a"
proof -
  have "unat a < 274877906944" using assms by (simp add: word_less_nat_alt)
  then show ?thesis by (simp add: unat_word_ariths)
qed

section \<open>Mapping and unmapping\<close>

function mappages_loop :: "uint64 \<Rightarrow> uint64 \<Rightarrow> uint64 \<Rightarrow> uint64 \<Rightarrow> uint64 \<Rightarrow> ('a) kmem_scheme \<Rightarrow> (int, ('a) kmem_scheme) outcome" where
  "mappages_loop pagetable a alast pa perm s =
     obind (walk pagetable a True s) (\<lambda>pte s.
       if pte = 0 then Done (-1) s
       else if load64 (mem s) pte AND PTE_V \<noteq> 0 then Panic ''mappages: remap''
       else let s = s\<lparr>mem := store64 (mem s) pte (PA2PTE pa OR perm OR PTE_V)\<rparr>
            in if a = alast then Done 0 s
               else mappages_loop pagetable (a + PGSIZE) alast (pa + PGSIZE) perm s)"
  by pat_completeness auto
termination
proof (relation "measure (\<lambda>(_, a, _). 18446744073709551616 - unat a)", goal_cases)
  case (2 pagetable a alast pa perm s x t u)
  from walk_Done_below [OF 2(1)] show ?case using page_step_decreases by simp
qed simp

declare mappages_loop.simps [simp del]

definition mappages :: "uint64 \<Rightarrow> uint64 \<Rightarrow> uint64 \<Rightarrow> uint64 \<Rightarrow> uint64 \<Rightarrow> ('a) kmem_scheme \<Rightarrow> (int, ('a) kmem_scheme) outcome" where
  "mappages pagetable va len pa perm s =
     (if len = 0 then Panic ''mappages: size''
      else mappages_loop pagetable (PGROUNDDOWN va) (PGROUNDDOWN (va + len - 1)) pa perm s)"

function uvmunmap_loop :: "uint64 \<Rightarrow> uint64 \<Rightarrow> uint64 \<Rightarrow> bool \<Rightarrow> ('a) kmem_scheme \<Rightarrow> (unit, ('a) kmem_scheme) outcome" where
  "uvmunmap_loop pagetable a bound do_free s =
     (if a < bound
      then obind (walk pagetable a False s) (\<lambda>pte s.
           if pte = 0 then Panic ''uvmunmap: walk''
           else if load64 (mem s) pte AND PTE_V = 0 then Panic ''uvmunmap: not mapped''
           else if PTE_FLAGS (load64 (mem s) pte) = PTE_V then Panic ''uvmunmap: not a leaf''
           else obind (if do_free then kfree (PTE2PA (load64 (mem s) pte)) s else Done () s) (\<lambda>_ s.
                let s = s\<lparr>mem := store64 (mem s) pte 0\<rparr>
                in uvmunmap_loop pagetable (a + PGSIZE) bound do_free s))
      else Done () s)"
  by pat_completeness auto
termination
proof (relation "measure (\<lambda>(_, a, _). 18446744073709551616 - unat a)", goal_cases)
  case (2 pagetable a bound do_free s x t)
  from walk_Done_below [OF 2(2)] show ?case using page_step_decreases by simp
qed simp

declare uvmunmap_loop.simps [simp del]

definition uvmunmap :: "uint64 \<Rightarrow> uint64 \<Rightarrow> uint64 \<Rightarrow> bool \<Rightarrow> ('a) kmem_scheme \<Rightarrow> (unit, ('a) kmem_scheme) outcome" where
  "uvmunmap pagetable va npages do_free s =
     (if va mod PGSIZE \<noteq> 0 then Panic ''uvmunmap: not aligned''
      else uvmunmap_loop pagetable va (va + npages * PGSIZE) do_free s)"

section \<open>The kernel page table\<close>

definition kvmmap :: "uint64 \<Rightarrow> uint64 \<Rightarrow> uint64 \<Rightarrow> uint64 \<Rightarrow> uint64 \<Rightarrow> ('a) kmem_scheme \<Rightarrow> (unit, ('a) kmem_scheme) outcome" where
  "kvmmap kpgtbl va pa sz perm s =
     obind (mappages kpgtbl va sz pa perm s) (\<lambda>r s.
       if r \<noteq> 0 then Panic ''kvmmap'' else Done () s)"

definition proc_mapstacks :: "uint64 \<Rightarrow> ('a) kmem_scheme \<Rightarrow> (unit, ('a) kmem_scheme) outcome" where
  "proc_mapstacks kpgtbl s =
     ofor [0..<NPROC] (\<lambda>p s.
       obind (kalloc s) (\<lambda>pa s.
       if pa = 0 then Panic ''kalloc''
       else kvmmap kpgtbl (KSTACK p) pa PGSIZE (PTE_R OR PTE_W) s)) s"

text \<open>\<open>kvmmake\<close> does not test the result of \<open>kalloc\<close>: a null page is dereferenced by \<open>memset\<close>.\<close>

definition kvmmake :: "('a) vm_scheme \<Rightarrow> (uint64, ('a) vm_scheme) outcome" where
  "kvmmake s =
     obind (kalloc s) (\<lambda>kpgtbl s.
     if kpgtbl = 0 then Panic ''kerneltrap''
     else let s = s\<lparr>mem := memset (mem s) kpgtbl 0 4096\<rparr>
     in obind (kvmmap kpgtbl UART0 UART0 PGSIZE (PTE_R OR PTE_W) s) (\<lambda>_ s.
        obind (kvmmap kpgtbl VIRTIO0 VIRTIO0 PGSIZE (PTE_R OR PTE_W) s) (\<lambda>_ s.
        obind (kvmmap kpgtbl PLIC PLIC 0x400000 (PTE_R OR PTE_W) s) (\<lambda>_ s.
        obind (kvmmap kpgtbl KERNBASE KERNBASE (etext s - KERNBASE) (PTE_R OR PTE_X) s) (\<lambda>_ s.
        obind (kvmmap kpgtbl (etext s) (etext s) (PHYSTOP - etext s) (PTE_R OR PTE_W) s) (\<lambda>_ s.
        obind (kvmmap kpgtbl TRAMPOLINE (trampoline s) PGSIZE (PTE_R OR PTE_X) s) (\<lambda>_ s.
        obind (proc_mapstacks kpgtbl s) (\<lambda>_ s.
        Done kpgtbl s))))))))"

definition kvminit :: "('a) vm_scheme \<Rightarrow> (unit, ('a) vm_scheme) outcome" where
  "kvminit s = obind (kvmmake s) (\<lambda>kpgtbl s. Done () (s\<lparr>kernel_pagetable := kpgtbl\<rparr>))"

definition kvminithart :: "('a) vm_scheme \<Rightarrow> (unit, ('a) vm_scheme) outcome" where
  "kvminithart s = Done () (s\<lparr>satp := (satp s)(tp s := MAKE_SATP (kernel_pagetable s))\<rparr>)"

section \<open>User address spaces\<close>

definition uvmcreate :: "('a) kmem_scheme \<Rightarrow> (uint64, ('a) kmem_scheme) outcome" where
  "uvmcreate s =
     obind (kalloc s) (\<lambda>pagetable s.
     if pagetable = 0 then Done 0 s
     else Done pagetable (s\<lparr>mem := memset (mem s) pagetable 0 4096\<rparr>))"

text \<open>
  \<open>uvminit\<close> tests neither the page \<open>kalloc\<close> gives it nor the result of \<open>mappages\<close>. \<open>src\<close> is the
  array \<open>initcode\<close> of the kernel image.
\<close>

definition uvminit :: "uint64 \<Rightarrow> uint8 list \<Rightarrow> uint32 \<Rightarrow> ('a) kmem_scheme \<Rightarrow> (unit, ('a) kmem_scheme) outcome" where
  "uvminit pagetable src sz s =
     (if 4096 \<le> sz then Panic ''inituvm: more than a page''
      else obind (kalloc s) (\<lambda>pa s.
        if pa = 0 then Panic ''kerneltrap''
        else let s = s\<lparr>mem := memset (mem s) pa 0 4096\<rparr>
        in obind (mappages pagetable 0 PGSIZE pa (PTE_W OR PTE_R OR PTE_X OR PTE_U) s) (\<lambda>_ s.
           Done () (s\<lparr>mem := store_bytes (mem s) pa (take (unat sz) src)\<rparr>))))"

text \<open>\<open>int npages\<close> keeps the low 32 bits of the quotient, which \<open>uvmunmap\<close> gets sign-extended.\<close>

definition uvmdealloc :: "uint64 \<Rightarrow> uint64 \<Rightarrow> uint64 \<Rightarrow> ('a) kmem_scheme \<Rightarrow> (uint64, ('a) kmem_scheme) outcome" where
  "uvmdealloc pagetable oldsz newsz s =
     (if oldsz \<le> newsz then Done oldsz s
      else if PGROUNDUP newsz < PGROUNDUP oldsz
      then let npages = (ucast ((PGROUNDUP oldsz - PGROUNDUP newsz) div PGSIZE) :: uint32)
           in obind (uvmunmap pagetable (PGROUNDUP newsz) (scast npages) True s) (\<lambda>_ s. Done newsz s)
      else Done newsz s)"

function uvmalloc_loop :: "uint64 \<Rightarrow> uint64 \<Rightarrow> uint64 \<Rightarrow> uint64 \<Rightarrow> ('a) kmem_scheme \<Rightarrow> (uint64, ('a) kmem_scheme) outcome" where
  "uvmalloc_loop pagetable oldsz a newsz s =
     (if a < newsz
      then obind (kalloc s) (\<lambda>pa s.
        if pa = 0 then obind (uvmdealloc pagetable a oldsz s) (\<lambda>_ s. Done 0 s)
        else let s = s\<lparr>mem := memset (mem s) pa 0 4096\<rparr>
        in obind (mappages pagetable a PGSIZE pa (PTE_W OR PTE_X OR PTE_R OR PTE_U) s) (\<lambda>r s.
           if r \<noteq> 0
           then obind (kfree pa s) (\<lambda>_ s. obind (uvmdealloc pagetable a oldsz s) (\<lambda>_ s. Done 0 s))
           else uvmalloc_loop pagetable oldsz (a + PGSIZE) newsz s))
      else Done newsz s)"
  by pat_completeness auto
termination
proof (relation "measure (\<lambda>(_, _, a, _). 18446744073709551616 - unat a)", goal_cases)
  case (2 pagetable oldsz a newsz s pa t u r v)
  from 2(5) [unfolded mappages_def mappages_loop.simps [of _ "PGROUNDDOWN a"]]
  have "PGROUNDDOWN a < MAXVA" by (auto simp: obind_Done_iff dest: walk_Done_below)
  then have "a < MAXVA + PGSIZE"
    using unat_PGROUNDDOWN [of a] by (simp add: word_less_nat_alt)
  then have "unat a < 274877911040" by (simp add: word_less_nat_alt)
  then show ?case by (simp add: unat_word_ariths)
qed simp

declare uvmalloc_loop.simps [simp del]

definition uvmalloc :: "uint64 \<Rightarrow> uint64 \<Rightarrow> uint64 \<Rightarrow> ('a) kmem_scheme \<Rightarrow> (uint64, ('a) kmem_scheme) outcome" where
  "uvmalloc pagetable oldsz newsz s =
     (if newsz < oldsz then Done oldsz s
      else uvmalloc_loop pagetable (PGROUNDUP oldsz) (PGROUNDUP oldsz) newsz s)"

text \<open>
  The recursion of \<open>freewalk\<close> follows pointers in memory. \<open>d\<close> bounds its depth: below it a cyclic
  page table would overflow the kernel stack into its guard page. Page tables are three levels
  deep.
\<close>

fun freewalk :: "nat \<Rightarrow> uint64 \<Rightarrow> ('a) kmem_scheme \<Rightarrow> (unit, ('a) kmem_scheme) outcome" where
  "freewalk 0 pagetable s = Panic ''kerneltrap''"
| "freewalk (Suc d) pagetable s =
     obind (ofor [0..<512] (\<lambda>i s.
       let pte = load64 (mem s) (pagetable + 8 * of_nat i)
       in if pte AND PTE_V \<noteq> 0 \<and> pte AND (PTE_R OR PTE_W OR PTE_X) = 0
          then let child = PTE2PA pte
               in obind (freewalk d child s) (\<lambda>_ s.
                  Done () (s\<lparr>mem := store64 (mem s) (pagetable + 8 * of_nat i) 0\<rparr>))
          else if pte AND PTE_V \<noteq> 0 then Panic ''freewalk: leaf''
          else Done () s) s) (\<lambda>_ s.
     kfree pagetable s)"

definition uvmfree :: "uint64 \<Rightarrow> uint64 \<Rightarrow> ('a) kmem_scheme \<Rightarrow> (unit, ('a) kmem_scheme) outcome" where
  "uvmfree pagetable sz s =
     obind (if sz > 0 then uvmunmap pagetable 0 (PGROUNDUP sz div PGSIZE) True s else Done () s) (\<lambda>_ s.
     freewalk 3 pagetable s)"

text \<open>The loop of \<open>uvmcopy\<close>; the pair tells whether it left through \<open>goto err\<close>, and at which \<open>i\<close>.\<close>

function uvmcopy_loop :: "uint64 \<Rightarrow> uint64 \<Rightarrow> uint64 \<Rightarrow> uint64 \<Rightarrow> ('a) kmem_scheme \<Rightarrow> (bool \<times> uint64, ('a) kmem_scheme) outcome" where
  "uvmcopy_loop old new i sz s =
     (if i < sz
      then obind (walk old i False s) (\<lambda>pte s.
        if pte = 0 then Panic ''uvmcopy: pte should exist''
        else if load64 (mem s) pte AND PTE_V = 0 then Panic ''uvmcopy: page not present''
        else let pa = PTE2PA (load64 (mem s) pte);
                 flags = PTE_FLAGS (load64 (mem s) pte)
        in obind (kalloc s) (\<lambda>pg s.
           if pg = 0 then Done (True, i) s
           else let s = s\<lparr>mem := memmove (mem s) pg pa 4096\<rparr>
           in obind (mappages new i PGSIZE pg flags s) (\<lambda>r s.
              if r \<noteq> 0 then obind (kfree pg s) (\<lambda>_ s. Done (True, i) s)
              else uvmcopy_loop old new (i + PGSIZE) sz s)))
      else Done (False, i) s)"
  by pat_completeness auto
termination
proof (relation "measure (\<lambda>(_, _, i, _). 18446744073709551616 - unat i)", goal_cases)
  case (2 old new i sz s pte t)
  from walk_Done_below [OF 2(2)] show ?case using page_step_decreases by simp
qed simp

declare uvmcopy_loop.simps [simp del]

definition uvmcopy :: "uint64 \<Rightarrow> uint64 \<Rightarrow> uint64 \<Rightarrow> ('a) kmem_scheme \<Rightarrow> (int, ('a) kmem_scheme) outcome" where
  "uvmcopy old new sz s =
     obind (uvmcopy_loop old new 0 sz s) (\<lambda>(err, i) s.
     if err then obind (uvmunmap new 0 (i div PGSIZE) True s) (\<lambda>_ s. Done (-1) s)
     else Done 0 s)"

definition uvmclear :: "uint64 \<Rightarrow> uint64 \<Rightarrow> ('a) kmem_scheme \<Rightarrow> (unit, ('a) kmem_scheme) outcome" where
  "uvmclear pagetable va s =
     obind (walk pagetable va False s) (\<lambda>pte s.
     if pte = 0 then Panic ''uvmclear''
     else Done () (s\<lparr>mem := store64 (mem s) pte (load64 (mem s) pte AND NOT PTE_U)\<rparr>))"

section \<open>Copying between kernel and user memory\<close>

text \<open>
  A kernel buffer is a list of bytes: \<open>src\<close> of \<open>copyout\<close> holds at least \<open>len\<close> bytes; \<open>copyin\<close> and
  \<open>copyinstr\<close> return their result together with the bytes they have written to \<open>dst\<close>.
\<close>

definition page_chunk :: "uint64 \<Rightarrow> uint64 \<Rightarrow> uint64" where
  "page_chunk va len = (let n = PGSIZE - (va - PGROUNDDOWN va) in if n > len then len else n)"

lemma page_chunk_bounds:
  assumes "len > 0"
  shows "0 < page_chunk va len" and "page_chunk va len \<le> len"
    and "unat (page_chunk va len) = min (unat len) (4096 - unat va mod 4096)"
proof -
  have "va - PGROUNDDOWN va = of_nat (unat va mod 4096)"
    using unat_PGROUNDDOWN [of va]
    by (simp add: word_unat_eq_iff unat_sub word_le_nat_alt unat_of_nat minus_mult_div_eq_mod mult.commute)
  moreover have "unat va mod 4096 < 4096" by simp
  moreover have "4096 - of_nat k = (of_nat (4096 - k) :: uint64)" if "k < 4096" for k
    using that by simp
  ultimately have n: "PGSIZE - (va - PGROUNDDOWN va) = of_nat (4096 - unat va mod 4096)" by simp
  have un: "unat (of_nat (4096 - unat va mod 4096) :: uint64) = 4096 - unat va mod 4096"
    by (subst unat_of_nat) simp
  have pos: "0 < 4096 - unat va mod 4096" by simp
  show "unat (page_chunk va len) = min (unat len) (4096 - unat va mod 4096)"
    unfolding page_chunk_def n Let_def using un by (simp add: word_less_nat_alt min_def)
  then show "0 < page_chunk va len" "page_chunk va len \<le> len"
    using assms pos by (auto simp: word_less_nat_alt word_le_nat_alt)
qed

lemma page_chunk_decreases: "len > 0 \<Longrightarrow> unat (len - page_chunk va len) < unat len"
  using page_chunk_bounds [of len va] by (simp add: unat_sub word_less_nat_alt)

function copyout :: "uint64 \<Rightarrow> uint64 \<Rightarrow> uint8 list \<Rightarrow> uint64 \<Rightarrow> ('a) kmem_scheme \<Rightarrow> (int, ('a) kmem_scheme) outcome" where
  "copyout pagetable dstva src len s =
     (if len > 0
      then let va0 = PGROUNDDOWN dstva
      in obind (walkaddr pagetable va0 s) (\<lambda>pa0 s.
         if pa0 = 0 then Done (-1) s
         else let n = page_chunk dstva len;
                  s = s\<lparr>mem := store_bytes (mem s) (pa0 + (dstva - va0)) (take (unat n) src)\<rparr>
         in copyout pagetable (va0 + PGSIZE) (drop (unat n) src) (len - n) s)
      else Done 0 s)"
  by pat_completeness auto
termination
  by (relation "measure (\<lambda>(_, _, _, len, _). unat len)") (simp_all add: page_chunk_decreases)

declare copyout.simps [simp del]

function copyin :: "uint64 \<Rightarrow> uint64 \<Rightarrow> uint64 \<Rightarrow> ('a) kmem_scheme \<Rightarrow> (int \<times> uint8 list, ('a) kmem_scheme) outcome" where
  "copyin pagetable srcva len s =
     (if len > 0
      then let va0 = PGROUNDDOWN srcva
      in obind (walkaddr pagetable va0 s) (\<lambda>pa0 s.
         if pa0 = 0 then Done (-1, []) s
         else let n = page_chunk srcva len;
                  bs = load_bytes (mem s) (pa0 + (srcva - va0)) (unat n)
         in obind (copyin pagetable (va0 + PGSIZE) (len - n) s) (\<lambda>(r, rest) s.
            Done (r, bs @ rest) s))
      else Done (0, []) s)"
  by pat_completeness auto
termination
  by (relation "measure (\<lambda>(_, _, len, _). unat len)") (simp_all add: page_chunk_decreases)

declare copyin.simps [simp del]

text \<open>The inner loop of \<open>copyinstr\<close>: the bytes it writes, and \<open>got_null\<close>.\<close>

fun copyinstr_page :: "memory \<Rightarrow> uint64 \<Rightarrow> nat \<Rightarrow> uint8 list \<times> bool" where
  "copyinstr_page m p 0 = ([], False)"
| "copyinstr_page m p (Suc n) =
     (if m p = 0 then ([0], True)
      else let (bs, got_null) = copyinstr_page m (p + 1) n in (m p # bs, got_null))"

function copyinstr :: "uint64 \<Rightarrow> uint64 \<Rightarrow> uint64 \<Rightarrow> ('a) kmem_scheme \<Rightarrow> (int \<times> uint8 list, ('a) kmem_scheme) outcome" where
  "copyinstr pagetable srcva len s =
     (if len > 0
      then let va0 = PGROUNDDOWN srcva
      in obind (walkaddr pagetable va0 s) (\<lambda>pa0 s.
         if pa0 = 0 then Done (-1, []) s
         else let n = page_chunk srcva len;
                  (bs, got_null) = copyinstr_page (mem s) (pa0 + (srcva - va0)) (unat n)
         in if got_null then Done (0, bs) s
            else obind (copyinstr pagetable (va0 + PGSIZE) (len - n) s) (\<lambda>(r, rest) s.
                 Done (r, bs @ rest) s))
      else Done (-1, []) s)"
  by pat_completeness auto
termination
  by (relation "measure (\<lambda>(_, _, len, _). unat len)") (simp_all add: page_chunk_decreases)

declare copyinstr.simps [simp del]

end
