(* ===== verification/Vm_Tree.thy ===== *)
theory Vm_Tree
  imports Vm
begin

text \<open>
  Page tables as trees in memory. \<open>nodes m l pt\<close> lists the page-table pages of the tree whose
  root \<open>pt\<close> is at level \<open>l\<close>; \<open>pte_at m l pt va\<close> is the leaf entry for \<open>va\<close> (0 when the path to it is
  missing), which is the abstract meaning of a page table. A tree is well formed, \<open>tree_ok\<close>, when
  its pages are distinct pages of the allocator and its interior entries are pure pointers.

  The lemmas show that \<open>walk\<close> grows the tree with fresh pages without changing any translation,
  and that writing through the slot it returns changes exactly one translation.
\<close>

section \<open>Entries of a page-table page\<close>

definition entry :: "memory \<Rightarrow> uint64 \<Rightarrow> nat \<Rightarrow> uint64" where
  "entry m pt i = load64 m (pt + 8 * of_nat i)"

definition valid :: "uint64 \<Rightarrow> bool" where
  "valid e \<longleftrightarrow> e AND PTE_V \<noteq> 0"

definition idx :: "nat \<Rightarrow> uint64 \<Rightarrow> nat" where
  "idx l va = unat (PX l va)"

lemma idx_bound [simp]: "idx l va < 512"
proof -
  have "PX l va \<le> 0x1FF" by (simp add: PX_def word_and_le1)
  then show ?thesis by (simp add: idx_def word_le_nat_alt)
qed

lemma pte_addr_idx: "pte_addr pt l va = pt + 8 * of_nat (idx l va)"
  by (simp add: pte_addr_def idx_def)

lemma load_pte_addr: "load64 m (pte_addr pt l va) = entry m pt (idx l va)"
  by (simp add: pte_addr_idx entry_def)

lemma slot_offset: "i < 512 \<Longrightarrow> unat (8 * of_nat i :: uint64) = 8 * i"
  by (simp add: unat_word_ariths unat_of_nat)

lemma slot_in_page:
  assumes "page_aligned p" and "i < 512"
  shows "in_page p (p + 8 * of_nat i)" and "word_aligned (p + 8 * of_nat i)"
proof -
  show "in_page p (p + 8 * of_nat i)" using assms(2) by (simp add: in_page_def slot_offset)
  have "unat p + 4096 \<le> 18446744073709551616" using page_aligned_bound [OF assms(1)] by simp
  then have "unat (p + 8 * of_nat i) = unat p + 8 * i"
    using assms(2) by (simp add: unat_word_ariths unat_of_nat)
  moreover have "unat p mod 8 = 0" using page_word_aligned [OF assms(1)] by (simp add: word_aligned_def)
  ultimately show "word_aligned (p + 8 * of_nat i)" by (simp add: word_aligned_def mod_add_eq)
qed

lemma slot_inj:
  assumes "page_aligned p" and "page_aligned q" and "i < 512" and "j < 512"
  shows "p + 8 * of_nat i = q + 8 * of_nat j \<longleftrightarrow> p = q \<and> i = j"
proof
  assume eq: "p + 8 * of_nat i = q + 8 * of_nat j"
  have "in_page p (p + 8 * of_nat i)" "in_page q (p + 8 * of_nat i)"
    using slot_in_page assms eq by metis+
  then have "p = q" using in_page_disjoint assms by blast
  with eq have "unat (8 * of_nat i :: uint64) = unat (8 * of_nat j :: uint64)" by simp
  with assms \<open>p = q\<close> show "p = q \<and> i = j" by (simp add: slot_offset)
qed simp

lemma entry_store:
  assumes "page_aligned p" and "page_aligned q" and "i < 512" and "j < 512"
  shows "entry (store64 m (p + 8 * of_nat i) v) q j = (if q = p \<and> j = i then v else entry m q j)"
  using assms slot_inj [OF assms] slot_in_page load64_store64_other
  by (auto simp: entry_def)

lemma entry_same_outside:
  assumes "same_outside P m m'" and "\<forall>p \<in> P. page_aligned p" and "page_aligned q" and "q \<notin> P"
    and "i < 512"
  shows "entry m' q i = entry m q i"
  unfolding entry_def using assms slot_in_page by (intro load64_same_outside) auto

lemma entry_zeroed:
  assumes "page_aligned p" and "i < 512"
  shows "entry (memset m p 0 4096) p i = 0"
proof -
  have "memset m p 0 4096 (p + 8 * of_nat i + of_nat k) = 0" if "k < 8" for k
    using word_in_page [OF assms(1) slot_in_page(2,1) [OF assms] that]
    by (simp add: memset_apply in_page_def)
  then have "load_bytes (memset m p 0 4096) (p + 8 * of_nat i) 8 = replicate 8 0"
    by (intro nth_equalityI) (simp_all add: load_bytes_def)
  then show ?thesis by (simp add: entry_def load64_def le_word_zeros)
qed

section \<open>Trees\<close>

fun nodes :: "memory \<Rightarrow> nat \<Rightarrow> uint64 \<Rightarrow> uint64 list" where
  "nodes m 0 pt = [pt]"
| "nodes m (Suc l) pt = pt # concat (map (\<lambda>i.
     if valid (entry m pt i) then nodes m l (PTE2PA (entry m pt i)) else []) [0..<512])"

fun pointers :: "memory \<Rightarrow> nat \<Rightarrow> uint64 \<Rightarrow> bool" where
  "pointers m 0 pt \<longleftrightarrow> True"
| "pointers m (Suc l) pt \<longleftrightarrow> (\<forall>i < 512. valid (entry m pt i) \<longrightarrow>
     entry m pt i AND (PTE_R OR PTE_W OR PTE_X) = 0 \<and> pointers m l (PTE2PA (entry m pt i)))"

fun leaf_slot :: "memory \<Rightarrow> nat \<Rightarrow> uint64 \<Rightarrow> uint64 \<Rightarrow> uint64 option" where
  "leaf_slot m 0 pt va = Some (pt + 8 * of_nat (idx 0 va))"
| "leaf_slot m (Suc l) pt va =
     (let e = entry m pt (idx (Suc l) va) in if valid e then leaf_slot m l (PTE2PA e) va else None)"

fun pte_at :: "memory \<Rightarrow> nat \<Rightarrow> uint64 \<Rightarrow> uint64 \<Rightarrow> uint64" where
  "pte_at m 0 pt va = entry m pt (idx 0 va)"
| "pte_at m (Suc l) pt va =
     (let e = entry m pt (idx (Suc l) va) in if valid e then pte_at m l (PTE2PA e) va else 0)"

definition tree_ok :: "memory \<Rightarrow> (uint64 \<Rightarrow> bool) \<Rightarrow> nat \<Rightarrow> uint64 \<Rightarrow> bool" where
  "tree_ok m U l pt \<longleftrightarrow> distinct (nodes m l pt) \<and> pointers m l pt \<and>
     (\<forall>p \<in> set (nodes m l pt). page_aligned p \<and> U p)"

text \<open>The pages below entry \<open>i\<close> of an interior page.\<close>

definition below :: "memory \<Rightarrow> nat \<Rightarrow> uint64 \<Rightarrow> nat \<Rightarrow> uint64 list" where
  "below m l pt i = (if valid (entry m pt i) then nodes m l (PTE2PA (entry m pt i)) else [])"

lemma nodes_Suc: "nodes m (Suc l) pt = pt # concat (map (below m l pt) [0..<512])"
  by (simp add: below_def [abs_def])

lemma set_nodes_Suc: "set (nodes m (Suc l) pt) = insert pt (\<Union>i \<in> {i. i < 512}. set (below m l pt i))"
  unfolding nodes_Suc by auto

declare nodes.simps(2) [simp del]

lemma below_subset: "j < 512 \<Longrightarrow> set (below m l pt j) \<subseteq> set (nodes m (Suc l) pt)"
  by (auto simp: set_nodes_Suc)

lemma distinct_nodes_Suc:
  "distinct (nodes m (Suc l) pt) \<longleftrightarrow>
     (\<forall>i < 512. pt \<notin> set (below m l pt i)) \<and> (\<forall>i < 512. distinct (below m l pt i)) \<and>
     (\<forall>i < 512. \<forall>j < 512. i \<noteq> j \<longrightarrow> set (below m l pt i) \<inter> set (below m l pt j) = {})"
  unfolding nodes_Suc by (simp add: distinct_concat_upt del: upt_Suc) auto

lemma root_in_nodes [simp]: "pt \<in> set (nodes m l pt)"
  by (cases l) (simp_all add: nodes_Suc)

lemma tree_ok_child:
  assumes "tree_ok m U (Suc l) pt" and "i < 512" and "valid (entry m pt i)"
  shows "tree_ok m U l (PTE2PA (entry m pt i))"
proof -
  have "nodes m l (PTE2PA (entry m pt i)) = below m l pt i" using assms(3) by (simp add: below_def)
  with assms show ?thesis by (auto simp: tree_ok_def distinct_nodes_Suc set_nodes_Suc)
qed

text \<open>A tree depends only on the entries of its own pages.\<close>

lemma tree_cong:
  assumes "\<forall>p \<in> set (nodes m l pt). \<forall>i < 512. entry m' p i = entry m p i"
  shows "nodes m' l pt = nodes m l pt \<and> pointers m' l pt = pointers m l pt \<and>
    leaf_slot m' l pt = leaf_slot m l pt \<and> pte_at m' l pt = pte_at m l pt"
  using assms
proof (induction l arbitrary: pt)
  case 0
  then show ?case by (auto simp: fun_eq_iff)
next
  case (Suc l)
  have e: "entry m' pt i = entry m pt i" if "i < 512" for i
    using Suc.prems that by simp
  have c: "nodes m' l c = nodes m l c \<and> pointers m' l c = pointers m l c \<and>
      leaf_slot m' l c = leaf_slot m l c \<and> pte_at m' l c = pte_at m l c"
    if "i < 512" "valid (entry m pt i)" "c = PTE2PA (entry m pt i)" for i c
    using Suc.prems that by (intro Suc.IH) (auto simp: set_nodes_Suc below_def)
  have b: "below m' l pt i = below m l pt i" if "i < 512" for i
    using that c by (simp add: below_def e)
  then have "nodes m' (Suc l) pt = nodes m (Suc l) pt"
    unfolding nodes_Suc by (auto intro!: arg_cong [where f = concat] map_cong)
  moreover have "pointers m' (Suc l) pt = pointers m (Suc l) pt" using c by (auto simp: e)
  ultimately show ?case using c by (auto simp: fun_eq_iff e Let_def)
qed

lemma tree_frame:
  assumes "tree_ok m U l pt" and "same_outside P m m'" and "\<forall>p \<in> P. page_aligned p"
    and "set (nodes m l pt) \<inter> P = {}"
  shows "nodes m' l pt = nodes m l pt" and "tree_ok m' U l pt"
    and "leaf_slot m' l pt = leaf_slot m l pt" and "pte_at m' l pt = pte_at m l pt"
proof -
  have "\<forall>p \<in> set (nodes m l pt). \<forall>i < 512. entry m' p i = entry m p i"
    using assms by (auto simp: tree_ok_def intro!: entry_same_outside)
  from tree_cong [OF this] assms(1) show "nodes m' l pt = nodes m l pt" and "tree_ok m' U l pt"
    and "leaf_slot m' l pt = leaf_slot m l pt" and "pte_at m' l pt = pte_at m l pt"
    by (auto simp: tree_ok_def)
qed

text \<open>Changes below entry \<open>i\<close> leave the other subtrees as they were.\<close>

lemma siblings:
  assumes d: "distinct (nodes m (Suc l) pt)" and i: "i < 512" and j: "j < 512" "j \<noteq> i"
    and agree: "\<And>p j. p \<in> set (nodes m (Suc l) pt) \<Longrightarrow> p \<notin> set (below m l pt i) \<Longrightarrow> j < 512 \<Longrightarrow>
      (p, j) \<noteq> (pt, i) \<Longrightarrow> entry m' p j = entry m p j"
  shows "entry m' pt j = entry m pt j"
    and "valid (entry m pt j) \<Longrightarrow> c = PTE2PA (entry m pt j) \<Longrightarrow>
      nodes m' l c = nodes m l c \<and> pointers m' l c = pointers m l c \<and>
      leaf_slot m' l c = leaf_slot m l c \<and> pte_at m' l c = pte_at m l c"
proof -
  have pti: "pt \<notin> set (below m l pt i)" "pt \<notin> set (below m l pt j)"
    "set (below m l pt i) \<inter> set (below m l pt j) = {}"
    using d i j by (simp_all add: distinct_nodes_Suc)
  then show "entry m' pt j = entry m pt j" using agree [of pt j] j by simp
  assume c: "valid (entry m pt j)" "c = PTE2PA (entry m pt j)"
  show "nodes m' l c = nodes m l c \<and> pointers m' l c = pointers m l c \<and>
      leaf_slot m' l c = leaf_slot m l c \<and> pte_at m' l c = pte_at m l c"
  proof (rule tree_cong, intro ballI allI impI)
    fix p k assume p: "p \<in> set (nodes m l c)" and k: "k < (512 :: nat)"
    with c have pj: "p \<in> set (below m l pt j)" by (simp add: below_def)
    with pti have "p \<notin> set (below m l pt i)" "p \<noteq> pt" by auto
    moreover have "p \<in> set (nodes m (Suc l) pt)" using pj j by (auto simp: set_nodes_Suc)
    ultimately show "entry m' p k = entry m p k" using agree k by blast
  qed
qed

text \<open>Replacing the subtree below one entry, with new pages \<open>N\<close>.\<close>

lemma replace_child:
  assumes tree: "tree_ok m U (Suc l) pt" and i: "i < 512"
    and agree: "\<And>p j. p \<in> set (nodes m (Suc l) pt) \<Longrightarrow> p \<notin> set (below m l pt i) \<Longrightarrow> j < 512 \<Longrightarrow>
      (p, j) \<noteq> (pt, i) \<Longrightarrow> entry m' p j = entry m p j"
    and e: "valid (entry m' pt i)" "entry m' pt i AND (PTE_R OR PTE_W OR PTE_X) = 0"
    and sub: "tree_ok m' U l (PTE2PA (entry m' pt i))"
    and new: "set (nodes m' l (PTE2PA (entry m' pt i))) = set (below m l pt i) \<union> N"
      "N \<inter> set (nodes m (Suc l) pt) = {}"
  shows "tree_ok m' U (Suc l) pt"
    and "set (nodes m' (Suc l) pt) = set (nodes m (Suc l) pt) \<union> N"
    and "pte_at m' (Suc l) pt v = (if idx (Suc l) v = i
      then pte_at m' l (PTE2PA (entry m' pt i)) v else pte_at m (Suc l) pt v)"
proof -
  have d: "distinct (nodes m (Suc l) pt)" and ok: "\<And>p. p \<in> set (nodes m (Suc l) pt) \<Longrightarrow> page_aligned p \<and> U p"
    and ptr: "pointers m (Suc l) pt"
    using tree by (auto simp: tree_ok_def)
  note keep = siblings(2) [OF d i _ _ agree] and ej = siblings(1) [OF d i _ _ agree]
  have bj: "below m' l pt j = below m l pt j" if "j < 512" "j \<noteq> i" for j
    using keep that ej by (simp add: below_def)
  have bi: "set (below m' l pt i) = set (below m l pt i) \<union> N" "distinct (below m' l pt i)"
    using e sub new by (simp_all add: below_def tree_ok_def)
  show nd: "set (nodes m' (Suc l) pt) = set (nodes m (Suc l) pt) \<union> N"
  proof -
    have "(\<Union>j \<in> {j. j < 512}. set (below m' l pt j)) =
        (\<Union>j \<in> {j. j < 512}. set (below m l pt j) \<union> (if j = i then N else {}))"
      by (rule SUP_cong) (use bi bj in auto)
    also have "\<dots> = (\<Union>j \<in> {j. j < 512}. set (below m l pt j)) \<union> N"
      using i by (auto split: if_splits)
    finally show ?thesis by (simp add: set_nodes_Suc)
  qed
  have "distinct (nodes m' (Suc l) pt)"
    unfolding distinct_nodes_Suc
  proof (intro conjI allI impI)
    fix j assume j: "j < (512 :: nat)"
    show "pt \<notin> set (below m' l pt j)"
      using d j bi bj new(2) root_in_nodes by (cases "j = i") (auto simp: distinct_nodes_Suc)
    show "distinct (below m' l pt j)"
      using d j bi bj by (cases "j = i") (auto simp: distinct_nodes_Suc)
    fix k assume k: "k < (512 :: nat)" and jk: "j \<noteq> k"
    have "set (below m l pt j) \<inter> set (below m l pt k) = {}"
      using d j k jk by (simp add: distinct_nodes_Suc)
    with j k jk bi bj new(2) below_subset [OF j, of m l pt] below_subset [OF k, of m l pt]
    show "set (below m' l pt j) \<inter> set (below m' l pt k) = {}"
      by (cases "j = i"; cases "k = i") auto
  qed
  moreover have "pointers m' (Suc l) pt"
    unfolding pointers.simps
  proof (intro allI impI)
    fix j assume "j < 512" and "valid (entry m' pt j)"
    then show "entry m' pt j AND (PTE_R OR PTE_W OR PTE_X) = 0 \<and> pointers m' l (PTE2PA (entry m' pt j))"
      using ptr e sub ej keep by (cases "j = i") (auto simp: tree_ok_def)
  qed
  moreover have "\<forall>p \<in> set (nodes m' (Suc l) pt). page_aligned p \<and> U p"
    using nd ok sub new(1) unfolding tree_ok_def by blast
  ultimately show "tree_ok m' U (Suc l) pt" by (simp add: tree_ok_def)
  show "pte_at m' (Suc l) pt v = (if idx (Suc l) v = i
      then pte_at m' l (PTE2PA (entry m' pt i)) v else pte_at m (Suc l) pt v)"
    using e(1) keep ej by (auto simp: Let_def)
qed

text \<open>An all-zero page is an empty tree.\<close>

lemma empty_tree:
  assumes "\<forall>i < 512. entry m q i = 0" and "page_aligned q" and "U q"
  shows "nodes m l q = [q]" and "tree_ok m U l q" and "pte_at m l q v = 0"
proof -
  have "concat (map (below m k q) [0..<512]) = []" for k
    using assms(1) by (simp add: below_def valid_def)
  then show n: "nodes m l q = [q]" by (cases l) (simp_all add: nodes_Suc)
  have "pointers m l q" using assms(1) by (cases l) (auto simp: valid_def)
  with n assms(2,3) show "tree_ok m U l q" by (simp add: tree_ok_def)
  show "pte_at m l q v = 0" using assms(1) by (cases l) (auto simp: valid_def Let_def)
qed

section \<open>Leaf entries\<close>

lemma leaf_slot_in_node:
  "leaf_slot m l pt va = Some a \<Longrightarrow> \<exists>p \<in> set (nodes m l pt). a = p + 8 * of_nat (idx 0 va)"
proof (induction l arbitrary: pt)
  case (Suc l)
  let ?e = "entry m pt (idx (Suc l) va)"
  from Suc.prems have e: "valid ?e" and "leaf_slot m l (PTE2PA ?e) va = Some a"
    by (auto simp: Let_def split: if_splits)
  with Suc.IH obtain p where p: "p \<in> set (nodes m l (PTE2PA ?e))" "a = p + 8 * of_nat (idx 0 va)"
    by blast
  then have "p \<in> set (below m l pt (idx (Suc l) va))" using e by (simp add: below_def)
  with below_subset p(2) show ?case using idx_bound by blast
qed simp

lemma pte_at_leaf_slot:
  "pte_at m l pt va = (case leaf_slot m l pt va of None \<Rightarrow> 0 | Some a \<Rightarrow> load64 m a)"
  by (induction l arbitrary: pt) (simp_all add: entry_def Let_def)

lemma slot_nonzero: "page_aligned p \<Longrightarrow> p \<noteq> 0 \<Longrightarrow> i < 512 \<Longrightarrow> p + 8 * of_nat i \<noteq> 0"
proof
  assume p: "page_aligned p" "p \<noteq> 0" "i < 512" and "p + 8 * of_nat i = 0"
  then have "in_page p 0" using slot_in_page(1) [OF p(1,3)] by simp
  moreover have "page_aligned 0" by (simp add: page_aligned_def)
  ultimately have "p = 0" using in_page_disjoint [OF p(1)] in_page_self by blast
  with p(2) show False by simp
qed

lemma leaf_slot_nonzero:
  assumes "tree_ok m U l pt" and "\<And>p. U p \<Longrightarrow> p \<noteq> 0" and "leaf_slot m l pt va = Some a"
  shows "a \<noteq> 0"
  using leaf_slot_in_node [OF assms(3)] assms(1,2) slot_nonzero by (auto simp: tree_ok_def)

lemma walk_levels_lookup:
  "walk_levels l pt va False s = Done (case leaf_slot (mem s) l pt va of None \<Rightarrow> 0 | Some a \<Rightarrow> a) s"
  by (induction l arbitrary: pt) (simp_all add: pte_addr_idx entry_def valid_def Let_def)

text \<open>Writing a leaf entry changes that translation and no other.\<close>

lemma leaf_store:
  assumes "tree_ok m U l pt" and "leaf_slot m l pt va = Some a"
  shows "nodes (store64 m a v) l pt = nodes m l pt \<and> pointers (store64 m a v) l pt \<and>
    leaf_slot (store64 m a v) l pt = leaf_slot m l pt \<and>
    (\<forall>w. pte_at (store64 m a v) l pt w = (if \<forall>k \<le> l. idx k w = idx k va then v else pte_at m l pt w))"
  using assms
proof (induction l arbitrary: pt)
  case 0
  then have pt: "page_aligned pt" by (simp add: tree_ok_def)
  from 0 pt show ?case by (auto simp: entry_store)
next
  case (Suc l)
  let ?m = "store64 m a v" and ?i = "idx (Suc l) va"
  let ?c = "PTE2PA (entry m pt ?i)"
  from Suc.prems have e: "valid (entry m pt ?i)" and slot: "leaf_slot m l ?c va = Some a"
    by (auto simp: Let_def split: if_splits)
  have d: "distinct (nodes m (Suc l) pt)" and ok: "\<And>p. p \<in> set (nodes m (Suc l) pt) \<Longrightarrow> page_aligned p"
    and ptr: "pointers m (Suc l) pt"
    using Suc.prems by (auto simp: tree_ok_def)
  note IH = Suc.IH [OF tree_ok_child [OF Suc.prems(1) idx_bound e] slot]
  from leaf_slot_in_node [OF slot] e obtain q where
    q: "q \<in> set (below m l pt ?i)" "a = q + 8 * of_nat (idx 0 va)" by (auto simp: below_def)
  have qok: "page_aligned q" using q ok below_subset [OF idx_bound] by blast
  have same: "entry ?m p j = entry m p j"
    if "p \<in> set (nodes m (Suc l) pt)" "p \<notin> set (below m l pt ?i)" "j < 512" for p j
    using that q qok ok by (auto simp: entry_store)
  note sib = siblings [OF d idx_bound _ _ same]
  have ei: "entry ?m pt j = entry m pt j" if "j < 512" for j
    using same [of pt j] d that by (simp add: distinct_nodes_Suc)
  have b: "below ?m l pt j = below m l pt j" if "j < 512" for j
    using sib [of j] IH e ei [OF that] that by (cases "j = ?i") (auto simp: below_def)
  have "nodes ?m (Suc l) pt = nodes m (Suc l) pt"
    unfolding nodes_Suc by (auto intro!: arg_cong [where f = concat] map_cong simp: b)
  moreover have "pointers ?m l (PTE2PA (entry m pt j))" if "j < 512" "valid (entry m pt j)" for j
    using sib [of j] IH that ptr by (cases "j = ?i") auto
  then have "pointers ?m (Suc l) pt" using ptr by (auto simp: ei)
  moreover have "leaf_slot ?m (Suc l) pt w = leaf_slot m (Suc l) pt w \<and>
      pte_at ?m (Suc l) pt w = (if \<forall>k \<le> Suc l. idx k w = idx k va then v else pte_at m (Suc l) pt w)" for w
    using sib [of "idx (Suc l) w"] IH e
    by (cases "idx (Suc l) w = ?i") (auto simp: Let_def ei le_Suc_eq)
  ultimately show ?case by (simp add: fun_eq_iff)
qed

section \<open>Virtual addresses\<close>

lemma idx_eq: "idx l va = unat va div 2 ^ (12 + 9 * l) mod 512"
proof -
  have "PX l va = take_bit 9 (drop_bit (12 + 9 * l) va)"
    by (simp add: PX_def PXSHIFT_def take_bit_eq_mask mask_eq_exp_minus_1)
  then have "idx l va = take_bit 9 (unat (drop_bit (12 + 9 * l) va))"
    by (simp only: idx_def unsigned_take_bit_eq)
  also have "unat (drop_bit (12 + 9 * l) va) = unat va div 2 ^ (12 + 9 * l)"
    by (simp only: unsigned_drop_bit_eq) (simp add: drop_bit_eq_div take_bit_eq_mod)
  finally show ?thesis by (simp add: take_bit_eq_mod)
qed

lemma page_number_idx:
  assumes "unat va < 549755813888"
  shows "unat va div 4096 = idx 0 va + 512 * (idx 1 va + 512 * idx 2 va)"
proof -
  define p where "p = unat va div 4096"
  have "p < 134217728" using assms by (simp add: p_def div_less_iff_less_mult)
  then have "p div 512 div 512 mod 512 = p div 512 div 512" by (simp add: div_less_iff_less_mult)
  moreover have "idx 0 va = p mod 512" "idx 1 va = p div 512 mod 512" "idx 2 va = p div 512 div 512 mod 512"
    by (simp_all add: idx_eq p_def div_mult2_eq [symmetric])
  ultimately have "idx 0 va + 512 * (idx 1 va + 512 * idx 2 va) = p"
    by (metis mod_mult_div_eq)
  then show ?thesis by (simp add: p_def)
qed

lemma same_page_iff:
  assumes "unat va < 549755813888" and "unat w < 549755813888"
  shows "(\<forall>k \<le> 2. idx k w = idx k va) \<longleftrightarrow> unat w div 4096 = unat va div 4096"
proof
  assume "\<forall>k \<le> 2. idx k w = idx k va"
  then have "idx 0 w = idx 0 va" "idx 1 w = idx 1 va" "idx 2 w = idx 2 va" by auto
  then show "unat w div 4096 = unat va div 4096" by (simp add: page_number_idx assms)
next
  assume eq: "unat w div 4096 = unat va div 4096"
  have "unat x div 2 ^ (12 + 9 * k) = unat x div 4096 div 2 ^ (9 * k)" for x :: uint64 and k
    by (simp add: power_add div_mult2_eq)
  with eq show "\<forall>k \<le> 2. idx k w = idx k va" by (simp add: idx_eq)
qed

section \<open>Growing the tree\<close>

lemma valid_or_V: "valid (x OR PTE_V)"
  by (simp add: valid_def bit_eq_iff bit_simps) (rule exI [of _ 0], simp)

lemma PTE_FLAGS_PA2PTE: "fl < 1024 \<Longrightarrow> PTE_FLAGS (PA2PTE pa OR fl) = fl"
proof -
  assume "fl < 1024"
  then have hi: "\<not> bit fl n" if "10 \<le> n" for n
    using that by (intro not_bit_above [of _ 10]) (simp_all add: word_less_nat_alt)
  have mask: "(0x3FF :: uint64) = mask 10" by (simp add: mask_eq_exp_minus_1)
  show ?thesis unfolding PTE_FLAGS_def PA2PTE_def mask
    using hi by (intro bit_word_eqI) (auto simp: bit_simps not_less, meson not_le)
qed

lemma pointer_flags: "(PA2PTE q OR PTE_V) AND (PTE_R OR PTE_W OR PTE_X) = 0"
proof -
  have "(PA2PTE q OR 1) AND 14 = PTE_FLAGS (PA2PTE q OR 1) AND 14"
    by (simp add: PTE_FLAGS_def and.assoc)
  then show ?thesis by (simp add: PTE_FLAGS_PA2PTE)
qed

lemma ram_page_PTE:
  assumes "ram_page s q" and "fl < 1024"
  shows "PTE2PA (PA2PTE q OR fl) = q"
proof (rule PTE2PA_PA2PTE)
  show "page_aligned q" "fl < 1024" using assms by (simp_all add: ram_page_def)
  show "q < 2 ^ 56" using assms(1) by (simp add: ram_page_def word_less_nat_alt)
qed

lemma kmem_inv_write:
  assumes "kmem_inv s ps" and "same_outside P (mem s) m'" and "\<forall>p \<in> P. page_aligned p"
    and "set ps \<inter> P = {}"
  shows "kmem_inv (s\<lparr>mem := m'\<rparr>) ps"
proof -
  have "\<forall>q \<in> set ps. page_aligned q" using assms(1) by (auto simp: kmem_inv_def ram_page_def)
  from links_same_outside [OF assms(2,3) this assms(4)] assms(1) show ?thesis
    by (simp add: kmem_inv_def)
qed

text \<open>
  \<open>vm_ok s ps l pt\<close>: the allocator has the free pages \<open>ps\<close>, and \<open>pt\<close> is the root of a well-formed
  tree that shares no page with them. \<open>grown\<close> describes what \<open>walk\<close> may do to it: take pages \<open>us\<close>
  from the free list as new page-table pages.
\<close>

definition vm_ok :: "('a) kmem_scheme \<Rightarrow> uint64 list \<Rightarrow> nat \<Rightarrow> uint64 \<Rightarrow> bool" where
  "vm_ok s ps l pt \<longleftrightarrow> kmem_inv s ps \<and> tree_ok (mem s) (ram_page s) l pt \<and>
     set ps \<inter> set (nodes (mem s) l pt) = {}"

definition grown :: "('a) kmem_scheme \<Rightarrow> uint64 list \<Rightarrow> ('a) kmem_scheme \<Rightarrow> uint64 list \<Rightarrow> uint64 list \<Rightarrow> nat \<Rightarrow> uint64 \<Rightarrow> bool" where
  "grown s ps t us qs l pt \<longleftrightarrow> ps = us @ qs \<and> vm_ok t qs l pt \<and> only_mem s t \<and>
     set (nodes (mem t) l pt) = set (nodes (mem s) l pt) \<union> set us \<and>
     pte_at (mem t) l pt = pte_at (mem s) l pt \<and>
     same_outside (set (nodes (mem s) l pt) \<union> set us) (mem s) (mem t)"

lemma vm_ok_nodes:
  assumes "vm_ok s ps l pt" and "p \<in> set (nodes (mem s) l pt)"
  shows "page_aligned p" and "ram_page s p" and "p \<noteq> 0" and "p \<notin> set ps"
  using assms ram_page_nonzero by (auto simp: vm_ok_def tree_ok_def)

lemma vm_ok_free:
  assumes "vm_ok s ps l pt" and "p \<in> set ps"
  shows "page_aligned p" and "ram_page s p" and "p \<noteq> 0" and "p \<notin> set (nodes (mem s) l pt)"
  using assms ram_page_nonzero [of s ps p] by (auto simp: vm_ok_def kmem_inv_def ram_page_def)

lemma vm_ok_child:
  assumes "vm_ok s ps (Suc l) pt" and "i < 512" and "valid (entry (mem s) pt i)"
  shows "vm_ok s ps l (PTE2PA (entry (mem s) pt i))"
proof -
  have "set (nodes (mem s) l (PTE2PA (entry (mem s) pt i))) \<subseteq> set (nodes (mem s) (Suc l) pt)"
    using below_subset [OF assms(2), of "mem s" l pt] assms(3) by (simp add: below_def)
  with assms tree_ok_child [of "mem s" "ram_page s" l pt i] show ?thesis by (auto simp: vm_ok_def)
qed

lemma grown_refl: "vm_ok s ps l pt \<Longrightarrow> grown s ps s [] ps l pt"
  by (simp add: grown_def)

lemma grown_settle: "vm_ok s ps l pt \<Longrightarrow> grown s ps (settle s) [] ps l pt"
  by (simp add: grown_def vm_ok_def kmem_inv_def)

lemma grown_trans:
  assumes "grown s ps t us qs l pt" and "grown t qs u vs rs l pt"
  shows "grown s ps u (us @ vs) rs l pt"
  unfolding grown_def
proof (intro conjI)
  show "only_mem s u" using assms only_mem_trans by (auto simp: grown_def)
  have "same_outside (set (nodes (mem s) l pt) \<union> set us) (mem s) (mem t)"
    and "same_outside (set (nodes (mem t) l pt) \<union> set vs) (mem t) (mem u)"
    and n: "set (nodes (mem t) l pt) = set (nodes (mem s) l pt) \<union> set us"
    using assms by (simp_all add: grown_def)
  from same_outside_trans [OF this(1,2)]
  show "same_outside (set (nodes (mem s) l pt) \<union> set (us @ vs)) (mem s) (mem u)"
    by (rule same_outside_mono) (auto simp: n)
qed (use assms in \<open>auto simp: grown_def\<close>)

lemma grown_descend:
  assumes s: "vm_ok s ps (Suc l) pt" and i: "i < 512" and e: "valid (entry (mem s) pt i)"
    and g: "grown s ps t us qs l (PTE2PA (entry (mem s) pt i))"
  shows "grown s ps t us qs (Suc l) pt" and "entry (mem t) pt i = entry (mem s) pt i"
proof -
  let ?c = "PTE2PA (entry (mem s) pt i)"
  have bel: "nodes (mem s) l ?c = below (mem s) l pt i" using e by (simp add: below_def)
  have tree: "tree_ok (mem s) (ram_page s) (Suc l) pt" and om: "only_mem s t"
    and ps: "ps = us @ qs" and so: "same_outside (set (below (mem s) l pt i) \<union> set us) (mem s) (mem t)"
    and gt: "vm_ok t qs l ?c" and gn: "set (nodes (mem t) l ?c) = set (below (mem s) l pt i) \<union> set us"
    and gp: "pte_at (mem t) l ?c = pte_at (mem s) l ?c"
    using s g bel by (auto simp: vm_ok_def grown_def)
  have ram: "ram_page t = ram_page s" using om by (rule only_mem_keeps)
  have al: "\<forall>p \<in> set (below (mem s) l pt i) \<union> set us. page_aligned p"
    using vm_ok_nodes(1) [OF s] vm_ok_free(1) [OF s] below_subset [OF i, of "mem s" l pt] ps by auto
  have new: "set us \<inter> set (nodes (mem s) (Suc l) pt) = {}" "set qs \<inter> set us = {}"
    using vm_ok_free [OF s] s ps by (auto simp: vm_ok_def kmem_inv_def)
  have agree: "entry (mem t) p j = entry (mem s) p j"
    if "p \<in> set (nodes (mem s) (Suc l) pt)" "p \<notin> set (below (mem s) l pt i)" "j < 512" for p j
    using that new(1) vm_ok_nodes [OF s] by (intro entry_same_outside [OF so al]) auto
  have pti: "pt \<notin> set (below (mem s) l pt i)"
    using tree i by (simp add: tree_ok_def distinct_nodes_Suc)
  then show ei: "entry (mem t) pt i = entry (mem s) pt i" using agree i by simp
  have flags: "entry (mem t) pt i AND (PTE_R OR PTE_W OR PTE_X) = 0"
    using tree i e ei by (simp add: tree_ok_def)
  have sub: "tree_ok (mem t) (ram_page s) l (PTE2PA (entry (mem t) pt i))"
    using gt by (simp add: vm_ok_def ram ei)
  have "valid (entry (mem t) pt i)" "set (nodes (mem t) l (PTE2PA (entry (mem t) pt i))) = set (below (mem s) l pt i) \<union> set us"
    using e ei gn by simp_all
  note rc = replace_child [OF tree i agree this(1) flags sub this(2) new(1)]
  have "pte_at (mem t) (Suc l) pt v = pte_at (mem s) (Suc l) pt v" for v
    using rc(3) [of v] gp ei e by (auto simp: Let_def)
  moreover have "vm_ok t qs (Suc l) pt"
    using gt rc s new ps by (auto simp: vm_ok_def ram)
  moreover have "same_outside (set (nodes (mem s) (Suc l) pt) \<union> set us) (mem s) (mem t)"
    using so below_subset [OF i, of "mem s" l pt] by (auto elim!: same_outside_mono)
  ultimately show "grown s ps t us qs (Suc l) pt"
    using rc om ps by (auto simp: grown_def)
qed

lemma grown_link:
  assumes s: "vm_ok s (q # qs) (Suc l) pt" and i: "i < 512" and e: "\<not> valid (entry (mem s) pt i)"
    and t: "kmem_inv t qs" "only_mem s t" "same_outside {q} (mem s) (mem t)"
    and m': "m' = store64 (memset (mem t) q 0 4096) (pt + 8 * of_nat i) (PA2PTE q OR PTE_V)"
  shows "grown s (q # qs) (t\<lparr>mem := m'\<rparr>) [q] qs (Suc l) pt" and "entry m' pt i = PA2PTE q OR PTE_V"
proof -
  let ?m = "memset (mem t) q 0 4096"
  have q: "page_aligned q" "ram_page s q" "q \<notin> set (nodes (mem s) (Suc l) pt)" "q \<notin> set qs"
    using vm_ok_free [OF s, of q] s by (simp_all add: vm_ok_def kmem_inv_def)
  have pt: "page_aligned pt" "pt \<notin> set qs" using vm_ok_nodes [OF s root_in_nodes] by auto
  have sm: "same_outside {q} (mem s) ?m" using same_outside_trans [OF t(3) same_outside_memset [of q]] by simp
  have sp: "same_outside {pt} ?m m'"
    unfolding m' using pt i by (intro same_outside_store64) (simp_all add: slot_in_page)
  from same_outside_trans [OF sm sp] have so: "same_outside {q, pt} (mem s) m'"
    by (simp add: insert_commute)
  have est: "entry m' p j = (if p = pt \<and> j = i then PA2PTE q OR PTE_V else entry ?m p j)"
    if "page_aligned p" "j < 512" for p j
    using that pt i by (simp add: m' entry_store)
  have agree: "entry m' p j = entry (mem s) p j"
    if "p \<in> set (nodes (mem s) (Suc l) pt)" "p \<notin> set (below (mem s) l pt i)" "j < 512" "(p, j) \<noteq> (pt, i)" for p j
    using that q vm_ok_nodes [OF s that(1)] entry_same_outside [OF sm] by (auto simp: est)
  show ei: "entry m' pt i = PA2PTE q OR PTE_V" using est pt i by simp
  have c: "PTE2PA (entry m' pt i) = q" unfolding ei by (rule ram_page_PTE [OF q(2)]) simp
  have "\<forall>j < 512. entry m' q j = 0" using est q entry_zeroed root_in_nodes by auto
  note empty = empty_tree [OF this q(1), of "ram_page s", OF q(2)]
  have b: "below (mem s) l pt i = []" using e by (simp add: below_def)
  have tree: "tree_ok (mem s) (ram_page s) (Suc l) pt" using s by (simp add: vm_ok_def)
  have "valid (entry m' pt i)" "entry m' pt i AND (PTE_R OR PTE_W OR PTE_X) = 0"
    unfolding ei by (rule valid_or_V, rule pointer_flags)
  note rc = replace_child [where N = "{q}", OF tree i agree this, unfolded c b, OF _ _ _ _ empty(2)]
  have nodes': "tree_ok m' (ram_page s) (Suc l) pt" "set (nodes m' (Suc l) pt) = insert q (set (nodes (mem s) (Suc l) pt))"
    "\<And>v. pte_at m' (Suc l) pt v = (if idx (Suc l) v = i then 0 else pte_at (mem s) (Suc l) pt v)"
    using rc empty q by simp_all
  have "pte_at m' (Suc l) pt = pte_at (mem s) (Suc l) pt" using nodes'(3) e by (auto simp: fun_eq_iff Let_def)
  moreover have "kmem_inv (t\<lparr>mem := m'\<rparr>) qs"
    using kmem_inv_write [OF t(1) same_outside_trans [OF same_outside_memset sp]] q pt by simp
  moreover have "only_mem s (t\<lparr>mem := m'\<rparr>)" using t(2) only_mem_trans only_mem_mem by blast
  ultimately show "grown s (q # qs) (t\<lparr>mem := m'\<rparr>) [q] qs (Suc l) pt"
    using nodes' s so q t(2) by (auto simp: grown_def vm_ok_def only_mem_keeps elim!: same_outside_mono)
qed

lemma walk_levels_alloc:
  fixes s :: "('a) kmem_scheme"
  assumes "vm_ok s ps l pt"
  shows "yields (walk_levels l pt va True s) (\<lambda>r t. \<exists>us qs. grown s ps t us qs l pt \<and>
    (if r = 0 then qs = [] \<and> length us < l else length us \<le> l \<and> leaf_slot (mem t) l pt va = Some r))"
  using assms
proof (induction l arbitrary: s ps pt)
  case 0
  have "pt + 8 * of_nat (idx 0 va) \<noteq> 0"
    using vm_ok_nodes [OF 0 root_in_nodes] by (intro slot_nonzero) simp_all
  with 0 show ?case by (auto simp: pte_addr_idx intro: grown_refl)
next
  case (Suc l)
  let ?i = "idx (Suc l) va"
  have descend: "yields (walk_levels l (PTE2PA (entry (mem u) pt ?i)) va True u) (\<lambda>r t. \<exists>us qs.
      grown u rs t us qs (Suc l) pt \<and>
      (if r = 0 then qs = [] \<and> length us < l else length us \<le> l \<and> leaf_slot (mem t) (Suc l) pt va = Some r))"
    if u: "vm_ok u rs (Suc l) pt" and e: "valid (entry (mem u) pt ?i)" for u :: "('a) kmem_scheme" and rs
  proof (rule yields_mono [OF Suc.IH [OF vm_ok_child [OF u idx_bound e]]], elim exE conjE)
    fix r t us qs
    assume g: "grown u rs t us qs l (PTE2PA (entry (mem u) pt ?i))"
      and r: "if r = 0 then qs = [] \<and> length us < l
        else length us \<le> l \<and> leaf_slot (mem t) l (PTE2PA (entry (mem u) pt ?i)) va = Some r"
    have "entry (mem t) pt ?i = entry (mem u) pt ?i"
      and "grown u rs t us qs (Suc l) pt" using grown_descend [OF u idx_bound e g] by simp_all
    with r e show "\<exists>us qs. grown u rs t us qs (Suc l) pt \<and>
      (if r = 0 then qs = [] \<and> length us < l else length us \<le> l \<and> leaf_slot (mem t) (Suc l) pt va = Some r)"
      by (intro exI [of _ us] exI [of _ qs]) (auto simp: Let_def)
  qed
  show ?case
  proof (cases "valid (entry (mem s) pt ?i)")
    case True
    have "yields (walk_levels l (PTE2PA (entry (mem s) pt ?i)) va True s) (\<lambda>r t. \<exists>us qs.
        grown s ps t us qs (Suc l) pt \<and>
        (if r = 0 then qs = [] \<and> length us < Suc l else length us \<le> Suc l \<and> leaf_slot (mem t) (Suc l) pt va = Some r))"
      by (rule yields_mono [OF descend [OF Suc.prems True]])
        (fastforce split: if_splits simp del: leaf_slot.simps)
    with True show ?thesis
      by (simp add: load_pte_addr valid_def Let_def del: leaf_slot.simps)
  next
    case False
    show ?thesis
    proof (cases ps)
      case Nil
      then have "kalloc s = Done 0 (settle s)" using Suc.prems kalloc_empty by (auto simp: vm_ok_def)
      with False Nil grown_settle [OF Suc.prems] show ?thesis
        by (auto simp: load_pte_addr valid_def Let_def)
    next
      case (Cons q rs)
      with Suc.prems have "kmem_inv s (q # rs)" and ok: "vm_ok s (q # rs) (Suc l) pt"
        by (simp_all add: vm_ok_def)
      from kalloc_pop [OF this(1)] obtain t where t: "kalloc s = Done q t" "kmem_inv t rs"
        "only_mem s t" "same_outside {q} (mem s) (mem t)" by (auto simp: yields_iff)
      let ?m = "store64 (memset (mem t) q 0 4096) (pt + 8 * of_nat ?i) (PA2PTE q OR PTE_V)"
      let ?u = "t\<lparr>mem := ?m\<rparr>"
      note link = grown_link [OF ok idx_bound False t(2-4) refl]
      have "ram_page s q" "q \<noteq> 0" using vm_ok_free [OF ok, of q] by simp_all
      then have c: "PTE2PA (entry (mem ?u) pt ?i) = q" "valid (entry (mem ?u) pt ?i)"
        using link(2) valid_or_V ram_page_PTE [of s q 1] by simp_all
      have "vm_ok ?u rs (Suc l) pt" using link(1) by (simp add: grown_def)
      from descend [OF this c(2)] have "yields (walk_levels l q va True ?u) (\<lambda>r t. \<exists>us qs.
          grown s ps t us qs (Suc l) pt \<and>
          (if r = 0 then qs = [] \<and> length us < Suc l else length us \<le> Suc l \<and> leaf_slot (mem t) (Suc l) pt va = Some r))"
        unfolding c(1) Cons
        by (elim yields_mono exE conjE) (drule grown_trans [OF link(1)], fastforce split: if_splits)
      with t(1) False \<open>q \<noteq> 0\<close> show ?thesis
        by (simp add: pte_addr_idx entry_def valid_def Let_def del: leaf_slot.simps)
    qed
  qed
qed

end
