(* ===== verification/Vm_Map.thy ===== *)
theory Vm_Map
  imports Vm_Tree
begin

text \<open>
  The abstract state of a page table: \<open>vmap m pt\<close> gives the leaf entry of every virtual page
  number that the three levels can express; the kernel uses those below \<open>MAXVA / PGSIZE\<close>, half of
  them. \<open>mappages\<close> and \<open>uvmunmap\<close> are shown to be updates of this map.
\<close>

section \<open>The map of a page table\<close>

definition vpage :: "nat \<Rightarrow> uint64" where
  "vpage n = of_nat (4096 * n)"

definition vmap :: "memory \<Rightarrow> uint64 \<Rightarrow> nat \<Rightarrow> uint64" where
  "vmap m pt n = (if n < 134217728 then pte_at m 2 pt (vpage n) else 0)"

lemma unat_vpage: "n \<le> 134217728 \<Longrightarrow> unat (vpage n) = 4096 * n"
  unfolding vpage_def by (subst unat_of_nat) simp

lemma vpage_below: "n < 67108864 \<Longrightarrow> vpage n < MAXVA"
  by (simp add: word_less_nat_alt unat_vpage)

lemma vpage_aligned: "n \<le> 134217728 \<Longrightarrow> page_aligned (vpage n)"
  by (simp add: page_aligned_unat unat_vpage)

lemma vpage_Suc: "vpage n + PGSIZE = vpage (Suc n)"
  by (simp add: vpage_def algebra_simps)

lemma vpage_inj: "n \<le> 134217728 \<Longrightarrow> k \<le> 134217728 \<Longrightarrow> vpage n = vpage k \<longleftrightarrow> n = k"
  by (metis unat_vpage mult_cancel1 zero_neq_numeral)

lemma below_MAXVA:
  assumes "va < MAXVA"
  shows "unat va div 4096 < 67108864" and "PGROUNDDOWN va = vpage (unat va div 4096)"
proof -
  have "unat va < 274877906944" using assms by (simp add: word_less_nat_alt)
  then show n: "unat va div 4096 < 67108864" by (simp add: div_less_iff_less_mult)
  then show "PGROUNDDOWN va = vpage (unat va div 4096)"
    by (simp add: word_unat_eq_iff unat_vpage unat_PGROUNDDOWN)
qed

lemma aligned_vpage:
  assumes "page_aligned va" and "va < MAXVA"
  shows "va = vpage (unat va div 4096)"
  using below_MAXVA(2) [OF assms(2)] PGROUNDDOWN_aligned [OF assms(1)] by simp

lemma pte_at_page:
  assumes "va < MAXVA"
  shows "pte_at m 2 pt va = vmap m pt (unat va div 4096)"
    and "leaf_slot m 2 pt va = leaf_slot m 2 pt (vpage (unat va div 4096))"
proof -
  let ?w = "vpage (unat va div 4096)"
  note n = below_MAXVA(1) [OF assms]
  have idx: "\<forall>k \<le> 2. idx k va = idx k ?w"
    using same_page_iff [of ?w va] assms n by (simp add: unat_vpage word_less_nat_alt)
  have "(\<forall>k \<le> l. idx k x = idx k y) \<longrightarrow>
      pte_at m l pt x = pte_at m l pt y \<and> leaf_slot m l pt x = leaf_slot m l pt y" for l pt x y
    by (induction l arbitrary: pt) (auto simp: Let_def)
  with idx show "pte_at m 2 pt va = vmap m pt (unat va div 4096)"
    and "leaf_slot m 2 pt va = leaf_slot m 2 pt ?w"
    using n by (simp_all add: vmap_def)
qed

lemma vmap_store:
  assumes "tree_ok m U 2 pt" and "leaf_slot m 2 pt (vpage n) = Some a" and "n < 67108864"
  shows "vmap (store64 m a v) pt = (vmap m pt)(n := v)" and "nodes (store64 m a v) 2 pt = nodes m 2 pt"
    and "tree_ok (store64 m a v) U 2 pt" and "leaf_slot (store64 m a v) 2 pt = leaf_slot m 2 pt"
    and "same_outside (set (nodes m 2 pt)) m (store64 m a v)"
proof -
  note ls = leaf_store [OF assms(1,2), of v]
  have "(\<forall>k \<le> 2. idx k (vpage j) = idx k (vpage n)) \<longleftrightarrow> j = n" if "j < 134217728" for j
    using same_page_iff [of "vpage n" "vpage j"] assms(3) that by (simp add: unat_vpage)
  then show "vmap (store64 m a v) pt = (vmap m pt)(n := v)"
    using ls assms(3) by (auto simp: vmap_def fun_eq_iff)
  show "nodes (store64 m a v) 2 pt = nodes m 2 pt" "leaf_slot (store64 m a v) 2 pt = leaf_slot m 2 pt"
    using ls by simp_all
  then show "tree_ok (store64 m a v) U 2 pt" using ls assms(1) by (simp add: tree_ok_def)
  from leaf_slot_in_node [OF assms(2)] obtain p where p: "p \<in> set (nodes m 2 pt)"
    "a = p + 8 * of_nat (idx 0 (vpage n))" by blast
  then have "page_aligned p" using assms(1) by (simp add: tree_ok_def)
  then have "same_outside {p} m (store64 m a v)"
    using p slot_in_page [of p] by (intro same_outside_store64) auto
  then show "same_outside (set (nodes m 2 pt)) m (store64 m a v)"
    by (rule same_outside_mono) (use p in simp)
qed

lemma vmap_frame:
  assumes "tree_ok m U 2 pt" and "same_outside P m m'" and "\<forall>p \<in> P. page_aligned p"
    and "set (nodes m 2 pt) \<inter> P = {}"
  shows "vmap m' pt = vmap m pt"
  using tree_frame(4) [OF assms] by (simp add: vmap_def fun_eq_iff)

text \<open>What a change of the page table leaves alone: \<open>us\<close> are its new page-table pages.\<close>

definition pt_frame :: "('a) kmem_scheme \<Rightarrow> ('a) kmem_scheme \<Rightarrow> uint64 \<Rightarrow> uint64 list \<Rightarrow> bool" where
  "pt_frame s t pt us \<longleftrightarrow> only_mem s t \<and>
     set (nodes (mem t) 2 pt) = set (nodes (mem s) 2 pt) \<union> set us \<and>
     same_outside (set (nodes (mem s) 2 pt) \<union> set us) (mem s) (mem t)"

lemma pt_frame_refl [simp]: "pt_frame s s pt []"
  by (simp add: pt_frame_def)

lemma pt_frame_trans:
  assumes "pt_frame s t pt us" and "pt_frame t u pt vs"
  shows "pt_frame s u pt (us @ vs)"
proof -
  have st: "only_mem s t" "same_outside (set (nodes (mem s) 2 pt) \<union> set us) (mem s) (mem t)"
    "set (nodes (mem t) 2 pt) = set (nodes (mem s) 2 pt) \<union> set us"
    and tu: "only_mem t u" "same_outside (set (nodes (mem t) 2 pt) \<union> set vs) (mem t) (mem u)"
    "set (nodes (mem u) 2 pt) = set (nodes (mem t) 2 pt) \<union> set vs"
    using assms by (simp_all add: pt_frame_def)
  have "same_outside (set (nodes (mem s) 2 pt) \<union> set (us @ vs)) (mem s) (mem u)"
    by (rule same_outside_mono [OF same_outside_trans [OF st(2) tu(2)]]) (auto simp: st(3))
  with st tu show ?thesis by (auto simp: pt_frame_def only_mem_trans)
qed

lemma grown_vmap:
  "grown s ps t us qs 2 pt \<Longrightarrow> ps = us @ qs \<and> vm_ok t qs 2 pt \<and> pt_frame s t pt us \<and>
    vmap (mem t) pt = vmap (mem s) pt"
  by (simp add: grown_def pt_frame_def vmap_def fun_eq_iff)

lemma walk_alloc:
  assumes "vm_ok s ps 2 pt" and "n < 67108864"
  shows "yields (walk pt (vpage n) True s) (\<lambda>r t. \<exists>us qs.
    ps = us @ qs \<and> vm_ok t qs 2 pt \<and> pt_frame s t pt us \<and> vmap (mem t) pt = vmap (mem s) pt \<and>
    (if r = 0 then qs = [] \<and> length us < 2
     else length us \<le> 2 \<and> leaf_slot (mem t) 2 pt (vpage n) = Some r \<and> load64 (mem t) r = vmap (mem s) pt n))"
proof -
  have "walk pt (vpage n) True s = walk_levels 2 pt (vpage n) True s"
    using vpage_below [OF assms(2)] by (simp add: walk_def flip: not_le)
  moreover have "yields (walk_levels 2 pt (vpage n) True s) (\<lambda>r t. \<exists>us qs.
    ps = us @ qs \<and> vm_ok t qs 2 pt \<and> pt_frame s t pt us \<and> vmap (mem t) pt = vmap (mem s) pt \<and>
    (if r = 0 then qs = [] \<and> length us < 2
     else length us \<le> 2 \<and> leaf_slot (mem t) 2 pt (vpage n) = Some r \<and> load64 (mem t) r = vmap (mem s) pt n))"
  proof (rule yields_mono [OF walk_levels_alloc [OF assms(1), of "vpage n"]], elim exE conjE)
    fix r t us qs
    assume "grown s ps t us qs 2 pt"
      and r: "if r = 0 then qs = [] \<and> length us < 2 else length us \<le> 2 \<and> leaf_slot (mem t) 2 pt (vpage n) = Some r"
    from grown_vmap [OF this(1)] have g: "ps = us @ qs \<and> vm_ok t qs 2 pt \<and> pt_frame s t pt us"
      and v: "vmap (mem t) pt = vmap (mem s) pt" by simp_all
    have "load64 (mem t) r = vmap (mem s) pt n" if "leaf_slot (mem t) 2 pt (vpage n) = Some r"
      using that assms(2) pte_at_leaf_slot [of "mem t" 2 pt "vpage n"]
      by (simp add: v [symmetric] vmap_def)
    with g v r show "\<exists>us qs. ps = us @ qs \<and> vm_ok t qs 2 pt \<and> pt_frame s t pt us \<and>
        vmap (mem t) pt = vmap (mem s) pt \<and> (if r = 0 then qs = [] \<and> length us < 2
        else length us \<le> 2 \<and> leaf_slot (mem t) 2 pt (vpage n) = Some r \<and> load64 (mem t) r = vmap (mem s) pt n)"
      by (intro exI [of _ us] exI [of _ qs]) simp
  qed
  ultimately show ?thesis by simp
qed

lemma walk_lookup:
  assumes "va < MAXVA"
  shows "walk pt va False s = Done (case leaf_slot (mem s) 2 pt va of None \<Rightarrow> 0 | Some a \<Rightarrow> a) s"
  using assms by (simp add: walk_def walk_levels_lookup flip: not_le)

lemma leaf_write:
  assumes "vm_ok t qs 2 pt" and "leaf_slot (mem t) 2 pt (vpage n) = Some a" and "n < 67108864"
  shows "vm_ok (t\<lparr>mem := store64 (mem t) a v\<rparr>) qs 2 pt"
    and "pt_frame t (t\<lparr>mem := store64 (mem t) a v\<rparr>) pt []"
    and "vmap (mem (t\<lparr>mem := store64 (mem t) a v\<rparr>)) pt = (vmap (mem t) pt)(n := v)"
proof -
  have tree: "tree_ok (mem t) (ram_page t) 2 pt" using assms(1) by (simp add: vm_ok_def)
  note vs = vmap_store [OF tree assms(2,3), of v]
  have "kmem_inv (t\<lparr>mem := store64 (mem t) a v\<rparr>) qs"
    using assms(1) vs(5) tree by (intro kmem_inv_write) (auto simp: vm_ok_def tree_ok_def)
  with vs assms(1) show "vm_ok (t\<lparr>mem := store64 (mem t) a v\<rparr>) qs 2 pt"
    by (simp add: vm_ok_def)
  show "pt_frame t (t\<lparr>mem := store64 (mem t) a v\<rparr>) pt []" using vs by (simp add: pt_frame_def)
  show "vmap (mem (t\<lparr>mem := store64 (mem t) a v\<rparr>)) pt = (vmap (mem t) pt)(n := v)" using vs by simp
qed

section \<open>Mapping pages\<close>

text \<open>\<open>d\<close> pages from page number \<open>n\<close> on, mapped to consecutive physical pages from \<open>pa\<close> on.\<close>

definition map_range :: "(nat \<Rightarrow> uint64) \<Rightarrow> nat \<Rightarrow> nat \<Rightarrow> uint64 \<Rightarrow> uint64 \<Rightarrow> nat \<Rightarrow> uint64" where
  "map_range f n d pa perm =
     (\<lambda>j. if n \<le> j \<and> j < n + d then PA2PTE (pa + vpage (j - n)) OR perm OR PTE_V else f j)"

lemma map_range_0 [simp]: "map_range f n 0 pa perm = f"
  by (auto simp: map_range_def fun_eq_iff)

lemma map_range_Suc:
  "map_range (f(n := PA2PTE pa OR perm OR PTE_V)) (Suc n) d (pa + PGSIZE) perm = map_range f n (Suc d) pa perm"
proof
  fix j
  have "pa + PGSIZE + vpage (j - Suc n) = pa + vpage (j - n)" if "Suc n \<le> j"
    using that vpage_Suc [of "j - Suc n"] by (simp add: Suc_diff_Suc add.assoc add.commute [of "PGSIZE"])
  moreover have "vpage 0 = 0" by (simp add: vpage_def)
  ultimately show "map_range (f(n := PA2PTE pa OR perm OR PTE_V)) (Suc n) d (pa + PGSIZE) perm j =
      map_range f n (Suc d) pa perm j"
    by (cases "j = n") (auto simp: map_range_def add.assoc)
qed

lemma mappages_first:
  assumes "vm_ok s ps 2 pt" and "n < 67108864" and "\<not> valid (vmap (mem s) pt n)"
  obtains
    (full) t where "mappages_loop pt (vpage n) e pa perm s = Done (-1) t" and "vm_ok t [] 2 pt"
      and "pt_frame s t pt ps" and "vmap (mem t) pt = vmap (mem s) pt" and "length ps < 2"
  | (mapped) u us qs where "mappages_loop pt (vpage n) e pa perm s =
        (if vpage n = e then Done 0 u else mappages_loop pt (vpage (Suc n)) e (pa + PGSIZE) perm u)"
      and "ps = us @ qs" and "vm_ok u qs 2 pt" and "pt_frame s u pt us"
      and "vmap (mem u) pt = (vmap (mem s) pt)(n := PA2PTE pa OR perm OR PTE_V)" and "length us \<le> 2"
proof -
  from walk_alloc [OF assms(1,2)] obtain r t us qs where
    w: "walk pt (vpage n) True s = Done r t" "ps = us @ qs" "vm_ok t qs 2 pt" "pt_frame s t pt us"
      "vmap (mem t) pt = vmap (mem s) pt"
    and r: "if r = 0 then qs = [] \<and> length us < 2
      else length us \<le> 2 \<and> leaf_slot (mem t) 2 pt (vpage n) = Some r \<and> load64 (mem t) r = vmap (mem s) pt n"
    by (auto simp: yields_iff)
  show thesis
  proof (cases "r = 0")
    case True
    with w r show thesis by (intro full [of t]) (simp_all add: mappages_loop.simps)
  next
    case False
    with r have slot: "leaf_slot (mem t) 2 pt (vpage n) = Some r" and us: "length us \<le> 2"
      and "load64 (mem t) r = vmap (mem s) pt n" by simp_all
    let ?u = "t\<lparr>mem := store64 (mem t) r (PA2PTE pa OR perm OR PTE_V)\<rparr>"
    note lw = leaf_write [OF w(3) slot assms(2)]
    show thesis
    proof (rule mapped [of ?u us qs])
      show "mappages_loop pt (vpage n) e pa perm s =
          (if vpage n = e then Done 0 ?u else mappages_loop pt (vpage (Suc n)) e (pa + PGSIZE) perm ?u)"
        using False assms(3) \<open>load64 (mem t) r = vmap (mem s) pt n\<close>
        by (subst mappages_loop.simps) (simp add: w(1) valid_def vpage_Suc Let_def)
      show "pt_frame s ?u pt us" using pt_frame_trans [OF w(4) lw(2)] by simp
      show "vmap (mem ?u) pt = (vmap (mem s) pt)(n := PA2PTE pa OR perm OR PTE_V)"
        using lw(3) w(5) by simp
    qed (use w lw us in simp_all)
  qed
qed

lemma mappages_loop_maps:
  assumes "vm_ok s ps 2 pt" and "n + k < 67108864"
    and "\<forall>j. n \<le> j \<and> j \<le> n + k \<longrightarrow> \<not> valid (vmap (mem s) pt j)"
  shows "yields (mappages_loop pt (vpage n) (vpage (n + k)) pa perm s) (\<lambda>r t. \<exists>us qs d.
    ps = us @ qs \<and> vm_ok t qs 2 pt \<and> pt_frame s t pt us \<and>
    vmap (mem t) pt = map_range (vmap (mem s) pt) n d pa perm \<and>
    (if r = 0 then d = Suc k else r = -1 \<and> d \<le> k \<and> qs = []))"
  using assms
proof (induction k arbitrary: s ps n pa)
  case (0 s ps n pa)
  then have "n < 67108864" "\<not> valid (vmap (mem s) pt n)" by simp_all
  from 0(1) this show ?case
  proof (cases rule: mappages_first [where e = "vpage (n + 0)" and pa = pa and perm = perm])
    case (mapped u us qs)
    with map_range_Suc [of "vmap (mem s) pt" n pa perm 0] show ?thesis by auto
  qed auto
next
  case (Suc k s ps n pa)
  then have n: "n < 67108864" "\<not> valid (vmap (mem s) pt n)" by simp_all
  from Suc.prems(1) n show ?case
  proof (cases rule: mappages_first [where e = "vpage (n + Suc k)" and pa = pa and perm = perm])
    case (full t)
    then show ?thesis by simp (metis append_Nil2 le0 map_range_0)
  next
    case (mapped u us qs)
    have A: "mappages_loop pt (vpage n) (vpage (n + Suc k)) pa perm s =
        mappages_loop pt (vpage (Suc n)) (vpage (Suc n + k)) (pa + PGSIZE) perm u"
      using mapped(1) Suc.prems(2) by (simp add: vpage_inj)
    have IH: "yields (mappages_loop pt (vpage (Suc n)) (vpage (Suc n + k)) (pa + PGSIZE) perm u)
      (\<lambda>r t. \<exists>vs rs d. qs = vs @ rs \<and> vm_ok t rs 2 pt \<and> pt_frame u t pt vs \<and>
        vmap (mem t) pt = map_range (vmap (mem u) pt) (Suc n) d (pa + PGSIZE) perm \<and>
        (if r = 0 then d = Suc k else r = -1 \<and> d \<le> k \<and> rs = []))"
      using Suc.prems mapped by (intro Suc.IH) auto
    show ?thesis
      unfolding A
    proof (rule yields_mono [OF IH], elim exE conjE)
      fix r t vs rs d
      assume "qs = vs @ rs" "vm_ok t rs 2 pt" "pt_frame u t pt vs"
        "vmap (mem t) pt = map_range (vmap (mem u) pt) (Suc n) d (pa + PGSIZE) perm"
        "if r = 0 then d = Suc k else r = -1 \<and> d \<le> k \<and> rs = []"
      with mapped pt_frame_trans [OF mapped(4)] show "\<exists>us qs d. ps = us @ qs \<and> vm_ok t qs 2 pt \<and>
          pt_frame s t pt us \<and> vmap (mem t) pt = map_range (vmap (mem s) pt) n d pa perm \<and>
          (if r = 0 then d = Suc (Suc k) else r = -1 \<and> d \<le> Suc k \<and> qs = [])"
        by (intro exI [of _ "us @ vs"] exI [of _ rs] exI [of _ "Suc d"])
          (simp add: map_range_Suc split: if_splits)
    qed
  qed
qed

section \<open>Unmapping pages\<close>

text \<open>A change of memory in the page-table pages of \<open>pt\<close>, which stay the same, and in the pages \<open>P\<close>.\<close>

definition pt_keep :: "('a) kmem_scheme \<Rightarrow> ('a) kmem_scheme \<Rightarrow> uint64 \<Rightarrow> uint64 set \<Rightarrow> bool" where
  "pt_keep s t pt P \<longleftrightarrow> only_mem s t \<and> set (nodes (mem t) 2 pt) = set (nodes (mem s) 2 pt) \<and>
     same_outside (set (nodes (mem s) 2 pt) \<union> P) (mem s) (mem t)"

lemma pt_keep_refl [simp]: "pt_keep s s pt P"
  by (simp add: pt_keep_def)

lemma pt_keep_trans:
  assumes "pt_keep s t pt P" and "pt_keep t u pt Q" and "P \<union> Q \<subseteq> R"
  shows "pt_keep s u pt R"
proof -
  have "same_outside (set (nodes (mem s) 2 pt) \<union> P) (mem s) (mem t)"
    "same_outside (set (nodes (mem s) 2 pt) \<union> Q) (mem t) (mem u)"
    using assms by (simp_all add: pt_keep_def)
  from same_outside_trans [OF this] have "same_outside (set (nodes (mem s) 2 pt) \<union> R) (mem s) (mem u)"
    by (rule same_outside_mono) (use assms(3) in auto)
  with assms only_mem_trans show ?thesis by (auto simp: pt_keep_def)
qed

lemma pt_frame_keep: "pt_frame s t pt [] \<Longrightarrow> pt_keep s t pt {}"
  by (simp add: pt_frame_def pt_keep_def)

lemma kfree_vm:
  assumes "vm_ok s ps 2 pt" and "ram_page s p" and "p \<notin> set ps" and "p \<notin> set (nodes (mem s) 2 pt)"
  shows "yields (kfree p s) (\<lambda>_ t. vm_ok t (p # ps) 2 pt \<and> vmap (mem t) pt = vmap (mem s) pt \<and>
    leaf_slot (mem t) 2 pt = leaf_slot (mem s) 2 pt \<and> pt_keep s t pt {p} \<and>
    same_outside {p} (mem s) (mem t))"
proof -
  have inv: "kmem_inv s ps" using assms(1) by (simp add: vm_ok_def)
  show ?thesis
  proof (rule yields_mono [OF kfree_push [OF inv assms(2,3)]], elim conjE)
    fix u t assume t: "kmem_inv t (p # ps)" "only_mem s t" "same_outside {p} (mem s) (mem t)"
    have tree: "tree_ok (mem s) (ram_page s) 2 pt" and d: "set ps \<inter> set (nodes (mem s) 2 pt) = {}"
      using assms(1) by (simp_all add: vm_ok_def)
    have p: "\<forall>q \<in> {p}. page_aligned q" "set (nodes (mem s) 2 pt) \<inter> {p} = {}"
      using assms by (simp_all add: ram_page_aligned)
    note fr = tree_frame [OF tree t(3) p] and vf = vmap_frame [OF tree t(3) p]
    have "same_outside (set (nodes (mem s) 2 pt) \<union> {p}) (mem s) (mem t)"
      using t(3) by (rule same_outside_mono) simp
    with t fr vf d assms(4) show "vm_ok t (p # ps) 2 pt \<and> vmap (mem t) pt = vmap (mem s) pt \<and>
        leaf_slot (mem t) 2 pt = leaf_slot (mem s) 2 pt \<and> pt_keep s t pt {p} \<and> same_outside {p} (mem s) (mem t)"
      by (simp add: vm_ok_def pt_keep_def only_mem_keeps)
  qed
qed

lemma mapped_slot:
  assumes "vm_ok s ps 2 pt" and "n < 67108864" and "vmap (mem s) pt n \<noteq> 0"
  obtains a where "leaf_slot (mem s) 2 pt (vpage n) = Some a" and "a \<noteq> 0"
    and "load64 (mem s) a = vmap (mem s) pt n"
    and "\<And>m. leaf_slot m 2 pt = leaf_slot (mem s) 2 pt \<Longrightarrow> vmap m pt = vmap (mem s) pt \<Longrightarrow>
      load64 m a = vmap (mem s) pt n"
proof -
  have "pte_at (mem s) 2 pt (vpage n) \<noteq> 0" using assms(2,3) by (simp add: vmap_def)
  then obtain a where a: "leaf_slot (mem s) 2 pt (vpage n) = Some a"
    by (auto simp: pte_at_leaf_slot split: option.splits)
  have "tree_ok (mem s) (ram_page s) 2 pt" "kmem_inv s ps" using assms(1) by (simp_all add: vm_ok_def)
  then have "a \<noteq> 0" using leaf_slot_nonzero ram_page_nonzero a by metis
  moreover have v: "load64 m a = vmap (mem s) pt n"
    if "leaf_slot m 2 pt = leaf_slot (mem s) 2 pt" "vmap m pt = vmap (mem s) pt" for m
  proof -
    have "vmap m pt n = load64 m a" using that(1) a assms(2) by (simp add: vmap_def pte_at_leaf_slot)
    with that(2) show ?thesis by simp
  qed
  ultimately show thesis using that [OF a] v [of "mem s"] by simp
qed

text \<open>An entry that \<open>uvmunmap\<close> accepts.\<close>

definition leaf_pte :: "uint64 \<Rightarrow> bool" where
  "leaf_pte e \<longleftrightarrow> valid e \<and> PTE_FLAGS e \<noteq> PTE_V"

definition can_free :: "('a) kmem_scheme \<Rightarrow> uint64 list \<Rightarrow> uint64 \<Rightarrow> uint64 \<Rightarrow> bool" where
  "can_free s ps pt p \<longleftrightarrow> ram_page s p \<and> p \<notin> set ps \<and> p \<notin> set (nodes (mem s) 2 pt)"

lemma unmap_first:
  assumes s: "vm_ok s ps 2 pt" and n: "n < 67108864" and e: "leaf_pte (vmap (mem s) pt n)" "vpage n < e"
    and free: "do_free \<Longrightarrow> can_free s ps pt (PTE2PA (vmap (mem s) pt n))"
  obtains u where "uvmunmap_loop pt (vpage n) e do_free s = uvmunmap_loop pt (vpage (Suc n)) e do_free u"
    and "vm_ok u (if do_free then PTE2PA (vmap (mem s) pt n) # ps else ps) 2 pt"
    and "vmap (mem u) pt = (vmap (mem s) pt)(n := 0)"
    and "pt_keep s u pt (if do_free then {PTE2PA (vmap (mem s) pt n)} else {})"
proof -
  let ?v = "vmap (mem s) pt n"
  have "?v \<noteq> 0" using e by (auto simp: leaf_pte_def valid_def)
  from mapped_slot [OF s n this] obtain a where a: "leaf_slot (mem s) 2 pt (vpage n) = Some a" "a \<noteq> 0"
    "load64 (mem s) a = ?v" by metis
  have loop: "uvmunmap_loop pt (vpage n) e do_free s =
      obind (if do_free then kfree (PTE2PA ?v) s else Done () s) (\<lambda>_ t.
        uvmunmap_loop pt (vpage (Suc n)) e do_free (t\<lparr>mem := store64 (mem t) a 0\<rparr>))"
    using a e by (subst uvmunmap_loop.simps)
      (simp add: walk_lookup [OF vpage_below [OF n]] leaf_pte_def valid_def vpage_Suc Let_def)
  obtain t where t: "(if do_free then kfree (PTE2PA ?v) s else Done () s) = Done () t"
    "vm_ok t (if do_free then PTE2PA ?v # ps else ps) 2 pt" "vmap (mem t) pt = vmap (mem s) pt"
    "leaf_slot (mem t) 2 pt = leaf_slot (mem s) 2 pt"
    "pt_keep s t pt (if do_free then {PTE2PA ?v} else {})"
  proof (cases do_free)
    case True
    with kfree_vm [OF s] free obtain t where "kfree (PTE2PA ?v) s = Done () t"
      "vm_ok t (PTE2PA ?v # ps) 2 pt" "vmap (mem t) pt = vmap (mem s) pt"
      "leaf_slot (mem t) 2 pt = leaf_slot (mem s) 2 pt" "pt_keep s t pt {PTE2PA ?v}"
      by (fastforce simp: can_free_def yields_iff)
    with True that show thesis by simp
  next
    case False
    with that s show thesis by simp
  qed
  have slot: "leaf_slot (mem t) 2 pt (vpage n) = Some a" using t a by simp
  note lw = leaf_write [OF t(2) slot n, of 0]
  show thesis
  proof (rule that)
    show "uvmunmap_loop pt (vpage n) e do_free s =
        uvmunmap_loop pt (vpage (Suc n)) e do_free (t\<lparr>mem := store64 (mem t) a 0\<rparr>)"
      using loop t(1) by simp
    show "pt_keep s (t\<lparr>mem := store64 (mem t) a 0\<rparr>) pt (if do_free then {PTE2PA ?v} else {})"
      using pt_keep_trans [OF t(5) pt_frame_keep [OF lw(2)]] by auto
  qed (use lw t in simp_all)
qed

lemma uvmunmap_loop_unmaps:
  assumes "vm_ok s ps 2 pt" and "n + k \<le> 67108864"
    and "\<forall>j. n \<le> j \<and> j < n + k \<longrightarrow> leaf_pte (vmap (mem s) pt j) \<and>
      (do_free \<longrightarrow> can_free s ps pt (PTE2PA (vmap (mem s) pt j)))"
    and "do_free \<longrightarrow> distinct (map (\<lambda>j. PTE2PA (vmap (mem s) pt j)) [n..<n + k])"
    and "F = map (\<lambda>j. PTE2PA (vmap (mem s) pt j)) [n..<n + k]"
  shows "yields (uvmunmap_loop pt (vpage n) (vpage (n + k)) do_free s) (\<lambda>_ t.
    vm_ok t (if do_free then rev F @ ps else ps) 2 pt \<and>
    vmap (mem t) pt = (\<lambda>j. if n \<le> j \<and> j < n + k then 0 else vmap (mem s) pt j) \<and>
    pt_keep s t pt (if do_free then set F else {}))"
  using assms
proof (induction k arbitrary: s ps n F)
  case 0
  then show ?case by (subst uvmunmap_loop.simps) (auto simp: fun_eq_iff)
next
  case (Suc k s ps n F)
  let ?p = "PTE2PA (vmap (mem s) pt n)"
  let ?G = "map (\<lambda>j. PTE2PA (vmap (mem s) pt j)) [Suc n..<Suc n + k]"
  have F: "F = ?p # ?G" using Suc.prems(5) by (simp add: upt_conv_Cons del: upt_Suc)
  have n: "n < 67108864" using Suc.prems(2) by simp
  have lt: "vpage n < vpage (n + Suc k)"
    using Suc.prems(2) by (simp add: word_less_nat_alt unat_vpage)
  have leaf: "leaf_pte (vmap (mem s) pt n)" and free: "do_free \<Longrightarrow> can_free s ps pt ?p"
    using Suc.prems(3) by simp_all
  obtain u where u': "uvmunmap_loop pt (vpage n) (vpage (n + Suc k)) do_free s =
      uvmunmap_loop pt (vpage (Suc n)) (vpage (n + Suc k)) do_free u"
    and uok: "vm_ok u (if do_free then ?p # ps else ps) 2 pt"
    and uv: "vmap (mem u) pt = (vmap (mem s) pt)(n := 0)"
    and uk: "pt_keep s u pt (if do_free then {?p} else {})"
    using unmap_first [OF Suc.prems(1) n leaf lt free] by metis
  have u: "uvmunmap_loop pt (vpage n) (vpage (n + Suc k)) do_free s =
      uvmunmap_loop pt (vpage (Suc n)) (vpage (Suc n + k)) do_free u" using u' by simp
  have keep: "only_mem s u" "set (nodes (mem u) 2 pt) = set (nodes (mem s) 2 pt)"
    using uk by (simp_all add: pt_keep_def)
  have d: "do_free \<longrightarrow> distinct (?p # ?G)" using Suc.prems(4,5) F by simp
  have G: "?G = map (\<lambda>j. PTE2PA (vmap (mem u) pt j)) [Suc n..<Suc n + k]"
    by (rule map_cong) (auto simp: uv)
  have inG: "PTE2PA (vmap (mem s) pt j) \<noteq> ?p" if "do_free" "Suc n \<le> j" "j < Suc n + k" for j
  proof -
    have "PTE2PA (vmap (mem s) pt j) \<in> set ?G" using that by (auto simp del: upt_Suc)
    with d that(1) show ?thesis by (metis distinct.simps(2))
  qed
  have "yields (uvmunmap_loop pt (vpage (Suc n)) (vpage (Suc n + k)) do_free u) (\<lambda>_ t.
    vm_ok t (if do_free then rev ?G @ (if do_free then ?p # ps else ps) else (if do_free then ?p # ps else ps)) 2 pt \<and>
    vmap (mem t) pt = (\<lambda>j. if Suc n \<le> j \<and> j < Suc n + k then 0 else vmap (mem u) pt j) \<and>
    pt_keep u t pt (if do_free then set ?G else {}))"
  proof (rule Suc.IH [OF uok _ _ _ G])
    show "\<forall>j. Suc n \<le> j \<and> j < Suc n + k \<longrightarrow> leaf_pte (vmap (mem u) pt j) \<and>
        (do_free \<longrightarrow> can_free u (if do_free then ?p # ps else ps) pt (PTE2PA (vmap (mem u) pt j)))"
      using Suc.prems(3) d keep inG by (auto simp: uv can_free_def only_mem_keeps simp del: upt_Suc)
    show "do_free \<longrightarrow> distinct (map (\<lambda>j. PTE2PA (vmap (mem u) pt j)) [Suc n..<Suc n + k])"
      using d unfolding G [symmetric] by simp
  qed (use Suc.prems(2) in simp)
  then show ?case
    unfolding u
  proof (rule yields_mono, elim conjE, intro conjI)
    fix x t
    assume *: "vmap (mem t) pt = (\<lambda>j. if Suc n \<le> j \<and> j < Suc n + k then 0 else vmap (mem u) pt j)"
      "pt_keep u t pt (if do_free then set ?G else {})"
      "vm_ok t (if do_free then rev ?G @ (if do_free then ?p # ps else ps) else (if do_free then ?p # ps else ps)) 2 pt"
    show "vm_ok t (if do_free then rev F @ ps else ps) 2 pt" using *(3) F by (simp split: if_splits)
    show "vmap (mem t) pt = (\<lambda>j. if n \<le> j \<and> j < n + Suc k then 0 else vmap (mem s) pt j)"
      using *(1) by (auto simp: uv fun_eq_iff)
    show "pt_keep s t pt (if do_free then set F else {})"
      by (rule pt_keep_trans [OF uk *(2)]) (auto simp: F)
  qed
qed

section \<open>Properties\<close>

text \<open>A kernel with an empty page table at \<open>pt\<close> and the free pages \<open>ps\<close>.\<close>

lemma pool_vm:
  assumes "distinct (pt # ps)" and "\<forall>p \<in> set (pt # ps). page_aligned p \<and> e \<le> p \<and> p < PHYSTOP"
    and "KERNBASE \<le> e" and "e \<le> PHYSTOP"
  shows "vm_ok (pool e ps) ps 2 pt" and "vmap (mem (pool e ps)) pt n = 0"
proof -
  have inv: "kmem_inv (pool e ps) ps" using assms by (intro pool_inv) auto
  have al: "\<forall>p \<in> set ps. page_aligned p" "page_aligned pt" "pt \<notin> set ps" using assms by auto
  have "entry (pool_mem ps) pt i = 0" if "i < 512" for i
    using entry_same_outside [OF pool_mem_outside [OF al(1)] al(1,2,3) that] by (simp add: entry_def)
  moreover have "mem (pool e ps) = pool_mem ps" by (simp add: pool_def)
  moreover have "ram_page (pool e ps) pt" using assms by (simp add: ram_page_def pool_def)
  ultimately have "nodes (mem (pool e ps)) 2 pt = [pt] \<and> tree_ok (mem (pool e ps)) (ram_page (pool e ps)) 2 pt \<and>
      (\<forall>v. pte_at (mem (pool e ps)) 2 pt v = 0)"
    using empty_tree [of "pool_mem ps" pt "ram_page (pool e ps)" 2] al by simp
  with inv al show "vm_ok (pool e ps) ps 2 pt" "vmap (mem (pool e ps)) pt n = 0"
    by (simp_all add: vm_ok_def vmap_def)
qed

text \<open>
  C27. \<open>mappages\<close> on a range of unmapped pages below \<open>MAXVA\<close> maps exactly the pages the range
  touches, to consecutive physical pages with the given permissions, and leaves every other
  translation as it was. It returns -1 only when the allocator ran out of pages; then a prefix of
  the range is mapped. The pages it takes for the page table come from the free list, and memory
  outside of the page table is not written.
\<close>

theorem mappages_maps_range:
  assumes "vm_ok s ps 2 pt" and "0 < sz" and "unat va + unat sz \<le> unat MAXVA"
    and "n = unat va div 4096" and "n + k = (unat va + unat sz - 1) div 4096"
    and "\<forall>j. n \<le> j \<and> j \<le> n + k \<longrightarrow> \<not> valid (vmap (mem s) pt j)"
  shows "yields (mappages pt va sz pa perm s) (\<lambda>r t. \<exists>us qs d.
    ps = us @ qs \<and> vm_ok t qs 2 pt \<and> pt_frame s t pt us \<and>
    vmap (mem t) pt = map_range (vmap (mem s) pt) n d pa perm \<and>
    (if r = 0 then d = Suc k else r = -1 \<and> d \<le> k \<and> qs = []))"
proof -
  have sz: "0 < unat sz" "unat va + unat sz \<le> 274877906944" using assms(2,3) by (simp_all add: word_less_nat_alt)
  have end_: "unat (va + sz - 1) = unat va + unat sz - 1"
  proof -
    have "1 \<le> sz" using sz(1) by (simp add: word_le_nat_alt)
    then have "unat (sz - 1) = unat sz - 1" by (simp add: unat_sub)
    moreover have split: "va + sz - 1 = va + (sz - 1)" by simp
    ultimately show ?thesis using sz unfolding split unat_word_ariths by simp
  qed
  have nk: "n + k < 67108864" unfolding assms(5) using sz by (simp add: div_less_iff_less_mult)
  then have "PGROUNDDOWN va = vpage n" "PGROUNDDOWN (va + sz - 1) = vpage (n + k)"
    using assms(4,5) by (simp_all add: word_unat_eq_iff unat_PGROUNDDOWN unat_vpage end_)
  with assms(2) have "mappages pt va sz pa perm s = mappages_loop pt (vpage n) (vpage (n + k)) pa perm s"
    by (auto simp: mappages_def)
  with mappages_loop_maps [OF assms(1) nk assms(6)] show ?thesis by simp
qed

theorem mappages_maps_range_witness:
  "yields (mappages 0x80030000 0x1008 0x1000 0x87000000 (PTE_R OR PTE_W) (pool 0x80010000 [0x80020000, 0x80021000]))
    (\<lambda>r t. \<exists>d. vmap (mem t) 0x80030000 = map_range (\<lambda>_. 0) 1 d 0x87000000 (PTE_R OR PTE_W))"
proof -
  have "\<forall>p \<in> set [0x80030000, 0x80020000, 0x80021000]. page_aligned p \<and> 0x80010000 \<le> p \<and> p < PHYSTOP"
    by (simp add: page_aligned_def)
  note p = pool_vm [OF _ this, simplified]
  then have "vmap (mem (pool 0x80010000 [0x80020000, 0x80021000])) 0x80030000 = (\<lambda>_. 0)" by auto
  with mappages_maps_range [OF p(1), where sz = "0x1000" and va = "0x1008" and n = 1 and k = 1
      and pa = "0x87000000" and perm = "PTE_R OR PTE_W"] show ?thesis
    by (auto simp: valid_def elim!: yields_mono)
qed

end
