(* ===== verification/Vm_User.thy ===== *)
theory Vm_User
  imports Vm_Map
begin

text \<open>
  User address spaces: the first \<open>n\<close> virtual pages of a process are mapped to distinct pages of
  its own, up to the trapframe page everything else is unmapped (\<open>uvm_ok\<close>). The lemmas show that
  growing, shrinking, copying and freeing an address space keep this invariant, never touch
  memory outside the pages involved, and neither lose nor duplicate a physical page: \<open>owned\<close>, the
  set of free pages, page-table pages and user pages, is the same before and after.
\<close>

section \<open>Well-formed address spaces\<close>

abbreviation (input) utop :: nat where "utop \<equiv> 67108862"

definition upages :: "(nat \<Rightarrow> uint64) \<Rightarrow> nat \<Rightarrow> uint64 list" where
  "upages f n = map (\<lambda>j. PTE2PA (f j)) [0..<n]"

definition uvm_ok :: "('a) kmem_scheme \<Rightarrow> uint64 list \<Rightarrow> uint64 \<Rightarrow> nat \<Rightarrow> bool" where
  "uvm_ok s ps pt n \<longleftrightarrow> vm_ok s ps 2 pt \<and> n \<le> utop \<and>
     (\<forall>j < n. leaf_pte (vmap (mem s) pt j) \<and> can_free s ps pt (PTE2PA (vmap (mem s) pt j))) \<and>
     distinct (upages (vmap (mem s) pt) n) \<and>
     (\<forall>j. n \<le> j \<and> j < utop \<longrightarrow> \<not> valid (vmap (mem s) pt j))"

definition owned :: "('a) kmem_scheme \<Rightarrow> uint64 list \<Rightarrow> uint64 \<Rightarrow> nat \<Rightarrow> uint64 set" where
  "owned s ps pt n = set ps \<union> set (nodes (mem s) 2 pt) \<union> set (upages (vmap (mem s) pt) n)"

text \<open>
  \<open>uvm_rel k s ps n t qs n' pt\<close>: the address space went from \<open>n\<close> to \<open>n'\<close> pages and kept the
  mapping and the contents of its first \<open>k\<close> pages.
\<close>

definition uvm_rel :: "nat \<Rightarrow> ('a) kmem_scheme \<Rightarrow> uint64 list \<Rightarrow> nat \<Rightarrow> ('a) kmem_scheme \<Rightarrow> uint64 list \<Rightarrow> nat \<Rightarrow> uint64 \<Rightarrow> bool" where
  "uvm_rel k s ps n t qs n' pt \<longleftrightarrow> uvm_ok t qs pt n' \<and> only_mem s t \<and>
     owned t qs pt n' = owned s ps pt n \<and>
     (\<forall>j. j < k \<or> utop \<le> j \<longrightarrow> vmap (mem t) pt j = vmap (mem s) pt j) \<and>
     same_outside (owned s ps pt n - set (upages (vmap (mem s) pt) k)) (mem s) (mem t)"

lemma upages_cong: "(\<And>j. j < n \<Longrightarrow> f j = g j) \<Longrightarrow> upages f n = upages g n"
  by (simp add: upages_def)

lemma upages_Suc: "upages f (Suc n) = upages f n @ [PTE2PA (f n)]"
  by (simp add: upages_def)

lemma set_upages: "set (upages f n) = (\<lambda>j. PTE2PA (f j)) ` {j. j < n}"
  by (auto simp: upages_def)

lemma uvm_rel_refl: "uvm_ok s ps pt n \<Longrightarrow> uvm_rel k s ps n s ps n pt"
  by (simp add: uvm_rel_def)

lemma uvm_rel_trans:
  assumes "uvm_rel k s ps n t qs n' pt" and "uvm_rel k t qs n' u rs n'' pt"
  shows "uvm_rel k s ps n u rs n'' pt"
proof -
  have "upages (vmap (mem t) pt) k = upages (vmap (mem s) pt) k"
    using assms(1) by (intro upages_cong) (simp add: uvm_rel_def)
  moreover have "owned t qs pt n' = owned s ps pt n" using assms(1) by (simp add: uvm_rel_def)
  ultimately have "same_outside (owned s ps pt n - set (upages (vmap (mem s) pt) k)) (mem t) (mem u)"
    using assms(2) by (simp add: uvm_rel_def)
  moreover have "same_outside (owned s ps pt n - set (upages (vmap (mem s) pt) k)) (mem s) (mem t)"
    using assms(1) by (simp add: uvm_rel_def)
  ultimately have "same_outside (owned s ps pt n - set (upages (vmap (mem s) pt) k)) (mem s) (mem u)"
    by (simp add: same_outside_def)
  with assms only_mem_trans show ?thesis unfolding uvm_rel_def by metis
qed

lemma uvm_rel_mono:
  assumes "uvm_rel k s ps n t qs n' pt" and "i \<le> k"
  shows "uvm_rel i s ps n t qs n' pt"
proof -
  have "set (upages (vmap (mem s) pt) i) \<subseteq> set (upages (vmap (mem s) pt) k)"
    using assms(2) by (auto simp: set_upages)
  then have "same_outside (owned s ps pt n - set (upages (vmap (mem s) pt) i)) (mem s) (mem t)"
    using assms(1) unfolding uvm_rel_def by (blast intro: same_outside_mono)
  with assms show ?thesis by (auto simp: uvm_rel_def)
qed

lemma uvm_ok_disjoint:
  assumes "uvm_ok s ps pt n"
  shows "set (upages (vmap (mem s) pt) n) \<inter> set ps = {}"
    and "set (upages (vmap (mem s) pt) n) \<inter> set (nodes (mem s) 2 pt) = {}"
    and "set ps \<inter> set (nodes (mem s) 2 pt) = {}"
    and "\<forall>p \<in> owned s ps pt n. page_aligned p"
proof -
  show "set (upages (vmap (mem s) pt) n) \<inter> set ps = {}"
    and "set (upages (vmap (mem s) pt) n) \<inter> set (nodes (mem s) 2 pt) = {}"
    and "set ps \<inter> set (nodes (mem s) 2 pt) = {}"
    using assms by (auto simp: uvm_ok_def can_free_def set_upages vm_ok_def)
  have "\<forall>p \<in> set (upages (vmap (mem s) pt) n). page_aligned p"
    using assms by (auto simp: uvm_ok_def can_free_def set_upages ram_page_def)
  moreover have "\<forall>p \<in> set ps \<union> set (nodes (mem s) 2 pt). page_aligned p"
    using assms vm_ok_free(1) vm_ok_nodes(1) by (fastforce simp: uvm_ok_def)
  ultimately show "\<forall>p \<in> owned s ps pt n. page_aligned p" by (auto simp: owned_def)
qed

lemma uvm_ok_settle: "uvm_ok s ps pt n \<Longrightarrow> uvm_rel k s ps n (settle s) ps n pt"
  by (simp add: uvm_rel_def uvm_ok_def vm_ok_def kmem_inv_def can_free_def owned_def)

section \<open>One page\<close>

lemma mappages_page:
  assumes "n < 67108864"
  shows "mappages pt (vpage n) PGSIZE pa perm s = mappages_loop pt (vpage n) (vpage n) pa perm s"
proof -
  have "unat (vpage n + PGSIZE - 1) = 4096 * n + 4095"
  proof -
    have "vpage n + PGSIZE - 1 = of_nat (4096 * n + 4095)" by (simp add: vpage_def)
    then show ?thesis using assms by (simp only: unat_of_nat) simp
  qed
  then have "PGROUNDDOWN (vpage n + PGSIZE - 1) = vpage n"
    using assms by (simp add: word_unat_eq_iff unat_PGROUNDDOWN unat_vpage)
  with assms vpage_aligned [of n] show ?thesis
    by (simp add: mappages_def PGROUNDDOWN_aligned)
qed

lemma mappages_one:
  assumes "vm_ok s ps 2 pt" and "n < 67108864" and "\<not> valid (vmap (mem s) pt n)"
  obtains
    (full) t where "mappages pt (vpage n) PGSIZE pa perm s = Done (-1) t" and "vm_ok t [] 2 pt"
      and "pt_frame s t pt ps" and "vmap (mem t) pt = vmap (mem s) pt" and "length ps < 2"
  | (mapped) u us qs where "mappages pt (vpage n) PGSIZE pa perm s = Done 0 u"
      and "ps = us @ qs" and "vm_ok u qs 2 pt" and "pt_frame s u pt us"
      and "vmap (mem u) pt = (vmap (mem s) pt)(n := PA2PTE pa OR perm OR PTE_V)" and "length us \<le> 2"
  using mappages_first [OF assms, where e = "vpage n" and pa = pa and perm = perm, of thesis]
  by (simp add: mappages_page [OF assms(2)])

lemma kalloc_vm:
  assumes "vm_ok s (p # ps) 2 pt"
  shows "yields (kalloc s) (\<lambda>r t. r = p \<and> vm_ok t ps 2 pt \<and> only_mem s t \<and>
    same_outside {p} (mem s) (mem t) \<and> vmap (mem t) pt = vmap (mem s) pt \<and>
    nodes (mem t) 2 pt = nodes (mem s) 2 pt)"
proof -
  have inv: "kmem_inv s (p # ps)" and tree: "tree_ok (mem s) (ram_page s) 2 pt"
    using assms by (simp_all add: vm_ok_def)
  have p: "\<forall>q \<in> {p}. page_aligned q" "set (nodes (mem s) 2 pt) \<inter> {p} = {}"
    using vm_ok_free [OF assms, of p] by simp_all
  from kalloc_pop [OF inv] show ?thesis
  proof (rule yields_mono, elim conjE)
    fix r t assume t: "r = p" "kmem_inv t ps" "only_mem s t" "same_outside {p} (mem s) (mem t)"
    note fr = tree_frame [OF tree t(4) p] and vf = vmap_frame [OF tree t(4) p]
    show "r = p \<and> vm_ok t ps 2 pt \<and> only_mem s t \<and> same_outside {p} (mem s) (mem t) \<and>
        vmap (mem t) pt = vmap (mem s) pt \<and> nodes (mem t) 2 pt = nodes (mem s) 2 pt"
      using t fr vf assms by (simp add: vm_ok_def only_mem_keeps)
  qed
qed

text \<open>Writing a page that is neither free nor part of the page table.\<close>

lemma write_vm:
  assumes "vm_ok s ps 2 pt" and "same_outside {p} (mem s) m" and "page_aligned p"
    and "p \<notin> set ps" and "p \<notin> set (nodes (mem s) 2 pt)"
  shows "vm_ok (s\<lparr>mem := m\<rparr>) ps 2 pt" and "vmap m pt = vmap (mem s) pt"
    and "nodes m 2 pt = nodes (mem s) 2 pt"
proof -
  have tree: "tree_ok (mem s) (ram_page s) 2 pt" and inv: "kmem_inv s ps"
    using assms(1) by (simp_all add: vm_ok_def)
  have p: "\<forall>q \<in> {p}. page_aligned q" "set (nodes (mem s) 2 pt) \<inter> {p} = {}" "set ps \<inter> {p} = {}"
    using assms by simp_all
  note fr = tree_frame [OF tree assms(2) p(1,2)]
  show "vmap m pt = vmap (mem s) pt" by (rule vmap_frame [OF tree assms(2) p(1,2)])
  show "nodes m 2 pt = nodes (mem s) 2 pt" by (rule fr)
  with fr kmem_inv_write [OF inv assms(2) p(1,3)] assms(1) show "vm_ok (s\<lparr>mem := m\<rparr>) ps 2 pt"
    by (simp add: vm_ok_def)
qed

section \<open>Growing\<close>

abbreviation (input) uperm :: uint64 where "uperm \<equiv> PTE_W OR PTE_X OR PTE_R OR PTE_U"

lemma uperm_leaf:
  assumes "ram_page s p"
  shows "leaf_pte (PA2PTE p OR uperm OR PTE_V)" and "PTE2PA (PA2PTE p OR uperm OR PTE_V) = p"
proof -
  have "uperm OR PTE_V = 31" by simp
  then have eq: "PA2PTE p OR uperm OR PTE_V = PA2PTE p OR 31" by (simp add: or.assoc)
  show "PTE2PA (PA2PTE p OR uperm OR PTE_V) = p"
    unfolding eq by (rule ram_page_PTE [OF assms]) simp
  have "PTE_FLAGS (PA2PTE p OR 31) = 31" by (rule PTE_FLAGS_PA2PTE) simp
  moreover have "valid (PA2PTE p OR uperm OR PTE_V)"
    using valid_or_V [of "PA2PTE p OR uperm"] by (simp only: or.assoc)
  ultimately show "leaf_pte (PA2PTE p OR uperm OR PTE_V)" unfolding eq by (simp add: leaf_pte_def)
qed

text \<open>The pages that are free after a page was taken and mapped as user page number \<open>n\<close>.\<close>

lemma uvm_extend:
  assumes s: "uvm_ok s (p # rs) pt n" and n: "n < utop"
    and t: "only_mem s t" "same_outside {p} (mem s) (mem t)" "vmap (mem t) pt = vmap (mem s) pt"
      "nodes (mem t) 2 pt = nodes (mem s) 2 pt"
    and u: "rs = us @ qs" "vm_ok u qs 2 pt" "pt_frame t u pt us" "vmap (mem u) pt = (vmap (mem s) pt)(n := e)"
    and e: "leaf_pte e" "PTE2PA e = p"
  shows "uvm_rel n s (p # rs) n u qs (Suc n) pt"
proof -
  have vs: "vm_ok s (p # rs) 2 pt" using s by (simp add: uvm_ok_def)
  have om: "only_mem s u" using t(1) u(3) only_mem_trans by (auto simp: pt_frame_def)
  have nodes': "set (nodes (mem u) 2 pt) = set (nodes (mem s) 2 pt) \<union> set us"
    using u(3) t(4) by (simp add: pt_frame_def)
  have up: "upages ((vmap (mem s) pt)(n := e)) n = upages (vmap (mem s) pt) n"
    by (rule upages_cong) simp
  have dp: "distinct (p # rs)" using vs by (simp add: vm_ok_def kmem_inv_def)
  note disj = uvm_ok_disjoint(1-3) [OF s]
  have "owned u qs pt (Suc n) = owned s (p # rs) pt n"
    by (auto simp: owned_def nodes' up upages_Suc u e)
  moreover have "uvm_ok u qs pt (Suc n)"
    unfolding uvm_ok_def
  proof (intro conjI allI impI)
    fix j assume j: "j < Suc n"
    show "leaf_pte (vmap (mem u) pt j)" using s j e by (auto simp: uvm_ok_def u less_Suc_eq)
    show "can_free u qs pt (PTE2PA (vmap (mem u) pt j))"
    proof (cases "j = n")
      case True
      with vm_ok_free [OF vs, of p] dp show ?thesis
        by (simp add: can_free_def u e nodes' only_mem_keeps [OF om])
    next
      case False
      with j have "PTE2PA (vmap (mem s) pt j) \<in> set (upages (vmap (mem s) pt) n)" by (auto simp: set_upages)
      with disj have "PTE2PA (vmap (mem s) pt j) \<notin> set (p # rs) \<union> set (nodes (mem s) 2 pt)" by blast
      with s j False show ?thesis
        by (auto simp: uvm_ok_def can_free_def u nodes' only_mem_keeps [OF om])
    qed
  next
    show "distinct (upages (vmap (mem u) pt) (Suc n))"
      using s disj by (auto simp: uvm_ok_def upages_Suc up u e)
  qed (use s n u in \<open>auto simp: uvm_ok_def\<close>)
  moreover have "same_outside (owned s (p # rs) pt n - set (upages (vmap (mem s) pt) n)) (mem s) (mem u)"
  proof -
    have "same_outside (set (nodes (mem s) 2 pt) \<union> set us) (mem t) (mem u)"
      using u(3) t(4) by (simp add: pt_frame_def)
    from same_outside_trans [OF t(2) this] show ?thesis
      by (rule same_outside_mono) (use disj u(1) in \<open>auto simp: owned_def\<close>)
  qed
  ultimately show ?thesis using om n by (simp add: uvm_rel_def u)
qed

text \<open>The page table took every free page and then the page was put back.\<close>

lemma uvm_put_back:
  assumes s: "uvm_ok s (p # rs) pt n"
    and t: "only_mem s t" "same_outside {p} (mem s) (mem t)" "vmap (mem t) pt = vmap (mem s) pt"
      "nodes (mem t) 2 pt = nodes (mem s) 2 pt"
    and u: "vm_ok u [] 2 pt" "pt_frame t u pt rs" "vmap (mem u) pt = vmap (mem s) pt"
  shows "yields (kfree p u) (\<lambda>_ v. uvm_rel n s (p # rs) n v [p] n pt)"
proof -
  have vs: "vm_ok s (p # rs) 2 pt" using s by (simp add: uvm_ok_def)
  have om: "only_mem s u" using t(1) u(2) only_mem_trans by (auto simp: pt_frame_def)
  have nodes': "set (nodes (mem u) 2 pt) = set (nodes (mem s) 2 pt) \<union> set rs"
    and so: "same_outside (set (nodes (mem s) 2 pt) \<union> set rs) (mem t) (mem u)"
    using u(2) t(4) by (simp_all add: pt_frame_def)
  have dp: "distinct (p # rs)" using vs by (simp add: vm_ok_def kmem_inv_def)
  have p: "ram_page u p" "p \<notin> set []" "p \<notin> set (nodes (mem u) 2 pt)"
    using vm_ok_free [OF vs, of p] dp by (simp_all add: nodes' only_mem_keeps [OF om])
  note disj = uvm_ok_disjoint(1-3) [OF s]
  show ?thesis
  proof (rule yields_mono [OF kfree_vm [OF u(1) p]], elim conjE)
    fix x v assume v: "vm_ok v [p] 2 pt" "vmap (mem v) pt = vmap (mem u) pt" "pt_keep u v pt {p}"
      "same_outside {p} (mem u) (mem v)"
    have omv: "only_mem s v" and nv: "set (nodes (mem v) 2 pt) = set (nodes (mem s) 2 pt) \<union> set rs"
      using v(3) nodes' om only_mem_trans by (auto simp: pt_keep_def)
    have "same_outside (owned s (p # rs) pt n - set (upages (vmap (mem s) pt) n)) (mem s) (mem v)"
      by (rule same_outside_mono [OF same_outside_trans [OF same_outside_trans [OF t(2) so] v(4)]])
        (use disj in \<open>auto simp: owned_def\<close>)
    moreover have "uvm_ok v [p] pt n"
      using s v u disj by (auto simp: uvm_ok_def can_free_def nv set_upages only_mem_keeps [OF omv])
    moreover have "owned v [p] pt n = owned s (p # rs) pt n"
      by (auto simp: owned_def nv v u)
    ultimately show "uvm_rel n s (p # rs) n v [p] n pt"
      using omv v u by (simp add: uvm_rel_def)
  qed
qed

section \<open>Sizes\<close>

definition npages :: "uint64 \<Rightarrow> nat" where
  "npages sz = (unat sz + 4095) div 4096"

lemma PGROUNDUP_vpage:
  assumes "npages sz \<le> 67108864"
  shows "PGROUNDUP sz = vpage (npages sz)"
proof -
  have "unat sz + 4095 < 67108865 * 4096"
    using assms unfolding npages_def by (simp flip: less_Suc_eq_le add: div_less_iff_less_mult)
  then show ?thesis
    using assms by (simp add: word_unat_eq_iff unat_PGROUNDUP unat_vpage npages_def mult.commute)
qed

lemma vpage_less_iff:
  assumes "n \<le> 67108864"
  shows "vpage n < sz \<longleftrightarrow> n < npages sz"
proof -
  have "4096 * n < unat sz \<longleftrightarrow> n < (unat sz + 4095) div 4096"
    by (simp add: less_eq_Suc_le [of n] less_eq_div_iff_mult_less_eq) presburger
  then show ?thesis using assms by (simp add: word_less_nat_alt unat_vpage npages_def)
qed

lemma npages_mono: "a \<le> b \<Longrightarrow> npages a \<le> npages b"
  by (simp add: npages_def word_le_nat_alt div_le_mono)

lemma npages_vpage [simp]: "n \<le> 67108864 \<Longrightarrow> npages (vpage n) = n"
  by (simp add: npages_def unat_vpage)

lemma vpage_diff:
  assumes "m \<le> n" and "n \<le> 67108864"
  shows "(vpage n - vpage m) div PGSIZE = of_nat (n - m)"
    and "vpage m + of_nat (n - m) * PGSIZE = vpage n"
proof -
  have d: "vpage n - vpage m = vpage (n - m)"
    using assms(1) by (simp add: vpage_def of_nat_diff algebra_simps)
  have "unat (of_nat (n - m) :: uint64) = n - m" using assms by (simp only: unat_of_nat) simp
  then show "(vpage n - vpage m) div PGSIZE = of_nat (n - m)"
    unfolding d using assms by (simp only: word_unat_eq_iff unat_div unat_vpage) (simp add: unat_vpage)
  have "of_nat (n - m) * PGSIZE = vpage (n - m)" by (simp add: vpage_def)
  with d show "vpage m + of_nat (n - m) * PGSIZE = vpage n" by (metis add_diff_cancel_left' diff_add_cancel add.commute)
qed

lemma int_npages:
  assumes "k < 2147483648"
  shows "(scast (ucast (of_nat k :: uint64) :: uint32) :: uint64) = of_nat k"
proof -
  have k: "\<not> bit k n" if "31 \<le> n" for n
  proof -
    have "k < 2 ^ n" using assms power_increasing [OF that, of "2 :: nat"] by simp
    then show ?thesis by (simp add: bit_iff_odd)
  qed
  show ?thesis
    using k by (intro bit_word_eqI) (auto simp: bit_simps min_def not_less)
qed

section \<open>Shrinking\<close>

lemma uvmunmap_shrinks:
  assumes s: "uvm_ok s ps pt n" and m: "m \<le> n"
  shows "yields (uvmunmap pt (vpage m) (of_nat (n - m)) True s) (\<lambda>_ t. \<exists>qs. uvm_rel m s ps n t qs m pt)"
proof -
  let ?F = "map (\<lambda>j. PTE2PA (vmap (mem s) pt j)) [m..<m + (n - m)]"
  have n: "m + (n - m) = n" "n \<le> utop" using s m by (simp_all add: uvm_ok_def)
  have all: "upages (vmap (mem s) pt) n = upages (vmap (mem s) pt) m @ ?F"
    using m upt_add_eq_append [of 0 m "n - m"] by (simp add: upages_def)
  have d: "distinct (upages (vmap (mem s) pt) m @ ?F)" using s all by (simp add: uvm_ok_def)
  note disj = uvm_ok_disjoint [OF s]
  have "yields (uvmunmap_loop pt (vpage m) (vpage (m + (n - m))) True s) (\<lambda>_ t.
    vm_ok t (if True then rev ?F @ ps else ps) 2 pt \<and>
    vmap (mem t) pt = (\<lambda>j. if m \<le> j \<and> j < m + (n - m) then 0 else vmap (mem s) pt j) \<and>
    pt_keep s t pt (if True then set ?F else {}))"
    using s n d by (intro uvmunmap_loop_unmaps) (auto simp: uvm_ok_def)
  then have "yields (uvmunmap_loop pt (vpage m) (vpage n) True s) (\<lambda>_ t. \<exists>qs. uvm_rel m s ps n t qs m pt)"
  proof (subst (asm) n(1), elim yields_mono conjE, goal_cases)
    case (1 x t)
    have t: "vm_ok t (rev ?F @ ps) 2 pt" "vmap (mem t) pt = (\<lambda>j. if m \<le> j \<and> j < n then 0 else vmap (mem s) pt j)"
      "pt_keep s t pt (set ?F)" using 1 n(1) by simp_all
    have om: "only_mem s t" and nd: "set (nodes (mem t) 2 pt) = set (nodes (mem s) 2 pt)"
      and so: "same_outside (set (nodes (mem s) 2 pt) \<union> set ?F) (mem s) (mem t)"
      using t(3) by (simp_all add: pt_keep_def)
    have up: "upages (vmap (mem t) pt) m = upages (vmap (mem s) pt) m"
      by (rule upages_cong) (simp add: t)
    have "owned t (rev ?F @ ps) pt m = owned s ps pt n" by (auto simp: owned_def nd up all)
    moreover have "uvm_ok t (rev ?F @ ps) pt m"
    proof -
      have "set (upages (vmap (mem s) pt) m) \<inter> set ?F = {}" using d by auto
      then have "can_free t (rev ?F @ ps) pt (PTE2PA (vmap (mem t) pt j))" if "j < m" for j
        using s that m by (auto simp: uvm_ok_def can_free_def nd t only_mem_keeps [OF om] set_upages)
      with s t d m n show ?thesis by (auto simp: uvm_ok_def up [unfolded t(2)] valid_def)
    qed
    moreover have "same_outside (owned s ps pt n - set (upages (vmap (mem s) pt) m)) (mem s) (mem t)"
      using so by (rule same_outside_mono) (use disj d all in \<open>auto simp: owned_def\<close>)
    ultimately show ?case using om n m by (auto simp: uvm_rel_def t)
  qed
  moreover have "vpage m mod PGSIZE = 0"
    using vpage_aligned [of m] m n by (simp add: page_aligned_def)
  ultimately show ?thesis using vpage_diff(2) [of m n] m n by (simp add: uvmunmap_def)
qed

lemma uvmdealloc_shrinks:
  assumes s: "uvm_ok s ps pt n" and n: "npages oldsz = n" and le: "newsz \<le> oldsz"
  shows "yields (uvmdealloc pt oldsz newsz s) (\<lambda>r t. r = newsz \<and>
    (\<exists>qs. uvm_rel (npages newsz) s ps n t qs (npages newsz) pt))"
proof -
  let ?m = "npages newsz"
  have nt: "n \<le> 67108864" using s by (simp add: uvm_ok_def)
  have m: "?m \<le> n" using npages_mono [OF le] n by simp
  have up: "PGROUNDUP oldsz = vpage n" "PGROUNDUP newsz = vpage ?m"
    using PGROUNDUP_vpage [of oldsz] PGROUNDUP_vpage [of newsz] n m nt by simp_all
  consider "newsz = oldsz" | "newsz < oldsz" "?m = n" | "newsz < oldsz" "?m < n"
    using le m by fastforce
  then show ?thesis
  proof cases
    case 1
    with s n uvm_rel_refl [OF s] show ?thesis by (auto simp: uvmdealloc_def)
  next
    case 2
    with s up uvm_rel_refl [OF s] show ?thesis by (auto simp: uvmdealloc_def not_le)
  next
    case 3
    have "vpage ?m < vpage n" using 3 nt by (simp add: word_less_nat_alt unat_vpage)
    moreover have "n - ?m < 2147483648" using nt by simp
    ultimately have "uvmdealloc pt oldsz newsz s =
        obind (uvmunmap pt (vpage ?m) (of_nat (n - ?m)) True s) (\<lambda>_ s. Done newsz s)"
      using 3 up vpage_diff(1) [OF m nt] int_npages [of "n - ?m"] by (simp add: uvmdealloc_def Let_def flip: not_le)
    with uvmunmap_shrinks [OF s m] show ?thesis by (auto simp: yields_obind elim!: yields_mono)
  qed
qed

section \<open>Allocation\<close>

text \<open>User page \<open>j\<close> is zeroed and has all user permissions.\<close>

definition fresh_page :: "('a) kmem_scheme \<Rightarrow> uint64 \<Rightarrow> nat \<Rightarrow> bool" where
  "fresh_page s pt j \<longleftrightarrow>
     vmap (mem s) pt j = PA2PTE (PTE2PA (vmap (mem s) pt j)) OR uperm OR PTE_V \<and>
     (\<forall>a. in_page (PTE2PA (vmap (mem s) pt j)) a \<longrightarrow> mem s a = 0)"

lemma fresh_page_kept:
  assumes "fresh_page s pt j" and "uvm_ok s ps pt n" and "uvm_rel k s ps n t qs n' pt" and "j < k" and "k \<le> n"
  shows "fresh_page t pt j"
proof -
  let ?p = "PTE2PA (vmap (mem s) pt j)"
  have v: "vmap (mem t) pt j = vmap (mem s) pt j" using assms(3,4) by (simp add: uvm_rel_def)
  have "mem t a = mem s a" if "in_page ?p a" for a
  proof -
    have so: "same_outside (owned s ps pt n - set (upages (vmap (mem s) pt) k)) (mem s) (mem t)"
      using assms(3) by (simp add: uvm_rel_def)
    have al: "\<forall>p \<in> owned s ps pt n. page_aligned p" by (rule uvm_ok_disjoint [OF assms(2)])
    have "?p \<in> set (upages (vmap (mem s) pt) k)" "?p \<in> owned s ps pt n"
      using assms(4,5) by (auto simp: set_upages owned_def)
    then have "\<forall>q \<in> owned s ps pt n - set (upages (vmap (mem s) pt) k). \<not> in_page q a"
      using al that in_page_disjoint by (metis DiffD1 DiffD2)
    with so show ?thesis by (simp add: same_outside_def)
  qed
  with assms(1) show ?thesis by (simp add: fresh_page_def v)
qed

lemma uvm_grow:
  assumes s: "uvm_ok s ps pt n" and n: "n < utop"
  obtains
    (none) t where "kalloc s = Done 0 t" and "uvm_rel n s ps n t ps n pt" and "ps = []"
  | (lost) p t u v where "kalloc s = Done p t" and "p \<noteq> 0"
      and "mappages pt (vpage n) PGSIZE p uperm (t\<lparr>mem := memset (mem t) p 0 4096\<rparr>) = Done (-1) u"
      and "kfree p u = Done () v" and "uvm_rel n s ps n v [p] n pt" and "length ps < 3"
  | (grew) p t u qs where "kalloc s = Done p t" and "p \<noteq> 0"
      and "mappages pt (vpage n) PGSIZE p uperm (t\<lparr>mem := memset (mem t) p 0 4096\<rparr>) = Done 0 u"
      and "uvm_rel n s ps n u qs (Suc n) pt" and "fresh_page u pt n"
      and "length ps \<le> length qs + 3"
proof (cases ps)
  case Nil
  with s have "kalloc s = Done 0 (settle s)" using kalloc_empty by (auto simp: uvm_ok_def vm_ok_def)
  with none uvm_ok_settle [OF s] Nil show thesis by blast
next
  case (Cons p rs)
  with s have vs: "vm_ok s (p # rs) 2 pt" and s': "uvm_ok s (p # rs) pt n" by (simp_all add: uvm_ok_def)
  from kalloc_vm [OF vs] obtain t where t: "kalloc s = Done p t" "vm_ok t rs 2 pt" "only_mem s t"
    "same_outside {p} (mem s) (mem t)" "vmap (mem t) pt = vmap (mem s) pt"
    "nodes (mem t) 2 pt = nodes (mem s) 2 pt" by (auto simp: yields_iff)
  let ?m = "memset (mem t) p 0 4096"
  let ?t = "t\<lparr>mem := ?m\<rparr>"
  note p = vm_ok_free [OF vs list.set_intros(1)]
  have pr: "p \<notin> set rs" using vs by (simp add: vm_ok_def kmem_inv_def)
  note w = write_vm [OF t(2) same_outside_memset p(1) pr, of 0, unfolded t(6), OF p(4)]
  have t': "only_mem s ?t" "same_outside {p} (mem s) (mem ?t)" "vmap (mem ?t) pt = vmap (mem s) pt"
    "nodes (mem ?t) 2 pt = nodes (mem s) 2 pt"
    using t w only_mem_trans [OF t(3) only_mem_mem] same_outside_trans [OF t(4) same_outside_memset [of p]]
    by simp_all
  have nv: "\<not> valid (vmap (mem ?t) pt n)" using s n t' by (simp add: uvm_ok_def)
  have n': "n < 67108864" using n by simp
  from w(1) n' nv show thesis
  proof (cases rule: mappages_one [where pa = p and perm = uperm])
    case (full u)
    with uvm_put_back [OF s' t', of u] t' obtain v where "kfree p u = Done () v" "uvm_rel n s (p # rs) n v [p] n pt"
      by (auto simp: yields_iff)
    with lost [OF t(1) p(3) full(1)] full(5) show thesis by (simp add: Cons)
  next
    case (mapped u us qs)
    let ?e = "PA2PTE p OR uperm OR PTE_V"
    note leaf = uperm_leaf [OF p(2)]
    have vu: "vmap (mem u) pt = (vmap (mem s) pt)(n := ?e)" using mapped t' by simp
    have rel: "uvm_rel n s (p # rs) n u qs (Suc n) pt"
      by (rule uvm_extend [OF s' n t' mapped(2-4) vu leaf])
    have "same_outside (set (nodes (mem s) 2 pt) \<union> set us) (mem ?t) (mem u)"
      using mapped(4) t'(4) by (simp add: pt_frame_def)
    moreover have "\<forall>q \<in> set (nodes (mem s) 2 pt) \<union> set us. \<not> in_page q a" if "in_page p a" for a
      using that p pr mapped(2) in_page_disjoint vm_ok_nodes(1) [OF vs] vm_ok_free(1) [OF vs]
      by (metis UnE UnI1 list.set_intros(2) set_append)
    ultimately have "mem u a = 0" if "in_page p a" for a
      using that by (simp add: same_outside_def memset_apply in_page_def)
    then have "fresh_page u pt n" using leaf by (simp add: fresh_page_def vu)
    with grew [OF t(1) p(3) mapped(1)] rel mapped(2,6) show thesis by (simp add: Cons)
  qed
qed

lemma uvmalloc_undo:
  assumes "uvm_rel n s ps n t qs n pt" and "n0 \<le> n"
  shows "yields (uvmdealloc pt (vpage n) (vpage n0) t) (\<lambda>_ u. \<exists>rs. uvm_rel n0 s ps n u rs n0 pt)"
proof -
  have t: "uvm_ok t qs pt n" using assms(1) by (simp add: uvm_rel_def)
  then have n: "n \<le> 67108864" by (simp add: uvm_ok_def)
  have "vpage n0 \<le> vpage n" using assms(2) n by (simp add: word_le_nat_alt unat_vpage)
  from uvmdealloc_shrinks [OF t _ this] n assms(2) show ?thesis
    using uvm_rel_trans [OF uvm_rel_mono [OF assms]] by (auto elim!: yields_mono)
qed

lemma uvmalloc_loop_grows:
  assumes "uvm_ok s ps pt n" and "n0 \<le> n" and "n \<le> npages newsz" and "npages newsz \<le> utop"
  shows "yields (uvmalloc_loop pt (vpage n0) (vpage n) newsz s) (\<lambda>r t. \<exists>qs.
    r = newsz \<and> uvm_rel n s ps n t qs (npages newsz) pt \<and> (\<forall>j. n \<le> j \<and> j < npages newsz \<longrightarrow> fresh_page t pt j) \<or>
    r = 0 \<and> uvm_rel n0 s ps n t qs n0 pt \<and> length ps < 3 * (npages newsz - n))"
  using assms
proof (induction "npages newsz - n" arbitrary: s ps n)
  case 0
  then have "\<not> vpage n < newsz" by (simp add: vpage_less_iff)
  moreover from 0 have "n = npages newsz" by simp
  ultimately show ?case using uvm_rel_refl [OF 0(2)] by (subst uvmalloc_loop.simps) (auto intro: exI [of _ ps])
next
  case (Suc d n s ps)
  then have n: "n < npages newsz" "n < utop" by simp_all
  then have lt: "vpage n < newsz" by (simp add: vpage_less_iff)
  from Suc.prems(1) n(2) show ?case
  proof (cases rule: uvm_grow)
    case (none t)
    with lt n(1) uvmalloc_undo [OF none(2) Suc.prems(2)] show ?thesis
      by (subst uvmalloc_loop.simps) (auto simp: yields_obind elim!: yields_mono)
  next
    case (lost p t u v)
    have "length ps < 3 * (npages newsz - n)" using lost(6) n(1) by simp
    with lost lt uvmalloc_undo [OF lost(5) Suc.prems(2)] show ?thesis
      by (subst uvmalloc_loop.simps) (auto simp: yields_obind Let_def elim!: yields_mono)
  next
    case (grew p t u qs)
    have u: "uvm_ok u qs pt (Suc n)" using grew(4) by (simp add: uvm_rel_def)
    have "uvmalloc_loop pt (vpage n0) (vpage n) newsz s = uvmalloc_loop pt (vpage n0) (vpage (Suc n)) newsz u"
      using lt grew(1-3) by (subst uvmalloc_loop.simps) (simp add: Let_def vpage_Suc)
    moreover have "yields (uvmalloc_loop pt (vpage n0) (vpage (Suc n)) newsz u) (\<lambda>r t. \<exists>rs.
        r = newsz \<and> uvm_rel (Suc n) u qs (Suc n) t rs (npages newsz) pt \<and>
          (\<forall>j. Suc n \<le> j \<and> j < npages newsz \<longrightarrow> fresh_page t pt j) \<or>
        r = 0 \<and> uvm_rel n0 u qs (Suc n) t rs n0 pt \<and> length qs < 3 * (npages newsz - Suc n))"
      using Suc.hyps(2) Suc.prems n u by (intro Suc.hyps(1)) simp_all
    moreover have "uvm_rel n s ps n w rs (npages newsz) pt \<and> fresh_page w pt n"
      if "uvm_rel (Suc n) u qs (Suc n) w rs (npages newsz) pt" for w rs
      using that uvm_rel_trans [OF grew(4) uvm_rel_mono [OF that]] fresh_page_kept [OF grew(5) u that] by simp
    moreover have "uvm_rel n0 s ps n w rs n0 pt" if "uvm_rel n0 u qs (Suc n) w rs n0 pt" for w rs
      using uvm_rel_trans [OF uvm_rel_mono [OF grew(4) Suc.prems(2)] that] .
    moreover have "length ps < 3 * (npages newsz - n)" if "length qs < 3 * (npages newsz - Suc n)"
      using that grew(6) n(1) by simp
    ultimately show ?thesis
      by (auto elim!: yields_mono) (metis le_antisym not_less_eq_eq, blast)
  qed
qed

lemma uvmalloc_grows:
  assumes "uvm_ok s ps pt (npages oldsz)" and "oldsz \<le> newsz" and "npages newsz \<le> utop"
  shows "yields (uvmalloc pt oldsz newsz s) (\<lambda>r t. \<exists>qs.
    r = newsz \<and> uvm_rel (npages oldsz) s ps (npages oldsz) t qs (npages newsz) pt \<and>
      (\<forall>j. npages oldsz \<le> j \<and> j < npages newsz \<longrightarrow> fresh_page t pt j) \<or>
    r = 0 \<and> uvm_rel (npages oldsz) s ps (npages oldsz) t qs (npages oldsz) pt \<and>
      length ps < 3 * (npages newsz - npages oldsz))"
proof -
  have le: "npages oldsz \<le> npages newsz" using assms(2) by (rule npages_mono)
  then have "PGROUNDUP oldsz = vpage (npages oldsz)" using assms(3) by (intro PGROUNDUP_vpage) simp
  with assms le uvmalloc_loop_grows [OF assms(1) order_refl le assms(3)] show ?thesis
    by (simp add: uvmalloc_def flip: not_le)
qed

section \<open>Properties\<close>

lemma pool_uvm:
  assumes "distinct (pt # ps)" and "\<forall>p \<in> set (pt # ps). page_aligned p \<and> e \<le> p \<and> p < PHYSTOP"
    and "KERNBASE \<le> e" and "e \<le> PHYSTOP"
  shows "uvm_ok (pool e ps) ps pt 0"
  using pool_vm [OF assms] by (simp add: uvm_ok_def upages_def valid_def)

text \<open>
  C2. \<open>uvmalloc\<close> either grows the address space to \<open>newsz\<close>, every new page zeroed and mapped
  readable, writable, executable and user-accessible to a page of its own, or returns 0 with the
  address space as it was. It never fails while three pages are free for each page it adds. In both cases
  the old pages keep their contents and mappings, no page is lost or shared, and memory outside of
  the pages involved is not written.
\<close>

theorem uvmalloc_grows_or_restores:
  assumes "uvm_ok s ps pt (npages oldsz)" and "oldsz \<le> newsz" and "npages newsz \<le> utop"
  shows "yields (uvmalloc pt oldsz newsz s) (\<lambda>r t. \<exists>qs.
    r = newsz \<and> uvm_rel (npages oldsz) s ps (npages oldsz) t qs (npages newsz) pt \<and>
      (\<forall>j. npages oldsz \<le> j \<and> j < npages newsz \<longrightarrow> fresh_page t pt j) \<or>
    r = 0 \<and> uvm_rel (npages oldsz) s ps (npages oldsz) t qs (npages oldsz) pt \<and>
      length ps < 3 * (npages newsz - npages oldsz))"
  using assms by (rule uvmalloc_grows)

theorem uvmalloc_grows_or_restores_witness:
  "yields (uvmalloc 0x80030000 0 0x1000 (pool 0x80010000 [0x80020000, 0x80021000, 0x80022000]))
    (\<lambda>r t. r = 0x1000 \<and> fresh_page t 0x80030000 0)"
proof -
  have "\<forall>p \<in> set [0x80030000, 0x80020000, 0x80021000, 0x80022000]. page_aligned p \<and> 0x80010000 \<le> p \<and> p < PHYSTOP"
    by (simp add: page_aligned_def)
  note ok = pool_uvm [OF _ this, simplified]
  have n: "npages 0 = 0" "npages 0x1000 = 1" by (simp_all add: npages_def)
  from uvmalloc_grows_or_restores [of "pool 0x80010000 [0x80020000, 0x80021000, 0x80022000]"
      "[0x80020000, 0x80021000, 0x80022000]" "0x80030000" 0 "0x1000", unfolded n, OF ok]
  show ?thesis by (auto elim!: yields_mono)
qed

lemma one_user_page:
  "\<exists>t qs. uvm_ok (t :: kmem) qs 0x80030000 1 \<and> fresh_page t 0x80030000 0 \<and>
    (\<forall>j \<ge> utop. vmap (mem t) 0x80030000 j = 0)"
proof -
  have dom: "\<forall>p \<in> set [0x80030000, 0x80020000, 0x80021000, 0x80022000]. page_aligned p \<and> 0x80010000 \<le> p \<and> p < PHYSTOP"
    by (simp add: page_aligned_def)
  note ok = pool_uvm [OF _ dom, simplified] and vm = pool_vm(2) [OF _ dom, simplified]
  have n: "npages 0 = 0" "npages 0x1000 = 1" by (simp_all add: npages_def)
  from uvmalloc_grows [of _ _ _ 0 "0x1000", unfolded n, OF ok] vm show ?thesis
    by (fastforce simp: yields_iff uvm_rel_def)
qed

text \<open>
  C29. \<open>uvmdealloc\<close> brings an address space down to \<open>newsz\<close>: the pages above are unmapped and given
  back to the allocator, the pages below keep their mappings and contents, and no page is lost.
\<close>

theorem uvmdealloc_gives_back:
  assumes "uvm_ok s ps pt (npages oldsz)" and "newsz \<le> oldsz"
  shows "yields (uvmdealloc pt oldsz newsz s) (\<lambda>r t. r = newsz \<and>
    (\<exists>qs. uvm_rel (npages newsz) s ps (npages oldsz) t qs (npages newsz) pt))"
  using assms(1) refl assms(2) by (rule uvmdealloc_shrinks)

theorem uvmdealloc_gives_back_witness:
  "\<exists>(s :: kmem) ps. yields (uvmdealloc 0x80030000 0x1000 5 s) (\<lambda>r t. r = 5 \<and>
     (\<exists>qs. uvm_rel 1 s ps 1 t qs 1 0x80030000))"
proof -
  obtain t :: kmem and qs where "uvm_ok t qs 0x80030000 1" using one_user_page by blast
  moreover have "npages 0x1000 = 1" "npages 5 = 1" by (simp_all add: npages_def)
  ultimately show ?thesis using uvmdealloc_gives_back [of t qs "0x80030000" "0x1000" 5] by auto
qed

end
