(* ===== verification/Vm_Copy.thy ===== *)
theory Vm_Copy
  imports Vm_User
begin

text \<open>
  The user's view of an address space, \<open>ubyte\<close>, and the copies between kernel and user memory as
  reads and writes of that view.
\<close>

section \<open>The user's view\<close>

definition upage :: "memory \<Rightarrow> uint64 \<Rightarrow> uint64 \<Rightarrow> uint64" where
  "upage m pt va = (if va < MAXVA
     then let e = vmap m pt (unat va div 4096) in if valid e \<and> e AND PTE_U \<noteq> 0 then PTE2PA e else 0
     else 0)"

definition ubyte :: "memory \<Rightarrow> uint64 \<Rightarrow> uint64 \<Rightarrow> uint8 option" where
  "ubyte m pt va = (if upage m pt va = 0 then None
     else Some (m (upage m pt va + (va - PGROUNDDOWN va))))"

lemma upage_cong: "vmap m pt = vmap m' pt \<Longrightarrow> upage m pt = upage m' pt"
  by (simp add: upage_def fun_eq_iff)

lemma page_offset:
  "va - PGROUNDDOWN va = of_nat (unat va mod 4096)" "unat (va - PGROUNDDOWN va) = unat va mod 4096"
proof -
  have le: "PGROUNDDOWN va \<le> va" using unat_PGROUNDDOWN [of va] by (simp add: word_le_nat_alt)
  show u: "unat (va - PGROUNDDOWN va) = unat va mod 4096"
    using unat_sub [OF le] unat_PGROUNDDOWN [of va] by (simp add: minus_div_mult_eq_mod)
  then show "va - PGROUNDDOWN va = of_nat (unat va mod 4096)"
    by (simp add: word_unat_eq_iff unat_of_nat)
qed

lemma upage_PGROUNDDOWN: "upage m pt (PGROUNDDOWN va) = upage m pt va"
proof (cases "va < MAXVA")
  case True
  have "unat (PGROUNDDOWN va) div 4096 = unat va div 4096" by (simp add: unat_PGROUNDDOWN)
  moreover have "PGROUNDDOWN va < MAXVA"
    using True unat_PGROUNDDOWN [of va] by (simp add: word_less_nat_alt)
  ultimately show ?thesis using True by (simp add: upage_def)
next
  case False
  then have "274877906944 \<le> unat va" by (simp add: word_less_nat_alt not_less)
  then have "67108864 \<le> unat va div 4096" by (simp add: less_eq_div_iff_mult_less_eq)
  then have "\<not> PGROUNDDOWN va < MAXVA" by (simp add: word_less_nat_alt unat_PGROUNDDOWN)
  with False show ?thesis by (simp add: upage_def)
qed

lemma walkaddr_upage:
  assumes "vm_ok s ps 2 pt"
  shows "walkaddr pt va s = Done (upage (mem s) pt va) s"
proof (cases "va < MAXVA")
  case True
  have tree: "tree_ok (mem s) (ram_page s) 2 pt" and inv: "kmem_inv s ps"
    using assms by (simp_all add: vm_ok_def)
  have "a \<noteq> 0" if "leaf_slot (mem s) 2 pt va = Some a" for a
    using leaf_slot_nonzero [OF tree _ that] ram_page_nonzero [OF inv] by blast
  moreover have "vmap (mem s) pt (unat va div 4096) = (case leaf_slot (mem s) 2 pt va of None \<Rightarrow> 0 | Some a \<Rightarrow> load64 (mem s) a)"
    using pte_at_page(1) [OF True] pte_at_leaf_slot [of "mem s" 2 pt va] by simp
  ultimately show ?thesis
    using True by (auto simp: walkaddr_def walk_lookup upage_def valid_def Let_def not_le split: option.splits)
next
  case False
  then have "MAXVA \<le> va" by (simp add: not_less)
  with False show ?thesis by (simp add: walkaddr_def upage_def)
qed

section \<open>copyin\<close>

lemma in_chunk:
  assumes "len > 0" and "i < unat (page_chunk va len)" and "va < MAXVA"
  shows "unat (va + of_nat i) = unat va + i" and "(unat va + i) div 4096 = unat va div 4096"
    and "(unat va + i) mod 4096 = unat va mod 4096 + i" and "va + of_nat i < MAXVA"
proof -
  have i: "unat va mod 4096 + i < 4096"
    using assms(2) page_chunk_bounds(3) [OF assms(1), of va] by (simp add: less_diff_conv add.commute)
  have va: "unat va < 274877906944" using assms(3) by (simp add: word_less_nat_alt)
  show u: "unat (va + of_nat i) = unat va + i"
    using i va by (simp add: unat_word_ariths unat_of_nat)
  define q r where "q = unat va div 4096" and "r = unat va mod 4096"
  have eq: "unat va + i = 4096 * q + (r + i)" and ri: "r + i < 4096" using i by (simp_all add: q_def r_def)
  have "(4096 * q + (r + i)) div 4096 = q" "(4096 * q + (r + i)) mod 4096 = r + i" using ri by simp_all
  then show d: "(unat va + i) div 4096 = unat va div 4096" and "(unat va + i) mod 4096 = unat va mod 4096 + i"
    unfolding eq by (simp_all add: q_def r_def)
  have "unat va div 4096 < 67108864" using va by (simp add: div_less_iff_less_mult)
  with d have "(unat va + i) div 4096 < 67108864" by simp
  then have "unat va + i < 274877906944" by (simp add: div_less_iff_less_mult)
  with u show "va + of_nat i < MAXVA" by (simp add: word_less_nat_alt)
qed

lemma ubyte_chunk:
  assumes "len > 0" and "i < unat (page_chunk va len)" and "upage m pt va \<noteq> 0"
  shows "ubyte m pt (va + of_nat i) = Some (m (upage m pt va + (va - PGROUNDDOWN va) + of_nat i))"
proof -
  have va: "va < MAXVA" using assms(3) by (auto simp: upage_def split: if_splits)
  note c = in_chunk [OF assms(1,2) va]
  have p: "upage m pt (va + of_nat i) = upage m pt va" using va c by (simp add: upage_def)
  have off: "va + of_nat i - PGROUNDDOWN (va + of_nat i) = va - PGROUNDDOWN va + of_nat i"
    by (simp only: page_offset(1) c) simp
  show ?thesis using assms(3) by (simp only: ubyte_def p off if_False add.assoc)
qed

text \<open>Either the chunk ends the request or the next chunk starts right after it.\<close>

lemma next_chunk:
  assumes "len > 0"
  shows "page_chunk va len = len \<or> PGROUNDDOWN va + PGSIZE = va + page_chunk va len"
proof (cases "page_chunk va len = len")
  case False
  then have "page_chunk va len = PGSIZE - (va - PGROUNDDOWN va)"
    by (simp add: page_chunk_def Let_def split: if_splits)
  then show ?thesis by simp
qed simp

lemma all_less_split: "N \<le> L \<Longrightarrow> (\<forall>i < L. P i) \<longleftrightarrow> (\<forall>i < N. P i) \<and> (\<forall>i < L - N. P (N + i :: nat))"
  by (metis add_diff_inverse_nat less_diff_conv2 nat_add_left_cancel_less add_diff_cancel_left' le_add1 less_le_trans linorder_not_less)

lemma map_upt_split: "N \<le> L \<Longrightarrow> map f [0..<L] = map f [0..<N] @ map (\<lambda>i. f (N + i)) [0..<L - N]"
proof -
  assume "N \<le> L"
  then have "[0..<L] = [0..<N] @ [N..<N + (L - N)]" using upt_add_eq_append [of 0 N "L - N"] by simp
  moreover have "[N..<N + (L - N)] = map (\<lambda>i. N + i) [0..<L - N]" by (simp add: map_add_upt add.commute)
  ultimately show ?thesis by simp
qed

lemma copyin_ubyte:
  assumes "vm_ok s ps 2 pt"
  shows "\<exists>bs. copyin pt srcva len s =
    Done (if \<forall>i < unat len. ubyte (mem s) pt (srcva + of_nat i) \<noteq> None then 0 else -1, bs) s \<and>
    ((\<forall>i < unat len. ubyte (mem s) pt (srcva + of_nat i) \<noteq> None) \<longrightarrow>
      map Some bs = map (\<lambda>i. ubyte (mem s) pt (srcva + of_nat i)) [0..<unat len])"
  using assms
proof (induction pt srcva len s rule: copyin.induct)
  case (1 pt srcva len s)
  let ?n = "page_chunk srcva len" and ?pa = "upage (mem s) pt srcva" and ?va0 = "PGROUNDDOWN srcva"
  let ?mapped = "\<lambda>va len. \<forall>i < unat len. ubyte (mem s) pt (va + of_nat i) \<noteq> None"
  show ?case
  proof (cases "len > 0")
    case False
    then have "len = 0" by (simp add: word_gt_0)
    then show ?thesis by (subst copyin.simps) simp
  next
    case len: True
    have wa: "walkaddr pt ?va0 s = Done ?pa s"
      using walkaddr_upage [OF 1(2)] by (simp add: upage_PGROUNDDOWN)
    show ?thesis
    proof (cases "?pa = 0")
      case True
      then have "ubyte (mem s) pt (srcva + of_nat 0) = None" by (simp add: ubyte_def)
      moreover have "0 < unat len" using len by (simp add: word_less_nat_alt)
      ultimately have "\<not> ?mapped srcva len" by blast
      with len True show ?thesis by (subst copyin.simps) (auto simp: wa Let_def)
    next
      case False
      note n = page_chunk_bounds [OF len, of srcva]
      note cb = ubyte_chunk [OF len _ False]
      let ?bs = "load_bytes (mem s) (?pa + (srcva - ?va0)) (unat ?n)"
      obtain rest where rest: "copyin pt (?va0 + PGSIZE) (len - ?n) s =
          Done (if ?mapped (?va0 + PGSIZE) (len - ?n) then 0 else -1, rest) s"
        "?mapped (?va0 + PGSIZE) (len - ?n) \<Longrightarrow> map Some rest =
          map (\<lambda>i. ubyte (mem s) pt (?va0 + PGSIZE + of_nat i)) [0..<unat (len - ?n)]"
        using 1(1) [OF len refl wa False refl refl 1(2)] by blast
      have eq: "copyin pt srcva len s = Done (if ?mapped (?va0 + PGSIZE) (len - ?n) then 0 else -1, ?bs @ rest) s"
        using len False rest(1) by (subst copyin.simps) (simp add: wa Let_def)
      have bs: "map Some ?bs = map (\<lambda>i. ubyte (mem s) pt (srcva + of_nat i)) [0..<unat ?n]"
        using cb by (simp add: load_bytes_def)
      let ?N = "unat ?n" and ?L = "unat len"
      have L: "unat (len - ?n) = ?L - ?N" "?N \<le> ?L" using n(2) by (simp_all add: unat_sub word_le_nat_alt)
      have f: "?va0 + PGSIZE + of_nat i = srcva + of_nat (?N + i)" if "i < ?L - ?N" for i
        using next_chunk [OF len, of srcva] that by (auto simp: add.assoc)
      have "?mapped srcva len \<longleftrightarrow> (\<forall>i < ?L - ?N. ubyte (mem s) pt (srcva + of_nat (?N + i)) \<noteq> None)"
        using all_less_split [OF L(2), of "\<lambda>i. ubyte (mem s) pt (srcva + of_nat i) \<noteq> None"] cb by simp
      also have "\<dots> \<longleftrightarrow> ?mapped (?va0 + PGSIZE) (len - ?n)" using f L by (simp add: add.assoc)
      finally have m: "?mapped srcva len \<longleftrightarrow> ?mapped (?va0 + PGSIZE) (len - ?n)" .
      have shift: "map (\<lambda>i. ubyte (mem s) pt (?va0 + PGSIZE + of_nat i)) [0..<?L - ?N] =
          map (\<lambda>i. ubyte (mem s) pt (srcva + of_nat (?N + i))) [0..<?L - ?N]"
        using f by (intro map_cong refl) (simp only: set_upt atLeastLessThan_iff)
      have "map Some (?bs @ rest) = map (\<lambda>i. ubyte (mem s) pt (srcva + of_nat i)) [0..<?L]" if "?mapped srcva len"
        using rest(2) [unfolded L(1) shift] m that bs
        unfolding map_upt_split [OF L(2), of "\<lambda>i. ubyte (mem s) pt (srcva + of_nat i)"] map_append L(1) by simp
      with eq m show ?thesis by auto
    qed
  qed
qed

section \<open>copyout\<close>

text \<open>
  An address space in which no two user pages share memory, and none is a page-table page, a free
  page or the null page. \<open>uvm_ok\<close> gives it when nothing above the user's pages has \<open>PTE_U\<close>.
\<close>

definition ucopy_ok :: "('a) kmem_scheme \<Rightarrow> uint64 list \<Rightarrow> uint64 \<Rightarrow> bool" where
  "ucopy_ok s ps pt \<longleftrightarrow> vm_ok s ps 2 pt \<and>
     (\<forall>va. upage (mem s) pt va \<noteq> 0 \<longrightarrow> can_free s ps pt (upage (mem s) pt va)) \<and>
     (\<forall>va vb. upage (mem s) pt va \<noteq> 0 \<and> upage (mem s) pt va = upage (mem s) pt vb \<longrightarrow>
        unat va div 4096 = unat vb div 4096)"

lemma uvm_ok_ucopy:
  assumes "uvm_ok s ps pt n" and "\<forall>j \<ge> utop. \<not> (valid (vmap (mem s) pt j) \<and> vmap (mem s) pt j AND PTE_U \<noteq> 0)"
  shows "ucopy_ok s ps pt"
proof -
  let ?f = "vmap (mem s) pt"
  have low: "unat va div 4096 < n \<and> upage (mem s) pt va = PTE2PA (?f (unat va div 4096))"
    if "upage (mem s) pt va \<noteq> 0" for va
  proof -
    have v: "valid (?f (unat va div 4096)) \<and> ?f (unat va div 4096) AND PTE_U \<noteq> 0"
      "upage (mem s) pt va = PTE2PA (?f (unat va div 4096))"
      using that by (auto simp: upage_def Let_def split: if_splits)
    have "unat va div 4096 < utop" using v(1) assms(2) by (meson not_le)
    moreover have "\<forall>j. n \<le> j \<and> j < utop \<longrightarrow> \<not> valid (?f j)" using assms(1) by (simp add: uvm_ok_def)
    ultimately show ?thesis using v by (meson not_le)
  qed
  have "distinct (upages ?f n)" using assms(1) by (simp add: uvm_ok_def)
  then have inj: "i = j" if "i < n" "j < n" "PTE2PA (?f i) = PTE2PA (?f j)" for i j
    using that by (auto simp: upages_def distinct_conv_nth)
  show ?thesis
    unfolding ucopy_ok_def
  proof (intro conjI allI impI)
    show "vm_ok s ps 2 pt" using assms(1) by (simp add: uvm_ok_def)
    fix va assume "upage (mem s) pt va \<noteq> 0"
    with low [of va] assms(1) show "can_free s ps pt (upage (mem s) pt va)" by (simp add: uvm_ok_def)
  next
    fix va vb assume eq: "upage (mem s) pt va \<noteq> 0 \<and> upage (mem s) pt va = upage (mem s) pt vb"
    then show "unat va div 4096 = unat vb div 4096"
      using low [of va] low [of vb] by (intro inj) auto
  qed
qed

text \<open>Writing \<open>bs\<close> into one user page at \<open>va\<close>.\<close>

lemma write_user_page:
  assumes s: "ucopy_ok s ps pt" and len: "len > 0" and pa: "upage (mem s) pt va \<noteq> 0"
    and bs: "length bs = unat (page_chunk va len)"
    and m: "m = store_bytes (mem s) (upage (mem s) pt va + (va - PGROUNDDOWN va)) bs"
  shows "ucopy_ok (s\<lparr>mem := m\<rparr>) ps pt" and "same_outside {upage (mem s) pt va} (mem s) m"
    and "vmap m pt = vmap (mem s) pt" and "nodes m 2 pt = nodes (mem s) 2 pt"
    and "ubyte m pt v = (if unat (v - va) < length bs then Some (bs ! unat (v - va)) else ubyte (mem s) pt v)"
proof -
  let ?p = "upage (mem s) pt va" and ?off = "unat va mod 4096"
  have can: "can_free s ps pt ?p" and vm: "vm_ok s ps 2 pt" using s pa by (simp_all add: ucopy_ok_def)
  have al: "page_aligned ?p" using can by (simp add: can_free_def ram_page_def)
  have n: "?off + length bs \<le> 4096" "0 < length bs" "length bs < 18446744073709551616"
    using page_chunk_bounds(3) [OF len, of va] page_chunk_bounds(1) [OF len, of va] bs
    by (auto simp: word_less_nat_alt min_def)
  have ap: "m a = (if unat (a - (?p + of_nat ?off)) < length bs then bs ! unat (a - (?p + of_nat ?off)) else mem s a)" for a
    unfolding m page_offset(1) using n(3) by (rule store_bytes_apply)
  have inpage: "in_page ?p a" if "unat (a - (?p + of_nat ?off)) < length bs" for a
  proof -
    define d where "d = a - (?p + of_nat ?off)"
    have d: "unat d < length bs" "a - ?p = d + of_nat ?off" using that by (simp_all add: d_def)
    then have "unat (a - ?p) = unat d + ?off" using n(1) by (simp add: unat_word_ariths unat_of_nat)
    then show ?thesis using d(1) n(1) by (simp add: in_page_def)
  qed
  show so: "same_outside {?p} (mem s) m" unfolding same_outside_def using ap inpage by auto
  note w = write_vm [OF vm so al] 
  have w': "vm_ok (s\<lparr>mem := m\<rparr>) ps 2 pt" "vmap m pt = vmap (mem s) pt" "nodes m 2 pt = nodes (mem s) 2 pt"
    using w can by (simp_all add: can_free_def)
  then show "vmap m pt = vmap (mem s) pt" "nodes m 2 pt = nodes (mem s) 2 pt" by simp_all
  have up: "upage m pt = upage (mem s) pt" using w'(2) by (rule upage_cong)
  show "ucopy_ok (s\<lparr>mem := m\<rparr>) ps pt" using s w' unfolding ucopy_ok_def can_free_def by (auto simp: up)
  let ?a = "upage (mem s) pt v + (v - PGROUNDDOWN v)"
  show "ubyte m pt v = (if unat (v - va) < length bs then Some (bs ! unat (v - va)) else ubyte (mem s) pt v)"
  proof (cases "unat (v - va) < length bs")
    case True
    let ?i = "unat (v - va)"
    have "ubyte m pt (va + of_nat ?i) = Some (m (?p + (va - PGROUNDDOWN va) + of_nat ?i))"
      using ubyte_chunk [OF len, of ?i va m pt] True bs pa up by simp
    with True n(3) show ?thesis by (simp add: ap page_offset(1) unat_of_nat)
  next
    case False
    have "m ?a = mem s ?a" if v0: "upage (mem s) pt v \<noteq> 0"
    proof (cases "upage (mem s) pt v = ?p")
      case True
      with v0 s have "unat v div 4096 = unat va div 4096" unfolding ucopy_ok_def by blast
      then have "PGROUNDDOWN v = PGROUNDDOWN va" by (simp add: word_unat_eq_iff unat_PGROUNDDOWN)
      then have d: "?a - (?p + of_nat ?off) = v - va" using True by (simp add: page_offset(1) [symmetric])
      show ?thesis using False unfolding ap [of ?a] d by simp
    next
      case other: False
      have "can_free s ps pt (upage (mem s) pt v)" using s v0 by (simp add: ucopy_ok_def)
      then have al': "page_aligned (upage (mem s) pt v)" by (simp add: can_free_def ram_page_def)
      have "in_page (upage (mem s) pt v) ?a" by (simp add: in_page_def page_offset(2))
      with other in_page_disjoint [OF al al'] so show ?thesis by (auto simp: same_outside_def)
    qed
    with False show ?thesis by (simp add: ubyte_def up)
  qed
qed

lemma shift_less:
  assumes "N + k < 18446744073709551616"
  shows "unat (x - of_nat N :: uint64) < k \<longleftrightarrow> N \<le> unat x \<and> unat x < N + k"
    and "N \<le> unat x \<Longrightarrow> unat (x - of_nat N :: uint64) = unat x - N"
proof -
  have N: "unat (of_nat N :: uint64) = N" using assms by (simp add: unat_of_nat)
  show ge: "unat (x - of_nat N) = unat x - N" if "N \<le> unat x"
    using that N by (simp add: unat_sub word_le_nat_alt)
  show "unat (x - of_nat N) < k \<longleftrightarrow> N \<le> unat x \<and> unat x < N + k"
  proof (cases "N \<le> unat x")
    case False
    then have "unat (x - of_nat N) = unat x + 18446744073709551616 - N"
      using N by (simp add: unat_sub_if_size word_size)
    with False assms show ?thesis by simp
  qed (auto simp: ge)
qed

lemma copyout_ubyte:
  assumes "ucopy_ok s ps pt" and "unat len \<le> length src"
  shows "yields (copyout pt dstva src len s) (\<lambda>r t. ucopy_ok t ps pt \<and> only_mem s t \<and>
    vmap (mem t) pt = vmap (mem s) pt \<and> nodes (mem t) 2 pt = nodes (mem s) 2 pt \<and>
    same_outside {upage (mem s) pt va | va. upage (mem s) pt va \<noteq> 0} (mem s) (mem t) \<and>
    (r = 0 \<longleftrightarrow> (\<forall>i < unat len. ubyte (mem s) pt (dstva + of_nat i) \<noteq> None)) \<and> (r = 0 \<or> r = -1) \<and>
    (\<exists>k \<le> unat len. (r = 0 \<longrightarrow> k = unat len) \<and>
      (\<forall>v. ubyte (mem t) pt v = (if unat (v - dstva) < k then Some (src ! unat (v - dstva)) else ubyte (mem s) pt v))))"
  using assms
proof (induction pt dstva src len s rule: copyout.induct)
  case (1 pt dstva src len s)
  let ?n = "page_chunk dstva len" and ?pa = "upage (mem s) pt dstva" and ?va0 = "PGROUNDDOWN dstva"
  have vm: "vm_ok s ps 2 pt" using 1(2) by (simp add: ucopy_ok_def)
  show ?case
  proof (cases "len > 0")
    case False
    then have "len = 0" by (simp add: word_gt_0)
    with 1(2) show ?thesis by (subst copyout.simps) simp
  next
    case len: True
    have wa: "walkaddr pt ?va0 s = Done ?pa s"
      using walkaddr_upage [OF vm] by (simp add: upage_PGROUNDDOWN)
    show ?thesis
    proof (cases "?pa = 0")
      case True
      then have "ubyte (mem s) pt (dstva + of_nat 0) = None" by (simp add: ubyte_def)
      moreover have "0 < unat len" using len by (simp add: word_less_nat_alt)
      ultimately have "\<not> (\<forall>i < unat len. ubyte (mem s) pt (dstva + of_nat i) \<noteq> None)" by blast
      with len True 1(2) show ?thesis by (subst copyout.simps) (auto simp: wa Let_def)
    next
      case False
      let ?bs = "take (unat ?n) src"
      let ?m = "store_bytes (mem s) (?pa + (dstva - ?va0)) ?bs"
      let ?t = "s\<lparr>mem := ?m\<rparr>"
      have n: "unat ?n \<le> unat len" using page_chunk_bounds(2) [OF len] by (simp add: word_le_nat_alt)
      have lbs: "length ?bs = unat ?n" using n 1(3) by simp
      note w = write_user_page [OF 1(2) len False lbs refl]
      have eq: "copyout pt dstva src len s = copyout pt (?va0 + PGSIZE) (drop (unat ?n) src) (len - ?n) ?t"
        using len False by (subst copyout.simps) (simp add: wa Let_def)
      have L: "unat (len - ?n) = unat len - unat ?n"
        using page_chunk_bounds(2) [OF len] by (simp add: unat_sub)
      have nx: "?va0 + PGSIZE + of_nat i = dstva + of_nat (unat ?n + i)" if "i < unat len - unat ?n" for i
        using next_chunk [OF len, of dstva] that by (auto simp: add.assoc)
      have up: "upage ?m pt = upage (mem s) pt" using w(3) by (rule upage_cong)
      then have un: "ubyte ?m pt v = None \<longleftrightarrow> ubyte (mem s) pt v = None" for v by (simp add: ubyte_def)
      have "unat (len - ?n) \<le> length (drop (unat ?n) src)" using 1(3) n by (simp add: L)
      note IH = 1(1) [OF len refl wa False refl refl w(1) this]
      show ?thesis
        unfolding eq
      proof (rule yields_mono [OF IH], elim conjE exE, intro conjI)
        fix r t k
        assume t: "ucopy_ok t ps pt" "only_mem ?t t" "vmap (mem t) pt = vmap (mem ?t) pt"
          "nodes (mem t) 2 pt = nodes (mem ?t) 2 pt"
          "same_outside {upage (mem ?t) pt va | va. upage (mem ?t) pt va \<noteq> 0} (mem ?t) (mem t)"
          "(r = 0) = (\<forall>i < unat (len - ?n). ubyte (mem ?t) pt (?va0 + PGSIZE + of_nat i) \<noteq> None)"
          "r = 0 \<or> r = -1" "k \<le> unat (len - ?n)" "r = 0 \<longrightarrow> k = unat (len - ?n)"
          "\<forall>v. ubyte (mem t) pt v = (if unat (v - (?va0 + PGSIZE)) < k
            then Some (drop (unat ?n) src ! unat (v - (?va0 + PGSIZE))) else ubyte (mem ?t) pt v)"
        show "ucopy_ok t ps pt" "r = 0 \<or> r = -1" by fact+
        show "only_mem s t" using t(2) only_mem_trans only_mem_mem by blast
        show "vmap (mem t) pt = vmap (mem s) pt" "nodes (mem t) 2 pt = nodes (mem s) 2 pt"
          using t(3,4) w(3,4) by simp_all
        show "same_outside {upage (mem s) pt va | va. upage (mem s) pt va \<noteq> 0} (mem s) (mem t)"
        proof -
          have "same_outside {upage (mem s) pt va | va. upage (mem s) pt va \<noteq> 0} ?m (mem t)"
            using t(5) by (simp add: up)
          from same_outside_trans [OF w(2) this] show ?thesis
            by (rule same_outside_mono) (use False in auto)
        qed
        show "(r = 0) = (\<forall>i < unat len. ubyte (mem s) pt (dstva + of_nat i) \<noteq> None)"
          using t(6) all_less_split [OF n, of "\<lambda>i. ubyte (mem s) pt (dstva + of_nat i) \<noteq> None"]
            ubyte_chunk [OF len _ False] nx un by (simp add: L)
        show "\<exists>k \<le> unat len. (r = 0 \<longrightarrow> k = unat len) \<and> (\<forall>v. ubyte (mem t) pt v =
            (if unat (v - dstva) < k then Some (src ! unat (v - dstva)) else ubyte (mem s) pt v))"
        proof (intro exI [of _ "unat ?n + k"] conjI allI)
          show "unat ?n + k \<le> unat len" "r = 0 \<longrightarrow> unat ?n + k = unat len" using t(8,9) L n by simp_all
          fix v
          have "unat len < 18446744073709551616" by simp
          then have nk: "unat ?n + k < 18446744073709551616" using t(8) L n by linarith
          note sl = shift_less [OF nk, of "v - dstva"]
          have "unat (v - (?va0 + PGSIZE)) < k \<longleftrightarrow> unat ?n \<le> unat (v - dstva) \<and> unat (v - dstva) < unat ?n + k"
            and "unat ?n \<le> unat (v - dstva) \<Longrightarrow> k \<noteq> 0 \<Longrightarrow> unat (v - (?va0 + PGSIZE)) = unat (v - dstva) - unat ?n"
          proof -
            have "v - (?va0 + PGSIZE) = (v - dstva) - of_nat (unat ?n)" if "k \<noteq> 0"
            proof -
              have nn: "?va0 + PGSIZE = dstva + ?n" using next_chunk [OF len, of dstva] that t(8) by (auto simp: L)
              show ?thesis unfolding nn by (simp add: diff_diff_eq)
            qed
            then show "unat (v - (?va0 + PGSIZE)) < k \<longleftrightarrow> unat ?n \<le> unat (v - dstva) \<and> unat (v - dstva) < unat ?n + k"
              and "unat ?n \<le> unat (v - dstva) \<Longrightarrow> k \<noteq> 0 \<Longrightarrow> unat (v - (?va0 + PGSIZE)) = unat (v - dstva) - unat ?n"
              using sl by (cases "k = 0", simp, metis)+
          qed
          then show "ubyte (mem t) pt v = (if unat (v - dstva) < unat ?n + k
              then Some (src ! unat (v - dstva)) else ubyte (mem s) pt v)"
            using t(10) [rule_format, of v] w(5) [of v] n 1(3) by (cases "k = 0") (auto simp: lbs)
        qed
      qed
    qed
  qed
qed

section \<open>Properties\<close>

text \<open>An address space of one page, whose bytes are those below 4096.\<close>

lemma user_page_bytes:
  "\<exists>(s :: kmem) ps. ucopy_ok s ps 0x80030000 \<and> (\<forall>v < 4096. ubyte (mem s) 0x80030000 v \<noteq> None) \<and>
     ubyte (mem s) 0x80030000 0x100000 = None"
proof -
  obtain s :: kmem and ps where s: "uvm_ok s ps 0x80030000 1" "fresh_page s 0x80030000 0"
    and top: "\<forall>j \<ge> utop. vmap (mem s) 0x80030000 j = 0" using one_user_page by blast
  let ?e = "vmap (mem s) 0x80030000 0"
  have ok: "ucopy_ok s ps 0x80030000" by (rule uvm_ok_ucopy [OF s(1)]) (use top in \<open>simp add: valid_def\<close>)
  have can: "can_free s ps 0x80030000 (PTE2PA ?e)" "valid ?e" using s(1) by (simp_all add: uvm_ok_def leaf_pte_def)
  have u: "?e AND PTE_U \<noteq> 0"
  proof -
    have e: "?e = PA2PTE (PTE2PA ?e) OR 31" using s(2) by (simp add: fresh_page_def)
    have "PTE_FLAGS ?e = 31" by (subst e) (rule PTE_FLAGS_PA2PTE, simp)
    moreover have "?e AND PTE_U = PTE_FLAGS ?e AND PTE_U" by (simp add: PTE_FLAGS_def and.assoc)
    ultimately show ?thesis by simp
  qed
  have pa: "PTE2PA ?e \<noteq> 0"
    using can s(1) ram_page_nonzero [of s ps] by (auto simp: can_free_def uvm_ok_def vm_ok_def)
  have "ubyte (mem s) 0x80030000 v \<noteq> None" if "v < 4096" for v
  proof -
    have "unat v div 4096 = 0" using that by (simp add: word_less_nat_alt)
    moreover have "v < MAXVA" using that by (simp add: word_less_nat_alt)
    ultimately show ?thesis using can u pa by (simp add: ubyte_def upage_def)
  qed
  moreover have "\<not> valid (vmap (mem s) 0x80030000 256)" using s(1) by (simp add: uvm_ok_def)
  then have "ubyte (mem s) 0x80030000 0x100000 = None" by (simp add: ubyte_def upage_def)
  ultimately show ?thesis using ok by blast
qed

text \<open>
  C3. What \<open>copyout\<close> reports as written is what \<open>copyin\<close> reads back; \<open>copyout\<close> returns 0 exactly when
  every byte of the target range is a user page; the user's view outside of the range is
  unchanged, and no byte outside of the user's own pages is written.
\<close>

theorem copyout_copyin_round_trip:
  assumes "ucopy_ok s ps pt" and "unat len \<le> length src"
  shows "yields (copyout pt va src len s) (\<lambda>r t.
    (r = 0 \<longleftrightarrow> (\<forall>i < unat len. ubyte (mem s) pt (va + of_nat i) \<noteq> None)) \<and>
    (r = 0 \<longrightarrow> copyin pt va len t = Done (0, take (unat len) src) t) \<and>
    (\<forall>v. unat len \<le> unat (v - va) \<longrightarrow> ubyte (mem t) pt v = ubyte (mem s) pt v) \<and>
    same_outside {upage (mem s) pt va | va. upage (mem s) pt va \<noteq> 0} (mem s) (mem t))"
proof (rule yields_mono [OF copyout_ubyte [OF assms]], elim conjE exE, intro conjI impI allI)
  fix r t k
  assume ok: "ucopy_ok t ps pt" and k: "k \<le> unat len" "r = 0 \<longrightarrow> k = unat len"
    and u: "\<forall>v. ubyte (mem t) pt v = (if unat (v - va) < k then Some (src ! unat (v - va)) else ubyte (mem s) pt v)"
  show "ubyte (mem t) pt v = ubyte (mem s) pt v" if "unat len \<le> unat (v - va)" for v
    using that u k by simp
  assume "r = 0"
  with k have k: "k = unat len" by simp
  have b: "ubyte (mem t) pt (va + of_nat i) = Some (src ! i)" if "i < unat len" for i
  proof -
    have "i < 18446744073709551616" using that unat_lt_2_64 [of len] by linarith
    then have "unat (of_nat i :: uint64) = i" by (simp add: unat_of_nat)
    with u that k show ?thesis by simp
  qed
  then have all: "\<forall>i < unat len. ubyte (mem t) pt (va + of_nat i) \<noteq> None" by simp
  have "vm_ok t ps 2 pt" using ok by (simp add: ucopy_ok_def)
  from copyin_ubyte [OF this, of va len] all obtain bs where
    "copyin pt va len t = Done (0, bs) t" "map Some bs = map (\<lambda>i. ubyte (mem t) pt (va + of_nat i)) [0..<unat len]"
    by auto
  moreover from this b have "map Some bs = map Some (map ((!) src) [0..<unat len])" by simp
  then have "bs = map ((!) src) [0..<unat len]" by (rule map_injective) simp
  then have "bs = take (unat len) src" using assms(2) by (auto intro: nth_equalityI)
  ultimately show "copyin pt va len t = Done (0, take (unat len) src) t" by simp
qed

theorem copyout_copyin_round_trip_witness:
  "\<exists>(s :: kmem) t. copyout 0x80030000 5 [7, 8, 9] 3 s = Done 0 t \<and>
     copyin 0x80030000 5 3 t = Done (0, [7, 8, 9]) t"
proof -
  obtain s :: kmem and ps where ok: "ucopy_ok s ps 0x80030000" and b: "\<forall>v < 4096. ubyte (mem s) 0x80030000 v \<noteq> None"
    using user_page_bytes by blast
  have "5 + of_nat i < (4096 :: uint64)" if "i < 3" for i :: nat
    using that by (auto simp: numeral_3_eq_3 less_Suc_eq)
  with b have "\<forall>i < unat (3 :: uint64). ubyte (mem s) 0x80030000 (5 + of_nat i) \<noteq> None" by simp
  with copyout_copyin_round_trip [OF ok, of 3 "[7, 8, 9]" 5] show ?thesis by (fastforce simp: yields_iff)
qed

end
