(* ===== verification/Vm_Free.thy ===== *)
theory Vm_Free
  imports Vm_User
begin

text \<open>
  Freeing an address space: \<open>freewalk\<close> gives back every page-table page of a tree without leaves,
  and \<open>uvmfree\<close> every page a process owned.
\<close>

section \<open>Trees without leaves\<close>

fun no_leaves :: "memory \<Rightarrow> nat \<Rightarrow> uint64 \<Rightarrow> bool" where
  "no_leaves m 0 pt \<longleftrightarrow> (\<forall>i < 512. \<not> valid (entry m pt i))"
| "no_leaves m (Suc l) pt \<longleftrightarrow>
     (\<forall>i < 512. valid (entry m pt i) \<longrightarrow> no_leaves m l (PTE2PA (entry m pt i)))"

fun pte_path :: "memory \<Rightarrow> nat \<Rightarrow> uint64 \<Rightarrow> (nat \<Rightarrow> nat) \<Rightarrow> uint64" where
  "pte_path m 0 pt f = entry m pt (f 0)"
| "pte_path m (Suc l) pt f =
     (let e = entry m pt (f (Suc l)) in if valid e then pte_path m l (PTE2PA e) f else 0)"

lemma pte_at_path: "pte_at m l pt va = pte_path m l pt (\<lambda>k. idx k va)"
  by (induction l arbitrary: pt) (simp_all add: Let_def)

lemma pte_path_cong: "(\<And>k. k \<le> l \<Longrightarrow> f k = g k) \<Longrightarrow> pte_path m l pt f = pte_path m l pt g"
  by (induction l arbitrary: pt) (simp_all add: Let_def)

lemma no_leaves_path:
  "(\<And>f. (\<forall>k. f k < 512) \<Longrightarrow> \<not> valid (pte_path m l pt f)) \<Longrightarrow> no_leaves m l pt"
proof (induction l arbitrary: pt)
  case 0
  show ?case unfolding no_leaves.simps
  proof (intro allI impI)
    fix i :: nat assume "i < 512"
    then show "\<not> valid (entry m pt i)" using 0 [of "\<lambda>_. i"] by simp
  qed
next
  case (Suc l)
  show ?case unfolding no_leaves.simps
  proof (intro allI impI Suc.IH)
    fix i and f :: "nat \<Rightarrow> nat" assume i: "i < 512" "valid (entry m pt i)" and f: "\<forall>k. f k < (512 :: nat)"
    have "pte_path m (Suc l) pt (f(Suc l := i)) = pte_path m l (PTE2PA (entry m pt i)) (f(Suc l := i))"
      using i(2) by simp
    also have "\<dots> = pte_path m l (PTE2PA (entry m pt i)) f" by (rule pte_path_cong) simp
    finally have eq: "pte_path m (Suc l) pt (f(Suc l := i)) = pte_path m l (PTE2PA (entry m pt i)) f" .
    have "\<not> valid (pte_path m (Suc l) pt (f(Suc l := i)))" by (rule Suc.prems) (use i f in simp)
    then show "\<not> valid (pte_path m l (PTE2PA (entry m pt i)) f)" unfolding eq .
  qed
qed

lemma no_leaves_vmap:
  assumes "\<And>j. \<not> valid (vmap m pt j)"
  shows "no_leaves m 2 pt"
proof (rule no_leaves_path)
  fix f :: "nat \<Rightarrow> nat" assume f: "\<forall>k. f k < 512"
  define x where "x = f 1 + 512 * f 2"
  let ?n = "f 0 + 512 * x"
  have x: "x < 262144" "x mod 512 = f 1" "x div 512 = f 2"
    using f [rule_format, of 1] f [rule_format, of 2] by (simp_all add: x_def)
  have n: "?n < 134217728" "?n mod 512 = f 0" "?n div 512 = x" using f [rule_format, of 0] x by simp_all
  then have "unat (vpage ?n) = 4096 * ?n" by (simp add: unat_vpage)
  then have "idx k (vpage ?n) = ?n div 2 ^ (9 * k) mod 512" for k
    by (simp add: idx_eq power_add div_mult2_eq)
  moreover have "?n div 262144 = ?n div 512 div 512" by (simp add: div_mult2_eq [symmetric])
  ultimately have "idx 0 (vpage ?n) = f 0" "idx 1 (vpage ?n) = f 1" "idx 2 (vpage ?n) = f 2"
    using f n x by simp_all
  then have "idx k (vpage ?n) = f k" if "k \<le> 2" for k
    using that by (metis One_nat_def le_SucE le_zero_eq numeral_2_eq_2)
  then have "pte_path m 2 pt f = vmap m pt ?n"
    using n(1) by (simp add: vmap_def pte_at_path) (rule pte_path_cong, simp)
  with assms show "\<not> valid (pte_path m 2 pt f)" by simp
qed

lemma no_leaves_cong:
  assumes "\<forall>p \<in> set (nodes m l pt). \<forall>i < 512. entry m' p i = entry m p i"
  shows "no_leaves m' l pt = no_leaves m l pt"
  using assms
proof (induction l arbitrary: pt)
  case (Suc l)
  have "no_leaves m' l (PTE2PA (entry m pt i)) = no_leaves m l (PTE2PA (entry m pt i))"
    if "i < 512" "valid (entry m pt i)" for i
    using Suc.prems that by (intro Suc.IH) (auto simp: set_nodes_Suc below_def)
  moreover have "entry m' pt i = entry m pt i" if "i < 512" for i
    using Suc.prems that by simp
  ultimately show ?case by auto
qed simp

section \<open>freewalk\<close>

lemma yields_unit: "yields m (\<lambda>_ t. t = s \<and> P) \<Longrightarrow> m = Done () s"
  by (cases m) simp_all

text \<open>
  The state inside the loop of \<open>freewalk\<close> on page \<open>pt\<close> of level \<open>Suc l\<close>, before entry \<open>i\<close>: the pages
  \<open>qs\<close> of the subtrees below the entries up to \<open>i\<close> are on the free list.
\<close>

definition walked :: "('a) kmem_scheme \<Rightarrow> uint64 list \<Rightarrow> nat \<Rightarrow> uint64 \<Rightarrow> nat \<Rightarrow> ('a) kmem_scheme \<Rightarrow> uint64 list \<Rightarrow> bool" where
  "walked s ps l pt i t qs \<longleftrightarrow> kmem_inv t (qs @ ps) \<and> only_mem s t \<and>
     set qs = (\<Union>k \<in> {k. k < i}. set (below (mem s) l pt k)) \<and>
     same_outside (insert pt (set qs)) (mem s) (mem t) \<and>
     (\<forall>j. i \<le> j \<and> j < 512 \<longrightarrow> entry (mem t) pt j = entry (mem s) pt j)"

lemma walked_child:
  assumes s: "vm_ok s ps (Suc l) pt" and nl: "no_leaves (mem s) (Suc l) pt" and i: "i < 512"
    and e: "valid (entry (mem s) pt i)" "c = PTE2PA (entry (mem s) pt i)"
    and w: "walked s ps l pt i t qs"
  shows "vm_ok t (qs @ ps) l c" and "no_leaves (mem t) l c" and "nodes (mem t) l c = below (mem s) l pt i"
proof -
  have om: "only_mem s t" and inv: "kmem_inv t (qs @ ps)"
    and so: "same_outside (insert pt (set qs)) (mem s) (mem t)"
    and qs: "set qs = (\<Union>k \<in> {k. k < i}. set (below (mem s) l pt k))"
    using w unfolding walked_def by blast+
  have b: "nodes (mem s) l c = below (mem s) l pt i" using e by (simp add: below_def)
  have d: "distinct (nodes (mem s) (Suc l) pt)" using s by (simp add: vm_ok_def tree_ok_def)
  have sub: "set qs \<subseteq> set (nodes (mem s) (Suc l) pt)" 
    unfolding qs using i below_subset [of _ "mem s" l pt] by (intro UN_least) simp
  have "set (below (mem s) l pt i) \<inter> set (below (mem s) l pt k) = {}" if "k < i" for k
    using d i that by (simp add: distinct_nodes_Suc)
  moreover have "pt \<notin> set (below (mem s) l pt i)" using d i by (simp add: distinct_nodes_Suc)
  ultimately have disj: "set (nodes (mem s) l c) \<inter> insert pt (set qs) = {}" by (auto simp: b qs)
  have al: "\<forall>p \<in> insert pt (set qs). page_aligned p"
    using vm_ok_nodes(1) [OF s] sub by auto
  have tree: "tree_ok (mem s) (ram_page s) l c" using vm_ok_child [OF s i e(1)] e(2) by (simp add: vm_ok_def)
  note fr = tree_frame [OF tree so al disj]
  show n: "nodes (mem t) l c = below (mem s) l pt i" using fr(1) b by simp
  have "set ps \<inter> set (below (mem s) l pt i) = {}"
    using vm_ok_nodes(4) [OF s] below_subset [OF i, of "mem s" l pt] by auto
  then show "vm_ok t (qs @ ps) l c"
    using inv fr(2) disj n b by (auto simp: vm_ok_def only_mem_keeps [OF om])
  have "\<forall>p \<in> set (nodes (mem s) l c). \<forall>j < 512. entry (mem t) p j = entry (mem s) p j"
    using tree disj by (auto simp: tree_ok_def intro!: entry_same_outside [OF so al])
  from no_leaves_cong [OF this] show "no_leaves (mem t) l c" using nl i e by simp
qed

lemma walked_step:
  assumes s: "vm_ok s ps (Suc l) pt" and i: "i < 512" and e: "valid (entry (mem s) pt i)"
    and w: "walked s ps l pt i t qs"
    and u: "kmem_inv u (rs @ qs @ ps)" "only_mem t u" "set rs = set (below (mem s) l pt i)"
      "same_outside (set rs) (mem t) (mem u)"
  shows "walked s ps l pt (Suc i) (u\<lparr>mem := store64 (mem u) (pt + 8 * of_nat i) 0\<rparr>) (rs @ qs)"
proof -
  let ?m = "store64 (mem u) (pt + 8 * of_nat i) 0"
  have om: "only_mem s t" and so: "same_outside (insert pt (set qs)) (mem s) (mem t)"
    and qs: "set qs = (\<Union>k \<in> {k. k < i}. set (below (mem s) l pt k))"
    and ent: "\<forall>j. i \<le> j \<and> j < 512 \<longrightarrow> entry (mem t) pt j = entry (mem s) pt j"
    using w unfolding walked_def by blast+
  have pt: "page_aligned pt" "pt \<notin> set ps" using vm_ok_nodes [OF s root_in_nodes] by auto
  have d: "distinct (nodes (mem s) (Suc l) pt)" using s by (simp add: vm_ok_def tree_ok_def)
  have pb: "pt \<notin> set rs" "pt \<notin> set qs" using d i by (auto simp: u(3) qs distinct_nodes_Suc)
  have al: "\<forall>p \<in> set rs. page_aligned p"
    using vm_ok_nodes(1) [OF s] below_subset [OF i, of "mem s" l pt] u(3) by auto
  have sm: "same_outside {pt} (mem u) ?m"
    using pt i by (intro same_outside_store64) (simp_all add: slot_in_page)
  have "kmem_inv (u\<lparr>mem := ?m\<rparr>) ((rs @ qs) @ ps)"
    using kmem_inv_write [OF u(1) sm] pt pb by simp
  moreover have "only_mem s (u\<lparr>mem := ?m\<rparr>)"
    by (rule only_mem_trans [OF only_mem_trans [OF om u(2)] only_mem_mem])
  moreover have "{k. k < Suc i} = insert i {k. k < i}" by auto
  then have "set (rs @ qs) = (\<Union>k \<in> {k. k < Suc i}. set (below (mem s) l pt k))"
    by (simp add: u(3) qs)
  moreover have "same_outside (insert pt (set (rs @ qs))) (mem s) ?m"
    by (rule same_outside_mono [OF same_outside_trans [OF so same_outside_trans [OF u(4) sm]]]) auto
  moreover have "entry ?m pt j = entry (mem s) pt j" if "Suc i \<le> j" "j < 512" for j
    using that ent pt pb i entry_same_outside [OF u(4) al pt(1) pb(1), of j] by (simp add: entry_store)
  ultimately show ?thesis by (simp add: walked_def)
qed

lemma freewalk_frees:
  fixes s :: "('a) kmem_scheme"
  assumes "vm_ok s ps l pt" and "no_leaves (mem s) l pt"
  shows "yields (freewalk (Suc l) pt s) (\<lambda>_ t. \<exists>qs. kmem_inv t (qs @ ps) \<and> only_mem s t \<and>
    set qs = set (nodes (mem s) l pt) \<and> same_outside (set qs) (mem s) (mem t))"
  using assms
proof (induction l arbitrary: s ps pt)
  case 0
  let ?body = "\<lambda>i s. let pte = load64 (mem s) (pt + 8 * of_nat i)
    in if pte AND PTE_V \<noteq> 0 \<and> pte AND (PTE_R OR PTE_W OR PTE_X) = 0
       then let child = PTE2PA pte in obind (freewalk 0 child s) (\<lambda>_ s.
         Done () (s\<lparr>mem := store64 (mem s) (pt + 8 * of_nat i) 0\<rparr>))
       else if pte AND PTE_V \<noteq> 0 then Panic ''freewalk: leaf'' else Done () s"
  have "yields (ofor [0..<512] ?body s) (\<lambda>_ t. t = s \<and> set [] \<subseteq> {k. k < (512 :: nat)})"
    by (rule ofor_invariant [where P = "\<lambda>js t. t = s \<and> set js \<subseteq> {k. k < 512}"])
      (use 0(2) in \<open>auto simp: entry_def valid_def\<close>)
  then have loop: "ofor [0..<512] ?body s = Done () s" by (rule yields_unit)
  have "freewalk (Suc 0) pt s = kfree pt s" unfolding freewalk.simps(2) loop by (rule obind.simps(1))
  moreover have "kmem_inv s ps" "ram_page s pt" "pt \<notin> set ps"
    using 0(1) vm_ok_nodes [OF 0(1) root_in_nodes] by (simp_all add: vm_ok_def)
  ultimately show ?case
    using kfree_push [of s ps pt] by (auto elim!: yields_mono intro!: exI [of _ "[pt]"])
next
  case (Suc l)
  let ?body = "\<lambda>i s. let pte = load64 (mem s) (pt + 8 * of_nat i)
    in if pte AND PTE_V \<noteq> 0 \<and> pte AND (PTE_R OR PTE_W OR PTE_X) = 0
       then let child = PTE2PA pte in obind (freewalk (Suc l) child s) (\<lambda>_ s.
         Done () (s\<lparr>mem := store64 (mem s) (pt + 8 * of_nat i) 0\<rparr>))
       else if pte AND PTE_V \<noteq> 0 then Panic ''freewalk: leaf'' else Done () s"
  have step: "yields (?body i t) (\<lambda>_ u. \<exists>rs. walked s ps l pt (Suc i) u rs)"
    if i: "i < 512" and w: "walked s ps l pt i t qs" for i t qs
  proof (cases "valid (entry (mem s) pt i)")
    case True
    let ?c = "PTE2PA (entry (mem s) pt i)"
    have e: "load64 (mem t) (pt + 8 * of_nat i) = entry (mem s) pt i"
      using w i by (simp add: walked_def entry_def)
    have flags: "entry (mem s) pt i AND (PTE_R OR PTE_W OR PTE_X) = 0"
      using Suc.prems(1) i True by (simp add: vm_ok_def tree_ok_def)
    note ch = walked_child [OF Suc.prems i True refl w]
    from Suc.IH [OF ch(1,2)] ch(3) obtain u rs where u: "freewalk (Suc l) ?c t = Done () u"
      "kmem_inv u (rs @ qs @ ps)" "only_mem t u" "set rs = set (below (mem s) l pt i)"
      "same_outside (set rs) (mem t) (mem u)" by (auto simp: yields_iff)
    from walked_step [OF Suc.prems(1) i True w u(2-5)] True flags u(1) show ?thesis
      by (auto simp: Let_def e valid_def)
  next
    case False
    have "{k. k < Suc i} = insert i {k. k < i}" by auto
    with False w i show ?thesis
      by (auto simp: Let_def walked_def entry_def valid_def below_def)
  qed
  have "walked s ps l pt 0 s []" using Suc.prems(1) by (simp add: walked_def vm_ok_def)
  then have "yields (ofor [0..<512] ?body s) (\<lambda>_ t. \<exists>qs. walked s ps l pt 512 t qs)"
    by (intro ofor_upt [where P = "\<lambda>i t. \<exists>qs. walked s ps l pt i t qs"]) (blast intro: step)+
  then obtain t qs where loop: "ofor [0..<512] ?body s = Done () t" and w: "walked s ps l pt 512 t qs"
    unfolding yields_iff by fastforce
  have free: "freewalk (Suc (Suc l)) pt s = kfree pt t"
    unfolding freewalk.simps(2) [of "Suc l"] loop by (rule obind.simps(1))
  have t: "kmem_inv t (qs @ ps)" "only_mem s t" "same_outside (insert pt (set qs)) (mem s) (mem t)"
    and qs: "set qs = (\<Union>k \<in> {k. k < 512}. set (below (mem s) l pt k))"
    using w unfolding walked_def by blast+
  have "distinct (nodes (mem s) (Suc l) pt)" using Suc.prems(1) by (simp add: vm_ok_def tree_ok_def)
  then have "pt \<notin> set (qs @ ps)" "ram_page t pt"
    using vm_ok_nodes [OF Suc.prems(1) root_in_nodes] by (auto simp: qs distinct_nodes_Suc only_mem_keeps [OF t(2)])
  from kfree_push [OF t(1) this(2,1)] show ?case
    unfolding free
  proof (rule yields_mono, elim conjE)
    fix x u assume u: "kmem_inv u (pt # qs @ ps)" "only_mem t u" "same_outside {pt} (mem t) (mem u)"
    have "same_outside (insert pt (set qs)) (mem s) (mem u)"
      by (rule same_outside_mono [OF same_outside_trans [OF t(3) u(3)]]) simp
    then show "\<exists>rs. kmem_inv u (rs @ ps) \<and> only_mem s u \<and> set rs = set (nodes (mem s) (Suc l) pt) \<and>
        same_outside (set rs) (mem s) (mem u)"
      using u only_mem_trans [OF t(2) u(2)]
      by (intro exI [of _ "pt # qs"]) (simp add: set_nodes_Suc qs)
  qed
qed

section \<open>uvmfree\<close>

text \<open>
  Freeing an address space of \<open>npages sz\<close> pages, with nothing mapped above them: every page it owned
  is free afterwards, and no page outside of it was written.
\<close>

lemma uvmfree_frees:
  assumes s: "uvm_ok s ps pt (npages sz)" and top: "\<forall>j \<ge> utop. \<not> valid (vmap (mem s) pt j)"
  shows "yields (uvmfree pt sz s) (\<lambda>_ t. \<exists>qs. kmem_inv t qs \<and> set qs = owned s ps pt (npages sz) \<and>
    only_mem s t \<and> same_outside (owned s ps pt (npages sz)) (mem s) (mem t))"
proof -
  let ?n = "npages sz"
  have n: "?n \<le> 67108864" using s by (simp add: uvm_ok_def)
  have "yields (if sz > 0 then uvmunmap pt 0 (PGROUNDUP sz div PGSIZE) True s else Done () s)
      (\<lambda>_ t. \<exists>qs. uvm_rel 0 s ps ?n t qs 0 pt)"
  proof (cases "sz > 0")
    case True
    have "PGROUNDUP sz div PGSIZE = of_nat ?n"
      using vpage_diff(1) [of 0 ?n] n by (simp add: PGROUNDUP_vpage [OF n] vpage_def)
    with True uvmunmap_shrinks [OF s, of 0] show ?thesis by (simp add: vpage_def)
  next
    case False
    then have "sz = 0" by (simp add: word_gt_0)
    then have "?n = 0" by (simp add: npages_def)
    with False s uvm_rel_refl [OF s, of 0] show ?thesis by auto
  qed
  then obtain t qs where t: "(if sz > 0 then uvmunmap pt 0 (PGROUNDUP sz div PGSIZE) True s else Done () s) = Done () t"
    and rel: "uvm_rel 0 s ps ?n t qs 0 pt" by (auto simp: yields_iff)
  have ok: "uvm_ok t qs pt 0" and om: "only_mem s t" and ow: "owned t qs pt 0 = owned s ps pt ?n"
    and so: "same_outside (owned s ps pt ?n) (mem s) (mem t)"
    using rel by (simp_all add: uvm_rel_def upages_def)
  have "\<not> valid (vmap (mem t) pt j)" for j
    using ok rel top by (cases "j < utop") (auto simp: uvm_ok_def uvm_rel_def)
  then have "no_leaves (mem t) 2 pt" by (rule no_leaves_vmap)
  moreover have "vm_ok t qs 2 pt" using ok by (simp add: uvm_ok_def)
  ultimately have "yields (freewalk 3 pt t) (\<lambda>_ u. \<exists>rs. kmem_inv u (rs @ qs) \<and> only_mem t u \<and>
      set rs = set (nodes (mem t) 2 pt) \<and> same_outside (set rs) (mem t) (mem u))"
    using freewalk_frees [of t qs 2 pt] by (simp only: Suc_numeral semiring_norm)
  then show ?thesis
    unfolding uvmfree_def t obind.simps
  proof (rule yields_mono, elim exE conjE)
    fix x u rs
    assume u: "kmem_inv u (rs @ qs)" "only_mem t u" "set rs = set (nodes (mem t) 2 pt)"
      "same_outside (set rs) (mem t) (mem u)"
    have "owned t qs pt 0 = set qs \<union> set (nodes (mem t) 2 pt)" by (simp add: owned_def upages_def)
    then have set: "set (rs @ qs) = owned s ps pt ?n" using u(3) ow by auto
    have "same_outside (owned s ps pt ?n) (mem s) (mem u)"
      by (rule same_outside_mono [OF same_outside_trans [OF so u(4)]]) (use set in auto)
    with u set only_mem_trans [OF om u(2)] show "\<exists>qs. kmem_inv u qs \<and> set qs = owned s ps pt ?n \<and>
        only_mem s u \<and> same_outside (owned s ps pt ?n) (mem s) (mem u)" by blast
  qed
qed

section \<open>Properties\<close>

text \<open>
  C28. \<open>uvmfree\<close> gives back every page of an address space: afterwards the free list holds exactly
  the pages that were free, page-table pages or user pages before, each once, and no other memory
  was written.
\<close>

theorem uvmfree_no_leak:
  assumes "uvm_ok s ps pt (npages sz)" and "\<forall>j \<ge> utop. \<not> valid (vmap (mem s) pt j)"
  shows "yields (uvmfree pt sz s) (\<lambda>_ t. \<exists>qs. kmem_inv t qs \<and> distinct qs \<and>
    set qs = set ps \<union> set (nodes (mem s) 2 pt) \<union> set (upages (vmap (mem s) pt) (npages sz)) \<and>
    same_outside (set qs) (mem s) (mem t))"
  using uvmfree_frees [OF assms] by (elim yields_mono exE) (auto simp: owned_def kmem_inv_def)

theorem uvmfree_no_leak_witness:
  "yields (uvmfree 0x80030000 0 (pool 0x80010000 [0x80020000])) (\<lambda>_ t. \<exists>qs. kmem_inv t qs \<and>
     {0x80020000, 0x80030000} \<subseteq> set qs)"
proof -
  let ?s = "pool 0x80010000 [0x80020000]"
  have "\<forall>p \<in> set [0x80030000, 0x80020000]. page_aligned p \<and> 0x80010000 \<le> p \<and> p < PHYSTOP"
    by (simp add: page_aligned_def)
  note ok = pool_uvm [OF _ this, simplified] and vm = pool_vm [OF _ this, simplified]
  have "npages 0 = 0" by (simp add: npages_def)
  with uvmfree_no_leak [of ?s "[0x80020000]" "0x80030000" 0] ok vm show ?thesis
    by (auto elim!: yields_mono simp: valid_def)
qed

end
