(* ===== verification/C_String.thy ===== *)
theory C_String
  imports Prelude
begin

text \<open>
  The string routines of \<open>kernel/string.c\<close> on the bytes of a C object, from the pointer that is
  passed to the end of the object it points into. Reading or writing past that end is the
  result \<open>None\<close>.
\<close>

section \<open>Strings\<close>

text \<open>The C string at most \<open>n\<close> bytes of an object hold: what precedes the first NUL.\<close>

definition cstr :: "uint8 list \<Rightarrow> uint8 list" where
  "cstr p = takeWhile (\<lambda>b. b \<noteq> 0) p"

definition cstrn :: "nat \<Rightarrow> uint8 list \<Rightarrow> uint8 list" where
  "cstrn n p = cstr (take n p)"

text \<open>The bytes of a string literal.\<close>

definition bytes :: "string \<Rightarrow> uint8 list" where
  "bytes str = map of_char str"

fun strlen :: "uint8 list \<Rightarrow> nat option" where
  "strlen [] = None"
| "strlen (b # s) = (if b \<noteq> 0 then map_option Suc (strlen s) else Some 0)"

text \<open>
  \<open>while(n > 0 && *p && *p == *q) n--, p++, q++;\<close> and then the difference of the bytes.
\<close>

fun strncmp :: "uint8 list \<Rightarrow> uint8 list \<Rightarrow> nat \<Rightarrow> int option" where
  "strncmp p q 0 = Some 0"
| "strncmp (a # p) (b # q) (Suc n) =
     (if a \<noteq> 0 \<and> a = b then strncmp p q n else Some (uint a - uint b))"
| "strncmp _ _ (Suc n) = None"

text \<open>\<open>while(n-- > 0) *s++ = 0;\<close>, the second loop of \<open>strncpy\<close>.\<close>

fun zero_pad :: "uint8 list \<Rightarrow> nat \<Rightarrow> uint8 list option" where
  "zero_pad s 0 = Some s"
| "zero_pad (_ # s) (Suc n) = map_option ((#) 0) (zero_pad s n)"
| "zero_pad [] (Suc n) = None"

fun strncpy :: "uint8 list \<Rightarrow> uint8 list \<Rightarrow> nat \<Rightarrow> uint8 list option" where
  "strncpy s t 0 = Some s"
| "strncpy (_ # s) (b # t) (Suc n) =
     map_option ((#) b) (if b \<noteq> 0 then strncpy s t n else zero_pad s n)"
| "strncpy _ _ (Suc n) = None"

text \<open>
  \<open>if(n <= 0) return os; while(--n > 0 && (*s++ = *t++) != 0); *s = 0;\<close>. After a NUL has
  been copied the loop stops with \<open>s\<close> one past it, so a second NUL is written there.
\<close>

fun safestrcpy :: "uint8 list \<Rightarrow> uint8 list \<Rightarrow> nat \<Rightarrow> uint8 list option" where
  "safestrcpy s t 0 = Some s"
| "safestrcpy (_ # s) t (Suc 0) = Some (0 # s)"
| "safestrcpy (_ # s) (b # t) (Suc (Suc n)) =
     map_option ((#) b)
       (if b \<noteq> 0 then safestrcpy s t (Suc n)
        else case s of [] \<Rightarrow> None | _ # s' \<Rightarrow> Some (0 # s'))"
| "safestrcpy _ _ (Suc n) = None"

lemma strlen_cstr:
  assumes "0 \<in> set s"
  shows "strlen s = Some (length (cstr s))"
  using assms by (induction s) (auto simp: cstr_def)

lemma cstr_Cons: "cstr (b # s) = (if b = 0 then [] else b # cstr s)"
  by (simp add: cstr_def)

lemma cstrn_Suc: "cstrn (Suc n) (b # s) = (if b = 0 then [] else b # cstrn n s)"
  by (simp add: cstrn_def cstr_def)

lemma cstrn_0 [simp]: "cstrn 0 s = []"
  by (simp add: cstrn_def cstr_def)

text \<open>Two strings compare as equal exactly when they agree up to a NUL or the first \<open>n\<close> bytes.\<close>

lemma strncmp_eq_0_iff:
  assumes "n \<le> length p" and "n \<le> length q"
  shows "strncmp p q n = Some 0 \<longleftrightarrow> cstrn n p = cstrn n q"
  using assms
proof (induction p q n rule: strncmp.induct)
  case (2 a p b q n)
  then show ?case by (auto simp: cstrn_Suc word_uint_eq_iff)
qed auto

lemma strncmp_total:
  assumes "n \<le> length p" and "n \<le> length q"
  shows "\<exists>r. strncmp p q n = Some r"
  using assms by (induction p q n rule: strncmp.induct) auto

lemma zero_pad_eq:
  "n \<le> length s \<Longrightarrow> zero_pad s n = Some (replicate n 0 @ drop n s)"
  by (induction s n rule: zero_pad.induct) auto

lemma strncpy_cstrn:
  assumes "n \<le> length s" and "0 \<in> set t \<or> n \<le> length t"
  shows "\<exists>r. strncpy s t n = Some r \<and> length r = length s \<and> cstrn n r = cstrn n t \<and>
    drop n r = drop n s"
  using assms
proof (induction s t n rule: strncpy.induct)
  case (2 c s b t n)
  show ?case
  proof (cases "b = 0")
    case True
    with 2 show ?thesis by (auto simp: zero_pad_eq cstrn_Suc)
  next
    case False
    with 2 show ?thesis by (auto simp: cstrn_Suc)
  qed
qed auto

text \<open>
  \<open>safestrcpy\<close> always leaves a NUL-terminated string: the source string cut to \<open>n - 1\<close> bytes.
\<close>

lemma safestrcpy_cstr:
  assumes "0 < n" and "n \<le> length s" and "0 \<in> set t \<or> n \<le> length t"
  shows "\<exists>r. safestrcpy s t n = Some r \<and> length r = length s \<and> 0 \<in> set (take n r) \<and>
    cstr r = take (n - 1) (cstr t) \<and> drop n r = drop n s"
  using assms
proof (induction s t n rule: safestrcpy.induct)
  case (3 c s b t n)
  show ?case
  proof (cases "b = 0")
    case True
    with 3 show ?thesis by (cases s) (auto simp: cstr_Cons)
  next
    case False
    with 3 show ?thesis by (auto simp: cstr_Cons)
  qed
qed (auto simp: cstr_Cons)

section \<open>Properties\<close>

text \<open>
  C37. \<open>safestrcpy\<close> into a buffer of \<open>n > 0\<close> bytes stays inside the buffer, always leaves a
  NUL-terminated string in it, and that string is the source cut to \<open>n - 1\<close> bytes.
\<close>

theorem safestrcpy_terminates_string:
  assumes "0 < n" and "n \<le> length s" and "0 \<in> set t \<or> n \<le> length t"
  shows "\<exists>r. safestrcpy s t n = Some r \<and> length r = length s \<and> 0 \<in> set (take n r) \<and>
    cstr r = take (n - 1) (cstr t) \<and> drop n r = drop n s"
  using assms by (rule safestrcpy_cstr)

theorem safestrcpy_terminates_string_witness:
  "\<exists>r. safestrcpy [9, 9, 9, 9] [105, 110, 105, 116, 0] 3 = Some r \<and> cstr r = [105, 110] \<and> drop 3 r = [9]"
  using safestrcpy_terminates_string [of 3 "[9, 9, 9, 9]" "[105, 110, 105, 116, 0]"]
  by (auto simp: cstr_def)

text \<open>
  C38. \<open>strncmp\<close> never reads past \<open>n\<close> bytes of either argument, and returns 0 exactly when the two
  strings agree up to their NUL or up to \<open>n\<close> bytes.
\<close>

theorem strncmp_decides_equality:
  assumes "n \<le> length p" and "n \<le> length q"
  shows "\<exists>r. strncmp p q n = Some r \<and> (r = 0 \<longleftrightarrow> cstrn n p = cstrn n q)"
  using strncmp_total [OF assms] strncmp_eq_0_iff [OF assms] by auto

theorem strncmp_decides_equality_witness:
  "\<exists>r. strncmp [97, 98, 0, 7] [97, 98, 0, 9] 4 = Some r \<and> r = 0"
  using strncmp_decides_equality [of 4 "[97, 98, 0, 7]" "[97, 98, 0, 9]"]
  by (auto simp: cstrn_def cstr_def)

end
