(* ===== verification/Proc.thy ===== *)
theory Proc
  imports Vm_Copy Vm_Free C_String
begin

unbundle bit_operations_syntax

text \<open>
  The process table and the scheduler (\<open>kernel/proc.c\<close>, \<open>kernel/proc.h\<close>): allocation and release
  of table entries, \<open>sched\<close>/\<open>scheduler\<close>, sleep and wakeup, \<open>wait\<close>, \<open>kill\<close>, and the two copy
  functions that take either a user or a kernel address. What needs the file system (\<open>fork\<close>, \<open>exit\<close>,
  \<open>userinit\<close>, \<open>forkret\<close>) or the console is in later theories.

  A process is named by its index in \<open>proc[]\<close>, a null \<open>struct proc *\<close> is \<open>None\<close>, and following it
  faults into \<open>kerneltrap\<close>. The model runs one kernel thread until it returns, panics, or calls \<open>swtch\<close>:
  \<open>swtch\<close> is the outcome \<open>Switch\<close>, and the code after it is the continuation the thread executes when
  the scheduler switches back to it.
\<close>

section \<open>State\<close>

datatype procstate = UNUSED | USED | SLEEPING | RUNNABLE | RUNNING | ZOMBIE

text \<open>
  The objects whose addresses the kernel sleeps on: a process (\<open>wait\<close>), \<open>ticks\<close>, a sleep-lock, the
  log, the two counters of a pipe, the console and uart indices, a disk buffer and the free flags
  of the disk's descriptors.
\<close>

datatype chan =
    ChProc nat | ChTicks | ChSleeplock lockid | ChLog | ChNread uint64 | ChNwrite uint64
  | ChConsR | ChUartR | ChBuf nat | ChDiskFree

record proc =
  p_state :: procstate
  p_chan :: "chan option"
  p_killed :: int
  p_xstate :: uint32
  p_pid :: uint32
  p_parent :: "nat option"
  p_kstack :: uint64
  p_sz :: uint64
  p_pagetable :: uint64
  p_trapframe :: uint64
  p_context :: kcontext
  p_ofile :: "nat \<Rightarrow> nat option"
  p_cwd :: "nat option"
  p_name :: "uint8 list"

record pstate = vm +
  procs :: "nat \<Rightarrow> proc"
  nextpid :: uint32
  initproc :: "nat option"
  ticks :: uint32
  forkret_addr :: uint64

definition upd_proc :: "nat \<Rightarrow> (proc \<Rightarrow> proc) \<Rightarrow> ('a) pstate_scheme \<Rightarrow> ('a) pstate_scheme" where
  "upd_proc p f s = s\<lparr>procs := (procs s)(p := f (procs s p))\<rparr>"

text \<open>Use of a pointer that may be null.\<close>

definition deref :: "'p option \<Rightarrow> ('p \<Rightarrow> 's \<Rightarrow> ('b, 's) outcome) \<Rightarrow> 's \<Rightarrow> ('b, 's) outcome" where
  "deref p f s = (case p of None \<Rightarrow> Panic ''kerneltrap'' | Some q \<Rightarrow> f q s)"

lemma deref_simps [simp]: "deref None f s = Panic ''kerneltrap''" "deref (Some q) f s = f q s"
  by (simp_all add: deref_def)

lemma deref_cong [fundef_cong]:
  "p = p' \<Longrightarrow> s = s' \<Longrightarrow> (\<And>q. p' = Some q \<Longrightarrow> f q s' = g q s') \<Longrightarrow> deref p f s = deref p' g s'"
  by (cases p') simp_all

section \<open>Initialisation and the current process\<close>

definition procinit :: "('a) pstate_scheme \<Rightarrow> (unit, ('a) pstate_scheme) outcome" where
  "procinit s =
     obind (initlock PidLock ''nextpid'' s) (\<lambda>_ s.
     obind (initlock WaitLock ''wait_lock'' s) (\<lambda>_ s.
     ofor [0..<NPROC] (\<lambda>p s.
       obind (initlock (ProcLock p) ''proc'' s) (\<lambda>_ s.
       Done () (upd_proc p (\<lambda>q. q\<lparr>p_kstack := KSTACK p\<rparr>) s))) s))"

definition cpuid :: "('a) machine_scheme \<Rightarrow> nat" where
  "cpuid s = tp s"

definition myproc :: "('a) machine_scheme \<Rightarrow> (nat option, ('a) machine_scheme) outcome" where
  "myproc s =
     obind (push_off s) (\<lambda>_ s.
     let p = cpu_proc (mycpu s)
     in obind (pop_off s) (\<lambda>_ s. Done p s))"

definition allocpid :: "('a) pstate_scheme \<Rightarrow> (uint32, ('a) pstate_scheme) outcome" where
  "allocpid s =
     obind (acquire PidLock s) (\<lambda>_ s.
     let pid = nextpid s;
         s = s\<lparr>nextpid := nextpid s + 1\<rparr>
     in obind (release PidLock s) (\<lambda>_ s. Done pid s))"

section \<open>Allocation and release of processes\<close>

definition proc_pagetable :: "nat \<Rightarrow> ('a) pstate_scheme \<Rightarrow> (uint64, ('a) pstate_scheme) outcome" where
  "proc_pagetable p s =
     obind (uvmcreate s) (\<lambda>pagetable s.
     if pagetable = 0 then Done 0 s
     else obind (mappages pagetable TRAMPOLINE PGSIZE (trampoline s) (PTE_R OR PTE_X) s) (\<lambda>r s.
       if r < 0 then obind (uvmfree pagetable 0 s) (\<lambda>_ s. Done 0 s)
       else obind (mappages pagetable TRAPFRAME PGSIZE (p_trapframe (procs s p)) (PTE_R OR PTE_W) s) (\<lambda>r s.
         if r < 0
         then obind (uvmunmap pagetable TRAMPOLINE 1 False s) (\<lambda>_ s.
              obind (uvmfree pagetable 0 s) (\<lambda>_ s. Done 0 s))
         else Done pagetable s)))"

definition proc_freepagetable :: "uint64 \<Rightarrow> uint64 \<Rightarrow> ('a) pstate_scheme \<Rightarrow> (unit, ('a) pstate_scheme) outcome" where
  "proc_freepagetable pagetable sz s =
     obind (uvmunmap pagetable TRAMPOLINE 1 False s) (\<lambda>_ s.
     obind (uvmunmap pagetable TRAPFRAME 1 False s) (\<lambda>_ s.
     uvmfree pagetable sz s))"

definition freeproc :: "nat \<Rightarrow> ('a) pstate_scheme \<Rightarrow> (unit, ('a) pstate_scheme) outcome" where
  "freeproc p s =
     obind (if p_trapframe (procs s p) \<noteq> 0 then kfree (p_trapframe (procs s p)) s else Done () s) (\<lambda>_ s.
     let s = upd_proc p (\<lambda>q. q\<lparr>p_trapframe := 0\<rparr>) s
     in obind (if p_pagetable (procs s p) \<noteq> 0
               then proc_freepagetable (p_pagetable (procs s p)) (p_sz (procs s p)) s else Done () s) (\<lambda>_ s.
     Done () (upd_proc p (\<lambda>q. q\<lparr>p_pagetable := 0, p_sz := 0, p_pid := 0, p_parent := None,
       p_name := (p_name q)[0 := 0], p_chan := None, p_killed := 0, p_xstate := 0, p_state := UNUSED\<rparr>) s)))"

text \<open>The search loop of \<open>allocproc\<close>: it ends at the first unused entry, with that entry locked.\<close>

fun allocproc_find :: "nat list \<Rightarrow> ('a) pstate_scheme \<Rightarrow> (nat option, ('a) pstate_scheme) outcome" where
  "allocproc_find [] s = Done None s"
| "allocproc_find (p # ps) s =
     obind (acquire (ProcLock p) s) (\<lambda>_ s.
     if p_state (procs s p) = UNUSED then Done (Some p) s
     else obind (release (ProcLock p) s) (\<lambda>_. allocproc_find ps))"

definition allocproc :: "('a) pstate_scheme \<Rightarrow> (nat option, ('a) pstate_scheme) outcome" where
  "allocproc s =
     obind (allocproc_find [0..<NPROC] s) (\<lambda>r s.
     case r of None \<Rightarrow> Done None s
     | Some p \<Rightarrow>
       obind (allocpid s) (\<lambda>pid s.
       let s = upd_proc p (\<lambda>q. q\<lparr>p_pid := pid, p_state := USED\<rparr>) s
       in obind (kalloc s) (\<lambda>pa s.
       let s = upd_proc p (\<lambda>q. q\<lparr>p_trapframe := pa\<rparr>) s
       in if pa = 0
          then obind (freeproc p s) (\<lambda>_ s. obind (release (ProcLock p) s) (\<lambda>_ s. Done None s))
          else obind (proc_pagetable p s) (\<lambda>pagetable s.
            let s = upd_proc p (\<lambda>q. q\<lparr>p_pagetable := pagetable\<rparr>) s
            in if pagetable = 0
               then obind (freeproc p s) (\<lambda>_ s. obind (release (ProcLock p) s) (\<lambda>_ s. Done None s))
               else let s = upd_proc p (\<lambda>q. q\<lparr>p_context := ctx0\<lparr>ctx_ra := forkret_addr s,
                                ctx_sp := p_kstack q + PGSIZE\<rparr>\<rparr>) s
                    in Done (Some p) s))))"

text \<open>
  \<open>uint sz\<close> has 32 bits: the old size is cut to them, \<open>sz + n\<close> wraps, and so does the result that is
  stored back.
\<close>

definition growproc :: "uint32 \<Rightarrow> ('a) pstate_scheme \<Rightarrow> (int, ('a) pstate_scheme) outcome" where
  "growproc n s =
     obind (myproc s) (\<lambda>p. deref p (\<lambda>p s.
     let sz = (ucast (p_sz (procs s p)) :: uint32);
         pagetable = p_pagetable (procs s p)
     in if 0 < sint n
        then obind (uvmalloc pagetable (ucast sz) (ucast (sz + n)) s) (\<lambda>r s.
             let sz = (ucast r :: uint32)
             in if sz = 0 then Done (-1) s
                else Done 0 (upd_proc p (\<lambda>q. q\<lparr>p_sz := ucast sz\<rparr>) s))
        else if sint n < 0
        then obind (uvmdealloc pagetable (ucast sz) (ucast (sz + n)) s) (\<lambda>r s.
             Done 0 (upd_proc p (\<lambda>q. q\<lparr>p_sz := ucast (ucast r :: uint32)\<rparr>) s))
        else Done 0 (upd_proc p (\<lambda>q. q\<lparr>p_sz := ucast sz\<rparr>) s)))"

section \<open>Giving up and getting the CPU\<close>

definition swtch :: "'s \<Rightarrow> (unit, 's) outcome" where
  "swtch s = Switch s"

text \<open>What \<open>sched\<close> does when the scheduler has switched back.\<close>

definition sched_resumed :: "bool \<Rightarrow> ('a) pstate_scheme \<Rightarrow> (unit, ('a) pstate_scheme) outcome" where
  "sched_resumed en s = Done () (set_mycpu ((mycpu s)\<lparr>intena := en\<rparr>) s)"

definition sched :: "('a) pstate_scheme \<Rightarrow> (unit, ('a) pstate_scheme) outcome" where
  "sched s =
     obind (myproc s) (\<lambda>p. deref p (\<lambda>p s.
     if \<not> holding (ProcLock p) s then Panic ''sched p->lock''
     else if noff (mycpu s) \<noteq> 1 then Panic ''sched locks''
     else if p_state (procs s p) = RUNNING then Panic ''sched running''
     else if intr_get s then Panic ''sched interruptible''
     else let en = intena (mycpu s)
     in obind (swtch s) (\<lambda>_ s. sched_resumed en s)))"

lemma sched_not_Done [simp]: "sched s \<noteq> Done x t"
  by (auto simp: sched_def swtch_def obind_Done_iff deref_def Let_def split: option.splits if_splits)

definition yield_resumed :: "nat \<Rightarrow> ('a) pstate_scheme \<Rightarrow> (unit, ('a) pstate_scheme) outcome" where
  "yield_resumed p s = release (ProcLock p) s"

definition yield :: "('a) pstate_scheme \<Rightarrow> (unit, ('a) pstate_scheme) outcome" where
  "yield s =
     obind (myproc s) (\<lambda>p. deref p (\<lambda>p s.
     obind (acquire (ProcLock p) s) (\<lambda>_ s.
     let s = upd_proc p (\<lambda>q. q\<lparr>p_state := RUNNABLE\<rparr>) s
     in obind (sched s) (\<lambda>_ s. yield_resumed p s))))"

definition sleep_resumed :: "nat \<Rightarrow> lockid \<Rightarrow> ('a) pstate_scheme \<Rightarrow> (unit, ('a) pstate_scheme) outcome" where
  "sleep_resumed p lk s =
     (let s = upd_proc p (\<lambda>q. q\<lparr>p_chan := None\<rparr>) s
      in obind (release (ProcLock p) s) (\<lambda>_ s. acquire lk s))"

definition sleep :: "chan \<Rightarrow> lockid \<Rightarrow> ('a) pstate_scheme \<Rightarrow> (unit, ('a) pstate_scheme) outcome" where
  "sleep ch lk s =
     obind (myproc s) (\<lambda>p. deref p (\<lambda>p s.
     obind (acquire (ProcLock p) s) (\<lambda>_ s.
     obind (release lk s) (\<lambda>_ s.
     let s = upd_proc p (\<lambda>q. q\<lparr>p_chan := Some ch, p_state := SLEEPING\<rparr>) s
     in obind (sched s) (\<lambda>_ s. sleep_resumed p lk s)))))"

lemma sleep_not_Done [simp]: "sleep ch lk s \<noteq> Done x t"
  by (auto simp: sleep_def obind_Done_iff deref_def Let_def split: option.splits)

text \<open>The body of the loop in \<open>wakeup\<close>.\<close>

definition wakeup_slot :: "chan option \<Rightarrow> nat \<Rightarrow> ('a) pstate_scheme \<Rightarrow> (unit, ('a) pstate_scheme) outcome" where
  "wakeup_slot ch p s =
     obind (myproc s) (\<lambda>me s.
     if me \<noteq> Some p
     then obind (acquire (ProcLock p) s) (\<lambda>_ s.
          let s = (if p_state (procs s p) = SLEEPING \<and> p_chan (procs s p) = ch
                   then upd_proc p (\<lambda>q. q\<lparr>p_state := RUNNABLE\<rparr>) s else s)
          in release (ProcLock p) s)
     else Done () s)"

definition wakeup :: "chan option \<Rightarrow> ('a) pstate_scheme \<Rightarrow> (unit, ('a) pstate_scheme) outcome" where
  "wakeup ch s = ofor [0..<NPROC] (wakeup_slot ch) s"

fun kill_loop :: "nat list \<Rightarrow> uint32 \<Rightarrow> ('a) pstate_scheme \<Rightarrow> (int, ('a) pstate_scheme) outcome" where
  "kill_loop [] pid s = Done (-1) s"
| "kill_loop (p # ps) pid s =
     obind (acquire (ProcLock p) s) (\<lambda>_ s.
     if p_pid (procs s p) = pid
     then let s = upd_proc p (\<lambda>q. q\<lparr>p_killed := 1\<rparr>) s;
              s = (if p_state (procs s p) = SLEEPING
                   then upd_proc p (\<lambda>q. q\<lparr>p_state := RUNNABLE\<rparr>) s else s)
          in obind (release (ProcLock p) s) (\<lambda>_ s. Done 0 s)
     else obind (release (ProcLock p) s) (\<lambda>_. kill_loop ps pid))"

definition kill :: "uint32 \<Rightarrow> ('a) pstate_scheme \<Rightarrow> (int, ('a) pstate_scheme) outcome" where
  "kill pid s = kill_loop [0..<NPROC] pid s"

text \<open>
  One turn of the scheduler's inner loop. When the process switches back, \<open>scheduler_resumed\<close>
  runs and the loop goes on with the next entry.
\<close>

definition scheduler_resumed :: "nat \<Rightarrow> ('a) pstate_scheme \<Rightarrow> (unit, ('a) pstate_scheme) outcome" where
  "scheduler_resumed p s =
     (let s = set_mycpu ((mycpu s)\<lparr>cpu_proc := None\<rparr>) s in release (ProcLock p) s)"

definition scheduler_slot :: "nat \<Rightarrow> ('a) pstate_scheme \<Rightarrow> (unit, ('a) pstate_scheme) outcome" where
  "scheduler_slot p s =
     obind (acquire (ProcLock p) s) (\<lambda>_ s.
     if p_state (procs s p) = RUNNABLE
     then let s = upd_proc p (\<lambda>q. q\<lparr>p_state := RUNNING\<rparr>) s;
              s = set_mycpu ((mycpu s)\<lparr>cpu_proc := Some p\<rparr>) s
          in obind (swtch s) (\<lambda>_ s. scheduler_resumed p s)
     else release (ProcLock p) s)"

text \<open>
  One round of \<open>for(;;)\<close>, and \<open>scheduler\<close> up to the end of \<open>n\<close> rounds that find nothing to run.
\<close>

definition scheduler_round :: "('a) pstate_scheme \<Rightarrow> (unit, ('a) pstate_scheme) outcome" where
  "scheduler_round s = ofor [0..<NPROC] scheduler_slot (intr_on s)"

definition scheduler :: "nat \<Rightarrow> ('a) pstate_scheme \<Rightarrow> (unit, ('a) pstate_scheme) outcome" where
  "scheduler n s =
     (let s = set_mycpu ((mycpu s)\<lparr>cpu_proc := None\<rparr>) s
      in ofor [0..<n] (\<lambda>_. scheduler_round) s)"

section \<open>Parents and children\<close>

definition reparent :: "nat \<Rightarrow> ('a) pstate_scheme \<Rightarrow> (unit, ('a) pstate_scheme) outcome" where
  "reparent p s =
     ofor [0..<NPROC] (\<lambda>pp s.
       if p_parent (procs s pp) = Some p
       then let s = upd_proc pp (\<lambda>q. q\<lparr>p_parent := initproc s\<rparr>) s
            in wakeup (map_option ChProc (initproc s)) s
       else Done () s) s"

text \<open>
  The scan of \<open>wait\<close> over the table: \<open>Inl r\<close> when it makes \<open>wait\<close> return \<open>r\<close>, otherwise \<open>Inr havekids\<close>.
\<close>

fun wait_scan :: "nat option \<Rightarrow> uint64 \<Rightarrow> nat list \<Rightarrow> bool \<Rightarrow> ('a) pstate_scheme \<Rightarrow> (int + bool, ('a) pstate_scheme) outcome" where
  "wait_scan p addr [] havekids s = Done (Inr havekids) s"
| "wait_scan p addr (np # nps) havekids s =
     (if p_parent (procs s np) = p
      then obind (acquire (ProcLock np) s) (\<lambda>_ s.
        if p_state (procs s np) = ZOMBIE
        then let pid = p_pid (procs s np)
             in obind (if addr \<noteq> 0
                       then deref p (\<lambda>p s. copyout (p_pagetable (procs s p)) addr
                              (le_bytes 4 (p_xstate (procs s np))) 4 s) s
                       else Done 0 s) (\<lambda>r s.
                if r < 0
                then obind (release (ProcLock np) s) (\<lambda>_ s.
                     obind (release WaitLock s) (\<lambda>_ s. Done (Inl (-1)) s))
                else obind (freeproc np s) (\<lambda>_ s.
                     obind (release (ProcLock np) s) (\<lambda>_ s.
                     obind (release WaitLock s) (\<lambda>_ s. Done (Inl (sint pid)) s))))
        else obind (release (ProcLock np) s) (\<lambda>_. wait_scan p addr nps True))
      else wait_scan p addr nps havekids s)"

function wait_loop :: "nat option \<Rightarrow> uint64 \<Rightarrow> ('a) pstate_scheme \<Rightarrow> (int, ('a) pstate_scheme) outcome" where
  "wait_loop p addr s =
     obind (wait_scan p addr [0..<NPROC] False s) (\<lambda>r s.
     case r of
       Inl v \<Rightarrow> Done v s
     | Inr havekids \<Rightarrow>
         if \<not> havekids then obind (release WaitLock s) (\<lambda>_ s. Done (-1) s)
         else deref p (\<lambda>q s.
           if p_killed (procs s q) \<noteq> 0 then obind (release WaitLock s) (\<lambda>_ s. Done (-1) s)
           else obind (sleep (ChProc q) WaitLock s) (\<lambda>_ s. wait_loop p addr s)) s)"
  by pat_completeness auto
termination by (relation "{}") simp_all

declare wait_loop.simps [simp del]

definition wait :: "uint64 \<Rightarrow> ('a) pstate_scheme \<Rightarrow> (int, ('a) pstate_scheme) outcome" where
  "wait addr s =
     obind (myproc s) (\<lambda>p s.
     obind (acquire WaitLock s) (\<lambda>_ s. wait_loop p addr s))"

text \<open>The end of \<open>exit\<close>, from \<open>acquire(&p->lock)\<close> on.\<close>

definition exit_zombie :: "nat \<Rightarrow> uint32 \<Rightarrow> ('a) pstate_scheme \<Rightarrow> (unit, ('a) pstate_scheme) outcome" where
  "exit_zombie p status s =
     obind (acquire (ProcLock p) s) (\<lambda>_ s.
     let s = upd_proc p (\<lambda>q. q\<lparr>p_xstate := status, p_state := ZOMBIE\<rparr>) s
     in obind (release WaitLock s) (\<lambda>_ s.
        obind (sched s) (\<lambda>_ s. Panic ''zombie exit'')))"

section \<open>Copying to and from user or kernel memory\<close>

text \<open>
  The address and the flag \<open>user_dst\<close> (\<open>user_src\<close>) together: a user virtual address, an address in
  RAM, or a local variable of the calling kernel function. A local destination is returned as
  the bytes that were copied, a local source is given as its bytes.
\<close>

datatype dst_addr = UserDst uint64 | KernDst uint64 | LocalDst

datatype src_addr = UserSrc uint64 | KernSrc uint64 | LocalSrc "uint8 list"

fun dst_add :: "dst_addr \<Rightarrow> uint64 \<Rightarrow> dst_addr" where
  "dst_add (UserDst a) n = UserDst (a + n)"
| "dst_add (KernDst a) n = KernDst (a + n)"
| "dst_add LocalDst n = LocalDst"

fun src_add :: "src_addr \<Rightarrow> uint64 \<Rightarrow> src_addr" where
  "src_add (UserSrc a) n = UserSrc (a + n)"
| "src_add (KernSrc a) n = KernSrc (a + n)"
| "src_add (LocalSrc bs) n = LocalSrc (drop (unat n) bs)"

definition either_copyout :: "dst_addr \<Rightarrow> uint8 list \<Rightarrow> uint64 \<Rightarrow> ('a) pstate_scheme \<Rightarrow> (int, ('a) pstate_scheme) outcome" where
  "either_copyout dst src len s =
     obind (myproc s) (\<lambda>p s.
     case dst of
       UserDst va \<Rightarrow> deref p (\<lambda>p s. copyout (p_pagetable (procs s p)) va src len s) s
     | KernDst a \<Rightarrow> Done 0 (s\<lparr>mem := store_bytes (mem s) a (take (unat len) src)\<rparr>)
     | LocalDst \<Rightarrow> Done 0 s)"

definition either_copyin :: "src_addr \<Rightarrow> uint64 \<Rightarrow> ('a) pstate_scheme \<Rightarrow> (int \<times> uint8 list, ('a) pstate_scheme) outcome" where
  "either_copyin src len s =
     obind (myproc s) (\<lambda>p s.
     case src of
       UserSrc va \<Rightarrow> deref p (\<lambda>p s. copyin (p_pagetable (procs s p)) va len s) s
     | KernSrc a \<Rightarrow> Done (0, load_bytes (mem s) a (unat len)) s
     | LocalSrc bs \<Rightarrow> Done (0, take (unat len) bs) s)"

section \<open>Frame lemmas\<close>

lemma pstate_acq [simp]:
  "procs (acq l s) = procs s" "nextpid (acq l s) = nextpid s" "initproc (acq l s) = initproc s"
  "trampoline (acq l s) = trampoline s" "forkret_addr (acq l s) = forkret_addr s"
  "procs_update f (acq l s) = acq l (procs_update f s)"
  "nextpid_update g (acq l s) = acq l (nextpid_update g s)"
  "upd_proc p h (acq l s) = acq l (upd_proc p h s)"
  by (simp_all add: acq_def pushed_def mycpu_def intr_get_def upd_proc_def)

lemma pstate_settle [simp]:
  "procs (settle s) = procs s" "nextpid (settle s) = nextpid s" "initproc (settle s) = initproc s"
  "trampoline (settle s) = trampoline s" "forkret_addr (settle s) = forkret_addr s"
  "procs_update f (settle s) = settle (procs_update f s)"
  "nextpid_update g (settle s) = settle (nextpid_update g s)"
  "upd_proc p h (settle s) = settle (upd_proc p h s)"
  by (simp_all add: settle_def mycpu_def intr_get_def upd_proc_def)

lemma pstate_machine [simp]:
  "hart_ok (procs_update f s) = hart_ok s" "lock_free l (procs_update f s) = lock_free l s"
  "hart_ok (nextpid_update g s) = hart_ok s" "lock_free l (nextpid_update g s) = lock_free l s"
  "hart_ok (upd_proc p h s) = hart_ok s" "lock_free l (upd_proc p h s) = lock_free l s"
  "mycpu (procs_update f s) = mycpu s" "mycpu (upd_proc p h s) = mycpu s" "mycpu (nextpid_update g s) = mycpu s"
  "tp (upd_proc p h s) = tp s" "lks (upd_proc p h s) = lks s" "cpus (upd_proc p h s) = cpus s"
  "sstatus (upd_proc p h s) = sstatus s" "mem (upd_proc p h s) = mem s" "nextpid (upd_proc p h s) = nextpid s"
  by (simp_all add: hart_ok_def lock_free_def mycpu_def intr_get_def upd_proc_def)

lemma procs_upd_proc [simp]: "procs (upd_proc p f s) = (procs s)(p := f (procs s p))"
  by (simp add: upd_proc_def)

lemma myproc_eq: "hart_ok s \<Longrightarrow> myproc s = Done (cpu_proc (mycpu s)) (settle s)"
  by (simp add: myproc_def push_off_eq pop_off_pushed Let_def)

section \<open>Wakeup\<close>

definition woken :: "chan option \<Rightarrow> nat option \<Rightarrow> nat set \<Rightarrow> (nat \<Rightarrow> proc) \<Rightarrow> nat \<Rightarrow> proc" where
  "woken ch me A ps i =
     (if i \<in> A \<and> me \<noteq> Some i \<and> p_state (ps i) = SLEEPING \<and> p_chan (ps i) = ch
      then (ps i)\<lparr>p_state := RUNNABLE\<rparr> else ps i)"

lemma woken_empty [simp]: "woken ch me {} ps = ps"
  by (simp add: woken_def fun_eq_iff)

lemma procs_same [simp]: "s\<lparr>procs := procs s\<rparr> = s"
  by simp

lemma wakeup_slot_eq:
  assumes "hart_ok s" and "cpu_proc (mycpu s) = Some p \<or> lock_free (ProcLock p) s"
  shows "wakeup_slot ch p s = Done () (settle (s\<lparr>procs := woken ch (cpu_proc (mycpu s)) {p} (procs s)\<rparr>))"
proof -
  let ?me = "cpu_proc (mycpu s)"
  have "woken ch ?me {p} (procs s) = (if ?me \<noteq> Some p \<and> p_state (procs s p) = SLEEPING \<and> p_chan (procs s p) = ch
      then (procs s)(p := (procs s p)\<lparr>p_state := RUNNABLE\<rparr>) else procs s)"
    by (auto simp: woken_def fun_eq_iff)
  then show ?thesis
    using assms by (auto simp: wakeup_slot_def myproc_eq acquire_free release_acq Let_def upd_proc_def)
qed

lemma woken_woken: "woken ch me B (woken ch me A ps) = woken ch me (A \<union> B) ps"
  by (auto simp: woken_def fun_eq_iff)

lemma ofor_wakeup:
  assumes "hart_ok s" and "\<And>p. p < n \<Longrightarrow> cpu_proc (mycpu s) = Some p \<or> lock_free (ProcLock p) s"
  shows "ofor [0..<n] (wakeup_slot ch) s = Done () (if n = 0 then s else settle (s\<lparr>procs := woken ch (cpu_proc (mycpu s)) {..<n} (procs s)\<rparr>))"
  using assms
proof (induction n)
  case (Suc n)
  let ?t = "if n = 0 then s else settle (s\<lparr>procs := woken ch (cpu_proc (mycpu s)) {..<n} (procs s)\<rparr>)"
  have t: "hart_ok ?t" "cpu_proc (mycpu ?t) = Some n \<or> lock_free (ProcLock n) ?t" "procs ?t = woken ch (cpu_proc (mycpu s)) {..<n} (procs s)"
    "cpu_proc (mycpu ?t) = cpu_proc (mycpu s)" "settle (?t\<lparr>procs := P\<rparr>) = settle (s\<lparr>procs := P\<rparr>)" for P
    using Suc.prems(1) Suc.prems(2) [of n] by auto
  have "ofor [0..<n] (wakeup_slot ch) s = Done () ?t" using Suc by simp
  then have "ofor [0..<Suc n] (wakeup_slot ch) s = obind (wakeup_slot ch n ?t) (\<lambda>_. ofor [] (wakeup_slot ch))"
    by (simp add: ofor_append)
  also have "\<dots> = Done () (settle (s\<lparr>procs := woken ch (cpu_proc (mycpu s)) {..<Suc n} (procs s)\<rparr>))"
    unfolding wakeup_slot_eq [OF t(1,2)] by (simp only: t(3-5) woken_woken lessThan_Suc obind.simps ofor.simps Un_insert_right Un_empty_right)
  finally show ?case by simp
qed simp

lemma wakeup_eq:
  assumes "hart_ok s" and "\<And>p. p < NPROC \<Longrightarrow> cpu_proc (mycpu s) = Some p \<or> lock_free (ProcLock p) s"
  shows "wakeup ch s = Done () (settle (s\<lparr>procs := woken ch (cpu_proc (mycpu s)) {..<NPROC} (procs s)\<rparr>))"
  unfolding wakeup_def by (subst ofor_wakeup [OF assms]) simp_all

section \<open>What an operation leaves alone\<close>

text \<open>
  Whatever a critical section does to CPUs and locks, the rest of the state, which is everything
  past the fields of \<open>machine\<close>, changes only by the assignments in between.
\<close>

lemma more_acq [simp]: "machine.more (acq l s) = machine.more s"
  by (simp add: acq_def pushed_def)

lemma push_off_more: "push_off s = Done x t \<Longrightarrow> machine.more t = machine.more s \<and> tp t = tp s \<and> lks t = lks s"
  by (auto simp: push_off_eq pushed_def)

lemma pop_off_more: "pop_off s = Done x t \<Longrightarrow> machine.more t = machine.more s \<and> tp t = tp s \<and> lks t = lks s"
  by (auto simp: pop_off_def machine_unfold split: if_splits)

lemma acquire_Done: "acquire l s = Done x t \<Longrightarrow> t = acq l s \<and> lk_locked (lks s l) = 0"
  by (auto simp: acquire_def push_off_eq holding_def acq_def pushed_def Let_def split: if_splits)

lemma acquire_more: "acquire l s = Done x t \<Longrightarrow> machine.more t = machine.more s \<and> tp t = tp s"
  by (auto dest: acquire_Done)

lemma release_more: "release l s = Done x t \<Longrightarrow> machine.more t = machine.more s \<and> tp t = tp s"
  by (auto simp: release_def Let_def split: if_splits dest!: pop_off_more)

text \<open>The fields of \<open>pstate\<close> other than the process table, and everything beyond.\<close>

definition only_procs :: "('a) pstate_scheme \<Rightarrow> ('a) pstate_scheme \<Rightarrow> bool" where
  "only_procs s t \<longleftrightarrow> tp t = tp s \<and> machine.more t = machine.more (s\<lparr>procs := procs t\<rparr>)"

lemma only_procs_refl [simp]: "only_procs s s"
  by (simp add: only_procs_def)

lemma only_procs_trans:
  assumes "only_procs s t" and "only_procs t u"
  shows "only_procs s u"
  using assms by (cases s; cases t; cases u) (simp add: only_procs_def machine.defs kmem.defs vm.defs pstate.defs)

lemma only_procs_more:
  assumes "machine.more t = machine.more s" and "tp t = tp s"
  shows "only_procs s t"
  using assms by (cases s; cases t) (simp add: only_procs_def)

lemma only_procs_upd [simp]: "only_procs s (upd_proc p f s)"
  by (cases s) (simp add: only_procs_def upd_proc_def)

lemma only_procs_keeps:
  assumes "only_procs s t"
  shows "tp t = tp s" and "mem t = mem s" and "freelist t = freelist s" and "kend t = kend s"
    and "nextpid t = nextpid s" and "initproc t = initproc s" and "pstate.more t = pstate.more s"
  using assms by (cases s; cases t; simp add: only_procs_def)+

lemma only_procs_acquire: "acquire l s = Done x t \<Longrightarrow> only_procs s t"
  and only_procs_release: "release l s = Done x t \<Longrightarrow> only_procs s t"
  using acquire_more release_more only_procs_more by metis+

lemma only_procs_myproc: "myproc s = Done x t \<Longrightarrow> only_procs s t"
  by (auto simp: myproc_def push_off_eq obind_Done_iff Let_def pushed_def intro!: only_procs_more dest!: pop_off_more)

lemma only_procs_wakeup_slot:
  assumes "wakeup_slot ch p s = Done x t"
  shows "only_procs s t"
proof -
  from assms obtain me u where u: "myproc s = Done me u"
    and r: "me \<noteq> Some p \<Longrightarrow> \<exists>v. acquire (ProcLock p) u = Done () v \<and>
      (release (ProcLock p) v = Done x t \<or> release (ProcLock p) (upd_proc p (\<lambda>q. q\<lparr>p_state := RUNNABLE\<rparr>) v) = Done x t)"
    and e: "me = Some p \<Longrightarrow> t = u"
    by (auto simp: wakeup_slot_def obind_Done_iff Let_def split: if_splits)
  have "only_procs u t"
  proof (cases "me = Some p")
    case False
    with r obtain v where v: "only_procs u v" "only_procs v t \<or> only_procs (upd_proc p (\<lambda>q. q\<lparr>p_state := RUNNABLE\<rparr>) v) t"
      using only_procs_acquire only_procs_release by metis
    from v(2) have "only_procs v t" using only_procs_trans [OF only_procs_upd] by blast
    with v(1) show ?thesis by (rule only_procs_trans)
  qed (simp add: e)
  with only_procs_myproc [OF u] show ?thesis by (rule only_procs_trans)
qed

lemma only_procs_ofor:
  assumes "\<And>p s x t. p \<in> set ps \<Longrightarrow> body p s = Done x t \<Longrightarrow> only_procs s t" and "ofor ps body s = Done x t"
  shows "only_procs s t"
  using assms
proof (induction ps arbitrary: s)
  case (Cons p ps)
  then obtain u where u: "body p s = Done () u" "ofor ps body u = Done x t" by (auto simp: obind_Done_iff)
  have "only_procs u t" by (rule Cons.IH [OF Cons.prems(1) u(2)]) simp_all
  moreover have "only_procs s u" by (rule Cons.prems(1) [OF _ u(1)]) simp
  ultimately show ?case using only_procs_trans by blast
qed simp

lemma only_procs_wakeup: "wakeup ch s = Done x t \<Longrightarrow> only_procs s t"
  unfolding wakeup_def by (rule only_procs_ofor [where body = "wakeup_slot ch"]) (auto dest: only_procs_wakeup_slot)

end
