(* ===== verification/Uart.thy ===== *)
theory Uart
  imports Proc
begin

unbundle bit_operations_syntax

text \<open>
  The serial port driver (\<open>kernel/uart.c\<close>). The 16550 chip is outside of the kernel: \<open>uart_lsr\<close> and
  \<open>uart_rhr\<close> are the values its line status and receive registers will return to the coming reads
  (a status register read past the end of the list is 0: nothing received, transmitter busy),
  \<open>uart_out\<close> records every register write in order. \<open>uartintr\<close> is in the console theory, because it
  calls \<open>consoleintr\<close>.
\<close>

record uart = pstate +
  uart_tx_buf :: "nat \<Rightarrow> uint8"
  uart_tx_w :: uint64
  uart_tx_r :: uint64
  panicked :: bool
  uart_lsr :: "uint8 list"
  uart_rhr :: "uint8 list"
  uart_out :: "(nat \<times> uint8) list"

section \<open>Registers\<close>

abbreviation (input) RHR :: nat where "RHR \<equiv> 0"
abbreviation (input) THR :: nat where "THR \<equiv> 0"
abbreviation (input) IER :: nat where "IER \<equiv> 1"
abbreviation (input) FCR :: nat where "FCR \<equiv> 2"
abbreviation (input) LCR :: nat where "LCR \<equiv> 3"
abbreviation (input) LSR :: nat where "LSR \<equiv> 5"
abbreviation (input) LSR_RX_READY :: uint8 where "LSR_RX_READY \<equiv> 1"
abbreviation (input) LSR_TX_IDLE :: uint8 where "LSR_TX_IDLE \<equiv> 32"
abbreviation (input) UART_TX_BUF_SIZE :: nat where "UART_TX_BUF_SIZE \<equiv> 32"

definition WriteReg :: "nat \<Rightarrow> uint8 \<Rightarrow> ('a) uart_scheme \<Rightarrow> ('a) uart_scheme" where
  "WriteReg reg v s = s\<lparr>uart_out := uart_out s @ [(reg, v)]\<rparr>"

definition ReadLSR :: "('a) uart_scheme \<Rightarrow> uint8 \<times> ('a) uart_scheme" where
  "ReadLSR s = (case uart_lsr s of [] \<Rightarrow> (0, s) | v # vs \<Rightarrow> (v, s\<lparr>uart_lsr := vs\<rparr>))"

definition ReadRHR :: "('a) uart_scheme \<Rightarrow> uint8 \<times> ('a) uart_scheme" where
  "ReadRHR s = (case uart_rhr s of [] \<Rightarrow> (0, s) | v # vs \<Rightarrow> (v, s\<lparr>uart_rhr := vs\<rparr>))"

section \<open>Operations\<close>

definition uartinit :: "('a) uart_scheme \<Rightarrow> (unit, ('a) uart_scheme) outcome" where
  "uartinit s =
     (let s = WriteReg IER 0 s;
          s = WriteReg LCR 128 s;
          s = WriteReg 0 3 s;
          s = WriteReg 1 0 s;
          s = WriteReg LCR 3 s;
          s = WriteReg FCR (1 OR 6) s;
          s = WriteReg IER (2 OR 1) s
      in initlock UartLock ''uart'' s)"

text \<open>Insertion into and removal from the transmit buffer.\<close>

definition uart_put :: "uint8 \<Rightarrow> ('a) uart_scheme \<Rightarrow> ('a) uart_scheme" where
  "uart_put c s = s\<lparr>uart_tx_buf := (uart_tx_buf s)(unat (uart_tx_w s) mod UART_TX_BUF_SIZE := c),
     uart_tx_w := uart_tx_w s + 1\<rparr>"

definition uart_take :: "('a) uart_scheme \<Rightarrow> uint8 \<times> ('a) uart_scheme" where
  "uart_take s = (uart_tx_buf s (unat (uart_tx_r s) mod UART_TX_BUF_SIZE), s\<lparr>uart_tx_r := uart_tx_r s + 1\<rparr>)"

lemma only_procs_uart:
  assumes "only_procs s t"
  shows "uart_tx_buf t = uart_tx_buf s" and "uart_tx_w t = uart_tx_w s" and "uart_tx_r t = uart_tx_r s"
    and "panicked t = panicked s" and "uart_lsr t = uart_lsr s" and "uart_rhr t = uart_rhr s" and "uart_out t = uart_out s"
    and "uart.more t = uart.more s"
  using assms by (cases s; cases t; simp add: only_procs_def)+

function uartstart :: "('a) uart_scheme \<Rightarrow> (unit, ('a) uart_scheme) outcome" where
  "uartstart s =
     (if uart_tx_w s = uart_tx_r s then Done () s
      else let (lsr, s) = ReadLSR s
      in if lsr AND LSR_TX_IDLE = 0 then Done () s
      else let (c, s) = uart_take s
      in obind (wakeup (Some ChUartR) s) (\<lambda>_ s. uartstart (WriteReg THR c s)))"
  by pat_completeness auto
termination
  by (relation "measure (\<lambda>s. length (uart_lsr s))")
    (auto simp: ReadLSR_def uart_take_def WriteReg_def dest!: only_procs_wakeup split: list.splits
      dest: only_procs_uart(5))

declare uartstart.simps [simp del]

function uartputc_loop :: "uint8 \<Rightarrow> ('a) uart_scheme \<Rightarrow> (unit, ('a) uart_scheme) outcome" where
  "uartputc_loop c s =
     (if uart_tx_w s = uart_tx_r s + 32
      then obind (sleep ChUartR UartLock s) (\<lambda>_ s. uartputc_loop c s)
      else let s = uart_put c s
           in obind (uartstart s) (\<lambda>_ s. release UartLock s))"
  by pat_completeness auto
termination by (relation "{}") simp_all

declare uartputc_loop.simps [simp del]

definition uartputc :: "uint8 \<Rightarrow> ('a) uart_scheme \<Rightarrow> (unit, ('a) uart_scheme) outcome" where
  "uartputc c s =
     obind (acquire UartLock s) (\<lambda>_ s.
     if panicked s then Spins else uartputc_loop c s)"

text \<open>
  \<open>while((ReadReg(LSR) & LSR_TX_IDLE) == 0);\<close> over the answers of the status register. When they
  are used up the register stays 0 and the loop never ends.
\<close>

fun tx_wait :: "uint8 list \<Rightarrow> uint8 list option" where
  "tx_wait [] = None"
| "tx_wait (v # vs) = (if v AND LSR_TX_IDLE = 0 then tx_wait vs else Some vs)"

definition uartputc_sync :: "uint8 \<Rightarrow> ('a) uart_scheme \<Rightarrow> (unit, ('a) uart_scheme) outcome" where
  "uartputc_sync c s =
     obind (push_off s) (\<lambda>_ s.
     if panicked s then Spins
     else case tx_wait (uart_lsr s) of
       None \<Rightarrow> Spins
     | Some vs \<Rightarrow> let s = WriteReg THR c (s\<lparr>uart_lsr := vs\<rparr>) in pop_off s)"

definition uartgetc :: "('a) uart_scheme \<Rightarrow> (int, ('a) uart_scheme) outcome" where
  "uartgetc s =
     (let (lsr, s) = ReadLSR s
      in if lsr AND LSR_RX_READY \<noteq> 0
         then let (c, s) = ReadRHR s in Done (uint c) s
         else Done (-1) s)"

end
