(* ===== verification/Printf.thy ===== *)
theory Printf
  imports Uart
begin

unbundle bit_operations_syntax

text \<open>
  Formatted console output (\<open>kernel/printf.c\<close>, \<open>consputc\<close> of \<open>kernel/console.c\<close>) and the two
  functions of \<open>kernel/proc.c\<close> that print: \<open>procdump\<close> and \<open>procinfo\<close>.
\<close>

record pr = uart +
  pr_locking :: bool

section \<open>Characters\<close>

abbreviation (input) BACKSPACE :: int where "BACKSPACE \<equiv> 0x100"

definition consputc :: "int \<Rightarrow> ('a) uart_scheme \<Rightarrow> (unit, ('a) uart_scheme) outcome" where
  "consputc c s =
     (if c = BACKSPACE
      then obind (uartputc_sync 8 s) (\<lambda>_ s.
           obind (uartputc_sync 32 s) (\<lambda>_ s. uartputc_sync 8 s))
      else uartputc_sync (word_of_int c) s)"

definition consputs :: "uint8 list \<Rightarrow> ('a) uart_scheme \<Rightarrow> (unit, ('a) uart_scheme) outcome" where
  "consputs bs = ofor bs (\<lambda>b. consputc (uint b))"

section \<open>Numbers\<close>

definition digit_char :: "nat \<Rightarrow> uint8" where
  "digit_char d = bytes ''0123456789abcdef'' ! d"

text \<open>
  The digits of \<open>x\<close> to base \<open>b\<close>, least significant first. \<open>printf\<close> calls \<open>printint\<close> with the bases 10
  and 16; with a base below 2 the loop would not end and the definition stops.
\<close>

function digits_of :: "nat \<Rightarrow> nat \<Rightarrow> uint8 list" where
  "digits_of b x = digit_char (x mod b) # (if x div b = 0 \<or> b < 2 then [] else digits_of b (x div b))"
  by pat_completeness auto
termination by (relation "measure snd") (auto simp: div_greater_zero_iff intro!: div_less_dividend)

declare digits_of.simps [simp del]

definition printint_chars :: "uint32 \<Rightarrow> nat \<Rightarrow> bool \<Rightarrow> uint8 list" where
  "printint_chars xx base sign =
     (let neg = sign \<and> sint xx < 0;
          x = (if neg then - xx else xx);
          buf = digits_of base (unat x);
          buf = (if neg then buf @ bytes ''-'' else buf)
      in rev buf)"

definition printint :: "uint32 \<Rightarrow> nat \<Rightarrow> bool \<Rightarrow> ('a) uart_scheme \<Rightarrow> (unit, ('a) uart_scheme) outcome" where
  "printint xx base sign s = consputs (printint_chars xx base sign) s"

definition printptr_chars :: "uint64 \<Rightarrow> uint8 list" where
  "printptr_chars x = bytes ''0x'' @ map (\<lambda>i. digit_char (unat (drop_bit 60 (push_bit (4 * i) x)))) [0..<16]"

definition printptr :: "uint64 \<Rightarrow> ('a) uart_scheme \<Rightarrow> (unit, ('a) uart_scheme) outcome" where
  "printptr x s = consputs (printptr_chars x) s"

section \<open>printf\<close>

text \<open>
  The arguments after the format. \<open>va_arg\<close> reads the next one at the type the format asks for; the
  value of an argument that was not passed is not determined by the code, here it is 0.
\<close>

datatype vararg = VInt uint32 | VPtr uint64 | VStr "uint8 list option"

fun va_int :: "vararg list \<Rightarrow> uint32" where
  "va_int (VInt x # _) = x"
| "va_int (VPtr p # _) = ucast p"
| "va_int _ = 0"

fun va_ptr :: "vararg list \<Rightarrow> uint64" where
  "va_ptr (VInt x # _) = scast x"
| "va_ptr (VPtr p # _) = p"
| "va_ptr _ = 0"

fun va_str :: "vararg list \<Rightarrow> uint8 list option" where
  "va_str (VStr x # _) = x"
| "va_str _ = None"

text \<open>
  The loop of \<open>printf\<close> over the rest of the format string, whose end is its NUL byte. The characters
  \<open>d\<close>, \<open>x\<close>, \<open>p\<close>, \<open>s\<close> and \<open>%\<close> are 100, 120, 112, 115 and 37.
\<close>

fun printf_loop :: "uint8 list \<Rightarrow> vararg list \<Rightarrow> ('a) uart_scheme \<Rightarrow> (unit, ('a) uart_scheme) outcome" where
  "printf_loop [] ap s = Done () s"
| "printf_loop [c] ap s = (if c = 0 \<or> c = 37 then Done () s else consputc (uint c) s)"
| "printf_loop (c # d # fmt) ap s =
     (if c = 0 then Done () s
      else if c \<noteq> 37 then obind (consputc (uint c) s) (\<lambda>_ s. printf_loop (d # fmt) ap s)
      else if d = 0 then Done () s
      else if d = 100 then obind (printint (va_int ap) 10 True s) (\<lambda>_ s. printf_loop fmt (tl ap) s)
      else if d = 120 then obind (printint (va_int ap) 16 True s) (\<lambda>_ s. printf_loop fmt (tl ap) s)
      else if d = 112 then obind (printptr (va_ptr ap) s) (\<lambda>_ s. printf_loop fmt (tl ap) s)
      else if d = 115
      then obind (consputs (case va_str ap of None \<Rightarrow> bytes ''(null)'' | Some str \<Rightarrow> cstr str) s)
             (\<lambda>_ s. printf_loop fmt (tl ap) s)
      else if d = 37 then obind (consputc 37 s) (\<lambda>_ s. printf_loop fmt ap s)
      else obind (consputc 37 s) (\<lambda>_ s. obind (consputc (uint d) s) (\<lambda>_ s. printf_loop fmt ap s)))"

definition printf :: "string \<Rightarrow> vararg list \<Rightarrow> ('a) pr_scheme \<Rightarrow> (unit, ('a) pr_scheme) outcome" where
  "printf fmt ap s =
     (let locking = pr_locking s
      in obind (if locking then acquire PrLock s else Done () s) (\<lambda>_ s.
         obind (printf_loop (bytes fmt) ap s) (\<lambda>_ s.
         if locking then release PrLock s else Done () s)))"

text \<open>
  \<open>panic\<close> up to its endless loop. Everywhere else a call of \<open>panic\<close> is the outcome \<open>Panic\<close>.
\<close>

definition panic :: "string \<Rightarrow> ('a) pr_scheme \<Rightarrow> (unit, ('a) pr_scheme) outcome" where
  "panic msg s =
     (let s = s\<lparr>pr_locking := False\<rparr>
      in obind (printf ''panic: '' [] s) (\<lambda>_ s.
         obind (printf msg [] s) (\<lambda>_ s.
         obind (printf [CHR 0x0A] [] s) (\<lambda>_ s.
         Done () (s\<lparr>panicked := True\<rparr>)))))"

definition printfinit :: "('a) pr_scheme \<Rightarrow> (unit, ('a) pr_scheme) outcome" where
  "printfinit s = obind (initlock PrLock ''pr'' s) (\<lambda>_ s. Done () (s\<lparr>pr_locking := True\<rparr>))"

section \<open>Process listings\<close>

text \<open>The array \<open>states\<close>, which has no entry for \<open>USED\<close>.\<close>

fun states :: "procstate \<Rightarrow> string option" where
  "states UNUSED = Some ''unused''"
| "states USED = None"
| "states SLEEPING = Some ''sleep ''"
| "states RUNNABLE = Some ''runble''"
| "states RUNNING = Some ''run   ''"
| "states ZOMBIE = Some ''zombie''"

definition procdump :: "('a) pr_scheme \<Rightarrow> (unit, ('a) pr_scheme) outcome" where
  "procdump s =
     obind (printf [CHR 0x0A] [] s) (\<lambda>_ s.
     ofor [0..<NPROC] (\<lambda>p s.
       if p_state (procs s p) = UNUSED then Done () s
       else let state = (case states (p_state (procs s p)) of Some str \<Rightarrow> str | None \<Rightarrow> ''???'')
       in obind (printf ''%d %s %s'' [VInt (p_pid (procs s p)), VStr (Some (bytes state)),
              VStr (Some (p_name (procs s p)))] s) (\<lambda>_ s.
          printf [CHR 0x0A] [] s)) s)"

text \<open>
  \<open>procinfo\<close>: the scan over the process table. \<open>&it\<close> is the kernel stack address of the local variable
  \<open>it\<close>, given as \<open>it_addr\<close>; the length of the copy is the value of \<open>sizeof(tempproc) < 0\<close>, which is 0.
  From the second process on, the process is found through its parent pointer, null or not.
\<close>

fun procstate_num :: "procstate \<Rightarrow> uint32" where
  "procstate_num UNUSED = 0"
| "procstate_num USED = 1"
| "procstate_num SLEEPING = 2"
| "procstate_num RUNNABLE = 3"
| "procstate_num RUNNING = 4"
| "procstate_num ZOMBIE = 5"

record uproc =
  u_pid :: uint32
  u_state :: uint32
  u_size :: uint32
  u_ppid :: uint32
  u_name :: "uint8 list"

definition uproc_bytes :: "uproc \<Rightarrow> uint8 list" where
  "uproc_bytes u = le_bytes 4 (u_pid u) @ le_bytes 4 (u_state u) @ le_bytes 4 (u_size u) @
     le_bytes 4 (u_ppid u) @ u_name u"

fun procinfo_loop :: "uproc \<Rightarrow> uint64 \<Rightarrow> nat option \<Rightarrow> nat list \<Rightarrow> uint32 \<Rightarrow> ('a) pr_scheme \<Rightarrow> (uint32, ('a) pr_scheme) outcome" where
  "procinfo_loop garbage it_addr scproc [] counter s = Done counter s"
| "procinfo_loop garbage it_addr scproc (p # ps) counter s =
     (if p_state (procs s p) = UNUSED \<or> states (p_state (procs s p)) = None
      then procinfo_loop garbage it_addr scproc ps counter s
      else let parent = p_parent (procs s p)
      in obind (printf ''Start assignment'' [] s) (\<lambda>_ s.
         obind (if counter = 0 then Done (p_pid (procs s p)) s
                else deref parent (\<lambda>parent s. Done (p_pid (procs s parent)) s) s) (\<lambda>pid s.
         let tempproc = garbage\<lparr>u_pid := pid, u_size := ucast (p_sz (procs s p)),
               u_state := procstate_num (p_state (procs s p))\<rparr>
         in obind (printf ''Assignment done'' [] s) (\<lambda>_ s.
            obind (deref scproc (\<lambda>q s. copyout (p_pagetable (procs s q)) it_addr (uproc_bytes tempproc) 0 s) s) (\<lambda>r s.
            if r \<noteq> 0
            then obind (printf (''PID failed'' @ [CHR 0x0A]) [] s) (\<lambda>_ s. Done (-1) s)
            else procinfo_loop garbage it_addr scproc ps (counter + 1) s)))))"

definition procinfo :: "uproc \<Rightarrow> uint64 \<Rightarrow> ('a) pr_scheme \<Rightarrow> (uint32, ('a) pr_scheme) outcome" where
  "procinfo garbage it_addr s =
     obind (myproc s) (\<lambda>scproc s. procinfo_loop garbage it_addr scproc [0..<NPROC] 0 s)"

end
