(* ===== verification/Console.thy ===== *)
theory Console
  imports Printf
begin

unbundle bit_operations_syntax

text \<open>
  The console (\<open>kernel/console.c\<close>): the input line buffer \<open>cons\<close> with its read, write and edit
  indices, the handler of input characters, the device functions \<open>consoleread\<close> and \<open>consolewrite\<close>,
  and \<open>uartintr\<close> of \<open>kernel/uart.c\<close>, which feeds the handler. Device functions in \<open>devsw\<close> are named by
  constructors instead of by code addresses.
\<close>

datatype devread = ConsoleRead

datatype devwrite = ConsoleWrite

record console = pr +
  cons_buf :: "nat \<Rightarrow> uint8"
  cons_r :: uint32
  cons_w :: uint32
  cons_e :: uint32
  devsw_read :: "nat \<Rightarrow> devread option"
  devsw_write :: "nat \<Rightarrow> devwrite option"

abbreviation (input) INPUT_BUF :: nat where "INPUT_BUF \<equiv> 128"
abbreviation (input) CONSOLE :: nat where "CONSOLE \<equiv> 1"

section \<open>Output\<close>

text \<open>\<open>for(i = 0; i < n; i++)\<close> with \<open>k\<close> iterations to go.\<close>

fun consolewrite_loop :: "nat \<Rightarrow> nat \<Rightarrow> src_addr \<Rightarrow> ('a) console_scheme \<Rightarrow> (int, ('a) console_scheme) outcome" where
  "consolewrite_loop 0 i src s = Done (int i) s"
| "consolewrite_loop (Suc k) i src s =
     obind (either_copyin (src_add src (of_nat i)) 1 s) (\<lambda>(r, bs) s.
     if r = -1 then Done (int i) s
     else obind (uartputc (hd (bs @ [0])) s) (\<lambda>_ s. consolewrite_loop k (Suc i) src s))"

definition consolewrite :: "src_addr \<Rightarrow> uint32 \<Rightarrow> ('a) console_scheme \<Rightarrow> (int, ('a) console_scheme) outcome" where
  "consolewrite src n s = consolewrite_loop (nat (sint n)) 0 src s"

section \<open>Input\<close>

text \<open>
  \<open>while(cons.r == cons.w)\<close>: wait for a line. \<open>True\<close> when the process was killed and
  \<open>consoleread\<close> returns -1.
\<close>

function consoleread_wait :: "('a) console_scheme \<Rightarrow> (bool, ('a) console_scheme) outcome" where
  "consoleread_wait s =
     (if cons_r s = cons_w s
      then obind (myproc s) (\<lambda>p. deref p (\<lambda>p s.
           if p_killed (procs s p) \<noteq> 0 then obind (release ConsLock s) (\<lambda>_ s. Done True s)
           else obind (sleep ChConsR ConsLock s) (\<lambda>_ s. consoleread_wait s)))
      else Done False s)"
  by pat_completeness auto
termination by (relation "{}") simp_all

declare consoleread_wait.simps [simp del]

text \<open>\<open>c = cons.buf[cons.r++ % INPUT_BUF];\<close>\<close>

definition cons_take :: "('a) console_scheme \<Rightarrow> uint8 \<times> ('a) console_scheme" where
  "cons_take s = (cons_buf s (unat (cons_r s) mod INPUT_BUF), s\<lparr>cons_r := cons_r s + 1\<rparr>)"

text \<open>
  \<open>while(n > 0)\<close>; the result is \<open>target - n\<close>. A newline is 10, control-D is 4.
\<close>

fun consoleread_loop :: "nat \<Rightarrow> nat \<Rightarrow> dst_addr \<Rightarrow> ('a) console_scheme \<Rightarrow> (int, ('a) console_scheme) outcome" where
  "consoleread_loop target 0 dst s = obind (release ConsLock s) (\<lambda>_ s. Done (int target) s)"
| "consoleread_loop target (Suc n) dst s =
     obind (consoleread_wait s) (\<lambda>killed s.
     if killed then Done (-1) s
     else let (c, s) = cons_take s
     in if c = 4
        then let s = (if Suc n < target then s\<lparr>cons_r := cons_r s - 1\<rparr> else s)
             in obind (release ConsLock s) (\<lambda>_ s. Done (int target - int (Suc n)) s)
        else obind (either_copyout dst [c] 1 s) (\<lambda>r s.
             if r = -1 then obind (release ConsLock s) (\<lambda>_ s. Done (int target - int (Suc n)) s)
             else if c = 10 then obind (release ConsLock s) (\<lambda>_ s. Done (int target - int n) s)
             else consoleread_loop target n (dst_add dst 1) s))"

definition consoleread :: "dst_addr \<Rightarrow> uint32 \<Rightarrow> ('a) console_scheme \<Rightarrow> (int, ('a) console_scheme) outcome" where
  "consoleread dst n s =
     obind (acquire ConsLock s) (\<lambda>_ s.
     let target = nat (sint n) in consoleread_loop target target dst s)"

section \<open>The input interrupt handler\<close>

lemma uartputc_sync_frame:
  "uartputc_sync c s = Done x t \<Longrightarrow>
    uart.more t = uart.more s \<and> length (uart_lsr t) \<le> length (uart_lsr s)"
proof -
  have tx: "tx_wait vs = Some ws \<Longrightarrow> length ws \<le> length vs" for vs ws
    by (induction vs) (auto split: if_splits)
  assume "uartputc_sync c s = Done x t"
  then obtain vs where vs: "tx_wait (uart_lsr (pushed s)) = Some vs"
    and t: "machine.more t = machine.more (WriteReg THR c ((pushed s)\<lparr>uart_lsr := vs\<rparr>))"
    by (auto simp: uartputc_sync_def push_off_eq Let_def split: if_splits option.splits dest!: pop_off_more)
  from t have "uart.more t = uart.more s" "uart_lsr t = vs"
    by (cases s; cases t; simp add: WriteReg_def pushed_def)+
  moreover have "uart_lsr (pushed s) = uart_lsr s" by (simp add: pushed_def)
  ultimately show ?thesis using tx [OF vs] by simp
qed

lemma consputc_frame:
  "consputc c s = Done x t \<Longrightarrow> uart.more t = uart.more s \<and> length (uart_lsr t) \<le> length (uart_lsr s)"
  by (fastforce simp: consputc_def obind_Done_iff split: if_splits dest!: uartputc_sync_frame)

text \<open>\<open>case C('U')\<close>: erase back to the last newline or to the end of the committed input.\<close>

function cons_kill_line :: "('a) console_scheme \<Rightarrow> (unit, ('a) console_scheme) outcome" where
  "cons_kill_line s =
     (if cons_e s \<noteq> cons_w s \<and> cons_buf s (unat (cons_e s - 1) mod INPUT_BUF) \<noteq> 10
      then let s = s\<lparr>cons_e := cons_e s - 1\<rparr>
           in obind (consputc BACKSPACE s) (\<lambda>_ s. cons_kill_line s)
      else Done () s)"
  by pat_completeness auto
termination
proof (relation "measure (\<lambda>s. unat (cons_e s - cons_w s))", goal_cases)
  case (2 s s' x t)
  from consputc_frame [OF 2(3)] have "uart.more t = uart.more s'" by simp
  with 2(2) have "cons_e t = cons_e s - 1" "cons_w t = cons_w s" by (cases s; cases t; simp)+
  moreover have "unat (d - 1) < unat d" if "d \<noteq> 0" for d :: uint32
    using that unat_gt_0 [of d] by (simp add: unat_minus_one)
  from this [of "cons_e s - cons_w s"] 2(1) have "unat (cons_e s - 1 - cons_w s) < unat (cons_e s - cons_w s)"
    by (simp add: algebra_simps)
  ultimately show ?case by simp
qed simp

declare cons_kill_line.simps [simp del]

text \<open>\<open>cons.buf[cons.e++ % INPUT_BUF] = c;\<close>\<close>

definition cons_put :: "uint8 \<Rightarrow> ('a) console_scheme \<Rightarrow> ('a) console_scheme" where
  "cons_put c s = s\<lparr>cons_buf := (cons_buf s)(unat (cons_e s) mod INPUT_BUF := c), cons_e := cons_e s + 1\<rparr>"

definition consoleintr_default :: "int \<Rightarrow> ('a) console_scheme \<Rightarrow> (unit, ('a) console_scheme) outcome" where
  "consoleintr_default c s =
     (if c \<noteq> 0 \<and> cons_e s - cons_r s < 128
      then let c = (if c = 13 then 10 else c)
      in obind (consputc c s) (\<lambda>_ s.
         let s = cons_put (word_of_int c) s
         in if c = 10 \<or> c = 4 \<or> cons_e s = cons_r s + 128
            then let s = s\<lparr>cons_w := cons_e s\<rparr> in wakeup (Some ChConsR) s
            else Done () s)
      else Done () s)"

definition consoleintr :: "int \<Rightarrow> ('a) console_scheme \<Rightarrow> (unit, ('a) console_scheme) outcome" where
  "consoleintr c s =
     obind (acquire ConsLock s) (\<lambda>_ s.
     obind (if c = 16 then procdump s
            else if c = 21 then cons_kill_line s
            else if c = 8 \<or> c = 127
            then if cons_e s \<noteq> cons_w s
                 then let s = s\<lparr>cons_e := cons_e s - 1\<rparr> in consputc BACKSPACE s
                 else Done () s
            else consoleintr_default c s) (\<lambda>_ s.
     release ConsLock s))"

definition consoleinit :: "('a) console_scheme \<Rightarrow> (unit, ('a) console_scheme) outcome" where
  "consoleinit s =
     obind (initlock ConsLock ''cons'' s) (\<lambda>_ s.
     obind (uartinit s) (\<lambda>_ s.
     Done () (s\<lparr>devsw_read := (devsw_read s)(CONSOLE := Some ConsoleRead),
                devsw_write := (devsw_write s)(CONSOLE := Some ConsoleWrite)\<rparr>)))"

section \<open>The uart interrupt\<close>

text \<open>
  Every round of the loop in \<open>uartintr\<close> reads the status register, and nothing the handler calls
  gives the device new answers, so the loop ends.
\<close>

definition reads_lsr :: "('b, ('a) uart_scheme) outcome \<Rightarrow> ('a) uart_scheme \<Rightarrow> bool" where
  "reads_lsr m s \<longleftrightarrow> (\<forall>x t. m = Done x t \<longrightarrow> length (uart_lsr t) \<le> length (uart_lsr s))"

named_theorems reads_lsr

lemma reads_lsr_Done [reads_lsr]: "length (uart_lsr t) \<le> length (uart_lsr s) \<Longrightarrow> reads_lsr (Done x t) s"
  by (simp add: reads_lsr_def)

lemma reads_lsr_obind [reads_lsr]:
  assumes "reads_lsr m s" and "\<And>x t. m = Done x t \<Longrightarrow> reads_lsr (f x t) t"
  shows "reads_lsr (obind m f) s"
  using assms by (cases m) (force simp: reads_lsr_def)+

lemma reads_lsr_if [reads_lsr]: "(b \<Longrightarrow> reads_lsr m s) \<Longrightarrow> (\<not> b \<Longrightarrow> reads_lsr n s) \<Longrightarrow> reads_lsr (if b then m else n) s"
  by simp

lemma reads_lsr_upd:
  assumes "reads_lsr m t" and "uart_lsr t = uart_lsr s"
  shows "reads_lsr m s"
  using assms by (simp add: reads_lsr_def)

lemma reads_lsr_ofor [reads_lsr]:
  assumes "\<And>i s. reads_lsr (body i s) s"
  shows "reads_lsr (ofor js body s) s"
  using assms by (induction js arbitrary: s) (auto intro: reads_lsr)

lemma reads_lsr_acquire [reads_lsr]: "reads_lsr (acquire l s) s"
  and reads_lsr_release [reads_lsr]: "reads_lsr (release l s) s"
  and reads_lsr_wakeup [reads_lsr]: "reads_lsr (wakeup ch s) s"
  and reads_lsr_consputc [reads_lsr]: "reads_lsr (consputc c s) s"
  by (auto simp: reads_lsr_def dest!: only_procs_acquire only_procs_release only_procs_wakeup consputc_frame
    simp: only_procs_uart)

lemma reads_lsr_consputs [reads_lsr]: "reads_lsr (consputs bs s) s"
  and reads_lsr_printint [reads_lsr]: "reads_lsr (printint xx base sign s) s"
  and reads_lsr_printptr [reads_lsr]: "reads_lsr (printptr p s) s"
  by (simp_all add: consputs_def printint_def printptr_def reads_lsr)

lemma reads_lsr_printf_loop [reads_lsr]: "reads_lsr (printf_loop fmt ap s) s"
proof (induction fmt arbitrary: ap s rule: induct_list012)
  case (3 c d fmt)
  show ?case unfolding printf_loop.simps by (intro reads_lsr 3) simp_all
qed (auto intro: reads_lsr)

lemma reads_lsr_printf [reads_lsr]: "reads_lsr (printf fmt ap s) s"
  unfolding printf_def Let_def by (intro reads_lsr) simp_all

lemma reads_lsr_procdump [reads_lsr]: "reads_lsr (procdump s) s"
  unfolding procdump_def Let_def by (intro reads_lsr) simp_all

lemma reads_lsr_kill_line [reads_lsr]: "reads_lsr (cons_kill_line s) s"
proof (induction s rule: cons_kill_line.induct)
  case (1 s)
  let ?t = "s\<lparr>cons_e := cons_e s - 1\<rparr>"
  have "reads_lsr (obind (consputc BACKSPACE ?t) (\<lambda>_ s. cons_kill_line s)) ?t"
    if "cons_e s \<noteq> cons_w s \<and> cons_buf s (unat (cons_e s - 1) mod INPUT_BUF) \<noteq> 10"
    using 1 [OF that refl] by (intro reads_lsr_obind reads_lsr_consputc) simp
  then have "reads_lsr (obind (consputc BACKSPACE ?t) (\<lambda>_ s. cons_kill_line s)) s"
    if "cons_e s \<noteq> cons_w s \<and> cons_buf s (unat (cons_e s - 1) mod INPUT_BUF) \<noteq> 10"
    using that by (auto intro: reads_lsr_upd)
  then show ?case
    unfolding cons_kill_line.simps [of s] Let_def by (intro reads_lsr_if) (auto intro: reads_lsr_Done)
qed

lemma reads_lsr_default [reads_lsr]: "reads_lsr (consoleintr_default c s) s"
proof -
  have w: "reads_lsr (wakeup ch ((cons_put d s)\<lparr>cons_w := x\<rparr>)) s" for d ch x and s :: "('a) console_scheme"
    by (rule reads_lsr_upd [OF reads_lsr_wakeup]) (simp add: cons_put_def)
  have p: "uart_lsr (cons_put d s) = uart_lsr s" for d and s :: "('a) console_scheme"
    by (simp add: cons_put_def)
  show ?thesis
    unfolding consoleintr_default_def Let_def by (intro reads_lsr_if reads_lsr_obind reads_lsr_consputc w reads_lsr_Done) (simp_all add: p)
qed

lemma reads_lsr_consoleintr [reads_lsr]: "reads_lsr (consoleintr c s) s"
proof -
  have "reads_lsr (let s = s\<lparr>cons_e := cons_e s - 1\<rparr> in consputc BACKSPACE s) s" for s :: "('a) console_scheme"
    unfolding Let_def by (rule reads_lsr_upd [OF reads_lsr_consputc]) simp
  then show ?thesis unfolding consoleintr_def by (intro reads_lsr) simp_all
qed

function uartintr_loop :: "('a) console_scheme \<Rightarrow> (unit, ('a) console_scheme) outcome" where
  "uartintr_loop s =
     obind (uartgetc s) (\<lambda>c s.
     if c = -1 then Done () s
     else obind (consoleintr c s) (\<lambda>_ s. uartintr_loop s))"
  by pat_completeness auto
termination
proof (relation "measure (\<lambda>s. length (uart_lsr s))", goal_cases)
  case (2 s c t x u)
  then have "length (uart_lsr t) < length (uart_lsr s)"
    by (auto simp: uartgetc_def ReadLSR_def ReadRHR_def split: list.splits if_splits)
  moreover have "length (uart_lsr u) \<le> length (uart_lsr t)"
    using reads_lsr_consoleintr [of c t] 2(3) by (simp add: reads_lsr_def)
  ultimately show ?case by simp
qed simp

declare uartintr_loop.simps [simp del]

definition uartintr :: "('a) console_scheme \<Rightarrow> (unit, ('a) console_scheme) outcome" where
  "uartintr s =
     obind (uartintr_loop s) (\<lambda>_ s.
     obind (acquire UartLock s) (\<lambda>_ s.
     obind (uartstart s) (\<lambda>_ s.
     release UartLock s)))"

end
