(* ===== verification/Sleeplock.thy ===== *)
theory Sleeplock
  imports Console
begin

text \<open>
  Sleep-locks (\<open>kernel/sleeplock.c\<close>, \<open>kernel/sleeplock.h\<close>). A sleep-lock has the name of the
  spinlock \<open>lk->lk\<close> inside of it. Waiting for a taken sleep-lock gives up the CPU.
\<close>

record sleeplock =
  sl_locked :: bool
  sl_name :: string
  sl_pid :: uint32

record slstate = console +
  slks :: "lockid \<Rightarrow> sleeplock"

definition upd_slk :: "lockid \<Rightarrow> (sleeplock \<Rightarrow> sleeplock) \<Rightarrow> ('a) slstate_scheme \<Rightarrow> ('a) slstate_scheme" where
  "upd_slk lk f s = s\<lparr>slks := (slks s)(lk := f (slks s lk))\<rparr>"

section \<open>Operations\<close>

definition initsleeplock :: "lockid \<Rightarrow> string \<Rightarrow> ('a) slstate_scheme \<Rightarrow> (unit, ('a) slstate_scheme) outcome" where
  "initsleeplock lk name s =
     obind (initlock lk ''sleep lock'' s) (\<lambda>_ s.
     Done () (upd_slk lk (\<lambda>l. l\<lparr>sl_name := name, sl_locked := False, sl_pid := 0\<rparr>) s))"

function acquiresleep_loop :: "lockid \<Rightarrow> ('a) slstate_scheme \<Rightarrow> (unit, ('a) slstate_scheme) outcome" where
  "acquiresleep_loop lk s =
     (if sl_locked (slks s lk)
      then obind (sleep (ChSleeplock lk) lk s) (\<lambda>_ s. acquiresleep_loop lk s)
      else let s = upd_slk lk (\<lambda>l. l\<lparr>sl_locked := True\<rparr>) s
      in obind (myproc s) (\<lambda>p. deref p (\<lambda>p s.
         let s = upd_slk lk (\<lambda>l. l\<lparr>sl_pid := p_pid (procs s p)\<rparr>) s
         in release lk s)))"
  by pat_completeness auto
termination by (relation "{}") simp_all

declare acquiresleep_loop.simps [simp del]

definition acquiresleep :: "lockid \<Rightarrow> ('a) slstate_scheme \<Rightarrow> (unit, ('a) slstate_scheme) outcome" where
  "acquiresleep lk s = obind (acquire lk s) (\<lambda>_ s. acquiresleep_loop lk s)"

definition releasesleep :: "lockid \<Rightarrow> ('a) slstate_scheme \<Rightarrow> (unit, ('a) slstate_scheme) outcome" where
  "releasesleep lk s =
     obind (acquire lk s) (\<lambda>_ s.
     let s = upd_slk lk (\<lambda>l. l\<lparr>sl_locked := False, sl_pid := 0\<rparr>) s
     in obind (wakeup (Some (ChSleeplock lk)) s) (\<lambda>_ s.
        release lk s))"

definition holdingsleep :: "lockid \<Rightarrow> ('a) slstate_scheme \<Rightarrow> (bool, ('a) slstate_scheme) outcome" where
  "holdingsleep lk s =
     obind (acquire lk s) (\<lambda>_ s.
     obind (if sl_locked (slks s lk)
            then obind (myproc s) (\<lambda>p. deref p (\<lambda>p s. Done (sl_pid (slks s lk) = p_pid (procs s p)) s))
            else Done False s) (\<lambda>r s.
     obind (release lk s) (\<lambda>_ s. Done r s)))"

section \<open>Running undisturbed\<close>

text \<open>
  A process in the kernel that holds no spinlock and finds none taken. Sleep-lock operations then
  return, and change nothing but the sleep-lock and the processes that waited for it.
\<close>

definition calm :: "('a) pstate_scheme \<Rightarrow> bool" where
  "calm s \<longleftrightarrow> hart_ok s \<and> (\<forall>l. lock_free l s) \<and> (\<exists>p. cpu_proc (mycpu s) = Some p)"

definition mypid :: "('a) pstate_scheme \<Rightarrow> uint32" where
  "mypid s = p_pid (procs s (the (cpu_proc (mycpu s))))"

text \<open>Some sleeping processes have been made runnable.\<close>

definition wakes :: "(nat \<Rightarrow> proc) \<Rightarrow> (nat \<Rightarrow> proc) \<Rightarrow> bool" where
  "wakes A B \<longleftrightarrow> (\<forall>i. B i = A i \<or> (p_state (A i) = SLEEPING \<and> B i = (A i)\<lparr>p_state := RUNNABLE\<rparr>))"

lemma wakes_refl [simp]: "wakes A A"
  by (simp add: wakes_def)

lemma wakes_woken [simp]: "wakes A (woken ch me I A)"
  by (simp add: wakes_def woken_def)

lemma wakes_trans: "wakes A B \<Longrightarrow> wakes B C \<Longrightarrow> wakes A C"
  unfolding wakes_def by (metis procstate.distinct(21) proc.select_convs(1) proc.surjective proc.update_convs(1))

lemma wakes_keeps:
  assumes "wakes A B"
  shows "p_pid (B i) = p_pid (A i)" and "p_killed (B i) = p_killed (A i)" and "p_cwd (B i) = p_cwd (A i)"
    and "p_ofile (B i) = p_ofile (A i)" and "p_trapframe (B i) = p_trapframe (A i)"
    and "p_pagetable (B i) = p_pagetable (A i)" and "p_sz (B i) = p_sz (A i)"
  using assms [unfolded wakes_def, rule_format, of i] by auto

lemma slks_acq [simp]:
  "slks (acq l s) = slks s" "slks_update f (acq l s) = acq l (slks_update f s)"
  "upd_slk k h (acq l s) = acq l (upd_slk k h s)"
  by (simp_all add: acq_def pushed_def mycpu_def intr_get_def upd_slk_def)

lemma slks_settle [simp]:
  "slks (settle s) = slks s" "slks_update f (settle s) = settle (slks_update f s)"
  "upd_slk k h (settle s) = settle (upd_slk k h s)"
  by (simp_all add: settle_def mycpu_def intr_get_def upd_slk_def)

lemma slks_machine [simp]:
  "hart_ok (slks_update f s) = hart_ok s" "lock_free l (slks_update f s) = lock_free l s"
  "hart_ok (upd_slk k h s) = hart_ok s" "lock_free l (upd_slk k h s) = lock_free l s"
  "mycpu (slks_update f s) = mycpu s" "mycpu (upd_slk k h s) = mycpu s" "procs (upd_slk k h s) = procs s"
  "tp (upd_slk k h s) = tp s"
  by (simp_all add: hart_ok_def lock_free_def mycpu_def intr_get_def upd_slk_def)

lemma slks_upd_slk [simp]: "slks (upd_slk k h s) = (slks s)(k := h (slks s k))"
  by (simp add: upd_slk_def)

lemma upd_slk_procs [simp]: "upd_slk k h (s\<lparr>procs := P\<rparr>) = (upd_slk k h s)\<lparr>procs := P\<rparr>"
  by (simp add: upd_slk_def)

lemma upd_slk_upd_slk [simp]: "upd_slk k g (upd_slk k h s) = upd_slk k (\<lambda>l. g (h l)) s"
  by (simp add: upd_slk_def)

definition procs_free :: "('a) pstate_scheme \<Rightarrow> bool" where
  "procs_free s \<longleftrightarrow> (\<forall>p < NPROC. cpu_proc (mycpu s) = Some p \<or> lock_free (ProcLock p) s)"

lemma wakeup_wakes:
  assumes "hart_ok s" and "procs_free s"
  shows "wakeup ch s = Done () (settle (s\<lparr>procs := woken ch (cpu_proc (mycpu s)) {..<NPROC} (procs s)\<rparr>))"
  using assms by (intro wakeup_eq) (auto simp: procs_free_def)

lemma calm_settle [simp]: "calm (settle s) = calm s"
  by (simp add: calm_def)

lemma calmD:
  assumes "calm s"
  shows "hart_ok s" and "lock_free l s" and "procs_free s"
  using assms by (simp_all add: calm_def procs_free_def)

lemma acquiresleep_free:
  assumes "hart_ok s" and "lock_free lk s" and "cpu_proc (mycpu s) = Some p" and "\<not> sl_locked (slks s lk)"
  shows "acquiresleep lk s = Done () (settle (upd_slk lk (\<lambda>l. l\<lparr>sl_locked := True, sl_pid := p_pid (procs s p)\<rparr>) s))"
proof -
  let ?u = "upd_slk lk (\<lambda>l. l\<lparr>sl_locked := True\<rparr>) s"
  have "acquiresleep lk s = acquiresleep_loop lk (acq lk s)"
    using assms(2) by (simp add: acquiresleep_def acquire_free)
  also have "\<dots> = release lk (acq lk (upd_slk lk (\<lambda>l. l\<lparr>sl_locked := True, sl_pid := p_pid (procs s p)\<rparr>) s))"
    using assms(1,3,4) by (subst acquiresleep_loop.simps) (simp add: myproc_eq Let_def)
  also have "\<dots> = Done () (settle (upd_slk lk (\<lambda>l. l\<lparr>sl_locked := True, sl_pid := p_pid (procs s p)\<rparr>) s))"
    using assms(1,2) by (intro release_acq) simp_all
  finally show ?thesis .
qed

lemma holdingsleep_eq:
  assumes "hart_ok s" and "lock_free lk s" and "cpu_proc (mycpu s) = Some p"
  shows "holdingsleep lk s = Done (sl_locked (slks s lk) \<and> sl_pid (slks s lk) = p_pid (procs s p)) (settle s)"
  using assms by (simp add: holdingsleep_def acquire_free myproc_eq release_acq)

lemma releasesleep_eq:
  assumes "hart_ok s" and "lock_free lk s" and "procs_free s" and "\<And>p. lk \<noteq> ProcLock p"
  shows "releasesleep lk s = Done () (settle ((upd_slk lk (\<lambda>l. l\<lparr>sl_locked := False, sl_pid := 0\<rparr>) s)
    \<lparr>procs := woken (Some (ChSleeplock lk)) (cpu_proc (mycpu s)) {..<NPROC} (procs s)\<rparr>))"
proof -
  let ?u = "upd_slk lk (\<lambda>l. l\<lparr>sl_locked := False, sl_pid := 0\<rparr>) s"
  have "procs_free (acq lk ?u)" using assms(3,4) by (auto simp: procs_free_def)
  with assms have "releasesleep lk s = release lk (acq lk (?u\<lparr>procs := woken (Some (ChSleeplock lk)) (cpu_proc (mycpu s)) {..<NPROC} (procs s)\<rparr>))"
    by (simp add: releasesleep_def acquire_free wakeup_wakes Let_def)
  with assms show ?thesis by (simp add: release_acq)
qed

end
