(* ===== verification/Bio.thy ===== *)
theory Bio
  imports Sleeplock
begin

text \<open>
  The buffer cache (\<open>kernel/bio.c\<close>, \<open>kernel/buf.h\<close>): a fixed array of buffers on a doubly linked list
  in the order of last use. Buffers are named by their index in \<open>bcache.buf\<close>, and the list head
  \<open>bcache.head\<close> is index \<open>NBUF\<close>. \<open>disk\<close> is the content of the disk by block number;
  \<open>disk_writes\<close> is the history of block writes, which no operation reads.

  \<open>disk_rw\<close> is a completed call of \<open>virtio_disk_rw\<close>: the block has been transferred. The driver that
  does it, with its descriptors, interrupts and waiting, is in the theory of the disk driver.
\<close>

abbreviation (input) BSIZE :: nat where "BSIZE \<equiv> 1024"
abbreviation (input) bhead :: nat where "bhead \<equiv> NBUF"

record buf =
  b_valid :: bool
  b_disk :: bool
  b_dev :: uint32
  b_blockno :: uint32
  b_refcnt :: uint32
  b_prev :: nat
  b_next :: nat
  b_data :: "uint8 list"

record bcache = slstate +
  bufs :: "nat \<Rightarrow> buf"
  disk :: "uint32 \<Rightarrow> uint8 list"
  disk_writes :: "(uint32 \<times> uint8 list) list"

definition upd_buf :: "nat \<Rightarrow> (buf \<Rightarrow> buf) \<Rightarrow> ('a) bcache_scheme \<Rightarrow> ('a) bcache_scheme" where
  "upd_buf b f s = s\<lparr>bufs := (bufs s)(b := f (bufs s b))\<rparr>"

definition disk_rw :: "nat \<Rightarrow> bool \<Rightarrow> ('a) bcache_scheme \<Rightarrow> (unit, ('a) bcache_scheme) outcome" where
  "disk_rw b write s =
     (if write
      then Done () (s\<lparr>disk := (disk s)(b_blockno (bufs s b) := b_data (bufs s b)),
                      disk_writes := disk_writes s @ [(b_blockno (bufs s b), b_data (bufs s b))]\<rparr>)
      else Done () (upd_buf b (\<lambda>q. q\<lparr>b_data := disk s (b_blockno q)\<rparr>) s))"

section \<open>The list of buffers\<close>

text \<open>The four assignments that put \<open>b\<close> behind the head, and the two that take it out.\<close>

definition blist_push :: "nat \<Rightarrow> (nat \<Rightarrow> buf) \<Rightarrow> nat \<Rightarrow> buf" where
  "blist_push b B =
     (let B = B(b := (B b)\<lparr>b_next := b_next (B bhead)\<rparr>);
          B = B(b := (B b)\<lparr>b_prev := bhead\<rparr>);
          n = b_next (B bhead);
          B = B(n := (B n)\<lparr>b_prev := b\<rparr>)
      in B(bhead := (B bhead)\<lparr>b_next := b\<rparr>))"

definition blist_unlink :: "nat \<Rightarrow> (nat \<Rightarrow> buf) \<Rightarrow> nat \<Rightarrow> buf" where
  "blist_unlink b B =
     (let n = b_next (B b);
          B = B(n := (B n)\<lparr>b_prev := b_prev (B b)\<rparr>);
          p = b_prev (B b)
      in B(p := (B p)\<lparr>b_next := b_next (B b)\<rparr>))"

definition binit :: "('a) bcache_scheme \<Rightarrow> (unit, ('a) bcache_scheme) outcome" where
  "binit s =
     obind (initlock BcacheLock ''bcache'' s) (\<lambda>_ s.
     let s = upd_buf bhead (\<lambda>q. q\<lparr>b_prev := bhead, b_next := bhead\<rparr>) s
     in ofor [0..<NBUF] (\<lambda>b s.
          obind (initsleeplock (BufLk b) ''buffer'' s) (\<lambda>_ s.
          Done () (s\<lparr>bufs := blist_push b (bufs s)\<rparr>))) s)"

section \<open>Operations\<close>

text \<open>
  The two searches of \<open>bget\<close> from buffer \<open>b\<close> on, forward for a cached block and backward for an
  unused buffer. \<open>Some None\<close>: the search has come to the head without finding one. The first
  argument bounds the number of buffers that are looked at; \<open>None\<close> is a list that does not come back
  to the head, on which the code loops.
\<close>

fun bget_cached :: "nat \<Rightarrow> nat \<Rightarrow> uint32 \<Rightarrow> uint32 \<Rightarrow> (nat \<Rightarrow> buf) \<Rightarrow> nat option option" where
  "bget_cached 0 b dev blockno B = None"
| "bget_cached (Suc n) b dev blockno B =
     (if b = bhead then Some None
      else if b_dev (B b) = dev \<and> b_blockno (B b) = blockno then Some (Some b)
      else bget_cached n (b_next (B b)) dev blockno B)"

fun bget_unused :: "nat \<Rightarrow> nat \<Rightarrow> (nat \<Rightarrow> buf) \<Rightarrow> nat option option" where
  "bget_unused 0 b B = None"
| "bget_unused (Suc n) b B =
     (if b = bhead then Some None
      else if b_refcnt (B b) = 0 then Some (Some b)
      else bget_unused n (b_prev (B b)) B)"

definition bget :: "uint32 \<Rightarrow> uint32 \<Rightarrow> ('a) bcache_scheme \<Rightarrow> (nat, ('a) bcache_scheme) outcome" where
  "bget dev blockno s =
     obind (acquire BcacheLock s) (\<lambda>_ s.
     case bget_cached (Suc NBUF) (b_next (bufs s bhead)) dev blockno (bufs s) of
       None \<Rightarrow> Spins
     | Some (Some b) \<Rightarrow>
         let s = upd_buf b (\<lambda>q. q\<lparr>b_refcnt := b_refcnt q + 1\<rparr>) s
         in obind (release BcacheLock s) (\<lambda>_ s.
            obind (acquiresleep (BufLk b) s) (\<lambda>_ s. Done b s))
     | Some None \<Rightarrow>
         (case bget_unused (Suc NBUF) (b_prev (bufs s bhead)) (bufs s) of
            None \<Rightarrow> Spins
          | Some (Some b) \<Rightarrow>
              let s = upd_buf b (\<lambda>q. q\<lparr>b_dev := dev, b_blockno := blockno, b_valid := False, b_refcnt := 1\<rparr>) s
              in obind (release BcacheLock s) (\<lambda>_ s.
                 obind (acquiresleep (BufLk b) s) (\<lambda>_ s. Done b s))
          | Some None \<Rightarrow> Panic ''bget: no buffers''))"

definition bread :: "uint32 \<Rightarrow> uint32 \<Rightarrow> ('a) bcache_scheme \<Rightarrow> (nat, ('a) bcache_scheme) outcome" where
  "bread dev blockno s =
     obind (bget dev blockno s) (\<lambda>b s.
     if \<not> b_valid (bufs s b)
     then obind (disk_rw b False s) (\<lambda>_ s. Done b (upd_buf b (\<lambda>q. q\<lparr>b_valid := True\<rparr>) s))
     else Done b s)"

definition bwrite :: "nat \<Rightarrow> ('a) bcache_scheme \<Rightarrow> (unit, ('a) bcache_scheme) outcome" where
  "bwrite b s =
     obind (holdingsleep (BufLk b) s) (\<lambda>h s.
     if \<not> h then Panic ''bwrite'' else disk_rw b True s)"

definition brelse :: "nat \<Rightarrow> ('a) bcache_scheme \<Rightarrow> (unit, ('a) bcache_scheme) outcome" where
  "brelse b s =
     obind (holdingsleep (BufLk b) s) (\<lambda>h s.
     if \<not> h then Panic ''brelse''
     else obind (releasesleep (BufLk b) s) (\<lambda>_ s.
          obind (acquire BcacheLock s) (\<lambda>_ s.
          let s = upd_buf b (\<lambda>q. q\<lparr>b_refcnt := b_refcnt q - 1\<rparr>) s;
              s = (if b_refcnt (bufs s b) = 0 then s\<lparr>bufs := blist_push b (blist_unlink b (bufs s))\<rparr> else s)
          in release BcacheLock s)))"

definition bpin :: "nat \<Rightarrow> ('a) bcache_scheme \<Rightarrow> (unit, ('a) bcache_scheme) outcome" where
  "bpin b s =
     obind (acquire BcacheLock s) (\<lambda>_ s.
     let s = upd_buf b (\<lambda>q. q\<lparr>b_refcnt := b_refcnt q + 1\<rparr>) s in release BcacheLock s)"

definition bunpin :: "nat \<Rightarrow> ('a) bcache_scheme \<Rightarrow> (unit, ('a) bcache_scheme) outcome" where
  "bunpin b s =
     obind (acquire BcacheLock s) (\<lambda>_ s.
     let s = upd_buf b (\<lambda>q. q\<lparr>b_refcnt := b_refcnt q - 1\<rparr>) s in release BcacheLock s)"

end
