(* ===== verification/Virtio.thy ===== *)
theory Virtio
  imports Bio
begin

unbundle bit_operations_syntax

text \<open>
  The disk driver (\<open>kernel/virtio_disk.c\<close>, \<open>kernel/virtio.h\<close>): descriptors, the two rings shared with
  the device, the request that waits for its interrupt, and the interrupt handler. The device is
  outside of the kernel. \<open>mmio_in\<close> gives the values of its registers, \<open>mmio_out\<close> records the register
  writes; the used ring (\<open>used_idx\<close>, \<open>used_ring\<close>) and the status bytes are what the device writes.
  Addresses in descriptors are names of the objects they point to.
\<close>

section \<open>State\<close>

datatype dma_addr = DmaNone | DmaOp nat | DmaData nat | DmaStatus nat

record virtq_desc =
  vd_addr :: dma_addr
  vd_len :: uint32
  vd_flags :: uint16
  vd_next :: uint16

record virtio_blk_req =
  rq_type :: uint32
  rq_reserved :: uint32
  rq_sector :: uint64

record vdisk = bcache +
  vq_desc :: "nat \<Rightarrow> virtq_desc"
  avail_idx :: uint16
  avail_ring :: "nat \<Rightarrow> uint16"
  used_idx :: uint16
  used_ring :: "nat \<Rightarrow> uint32"
  vd_free :: "nat \<Rightarrow> bool"
  vd_used_idx :: uint16
  info_b :: "nat \<Rightarrow> nat option"
  info_status :: "nat \<Rightarrow> uint8"
  vd_ops :: "nat \<Rightarrow> virtio_blk_req"
  mmio_in :: "nat \<Rightarrow> uint32"
  mmio_out :: "(nat \<times> uint32) list"

abbreviation (input) NUM :: nat where "NUM \<equiv> 8"
abbreviation (input) VRING_DESC_F_NEXT :: uint16 where "VRING_DESC_F_NEXT \<equiv> 1"
abbreviation (input) VRING_DESC_F_WRITE :: uint16 where "VRING_DESC_F_WRITE \<equiv> 2"

definition desc_zero :: virtq_desc where
  "desc_zero = \<lparr>vd_addr = DmaNone, vd_len = 0, vd_flags = 0, vd_next = 0\<rparr>"

definition mmio_write :: "nat \<Rightarrow> uint32 \<Rightarrow> ('a) vdisk_scheme \<Rightarrow> ('a) vdisk_scheme" where
  "mmio_write r v s = s\<lparr>mmio_out := mmio_out s @ [(r, v)]\<rparr>"

definition upd_desc :: "nat \<Rightarrow> (virtq_desc \<Rightarrow> virtq_desc) \<Rightarrow> ('a) vdisk_scheme \<Rightarrow> ('a) vdisk_scheme" where
  "upd_desc i f s = s\<lparr>vq_desc := (vq_desc s)(i := f (vq_desc s i))\<rparr>"

section \<open>Initialisation\<close>

text \<open>
  The feature word with bits 5, 7, 11, 12, 27, 29 and 28 cleared. \<open>pages_pfn\<close> is the page number of
  \<open>disk.pages\<close>; clearing the two pages clears descriptors and rings.
\<close>

definition virtio_disk_init :: "uint32 \<Rightarrow> ('a) vdisk_scheme \<Rightarrow> (unit, ('a) vdisk_scheme) outcome" where
  "virtio_disk_init pages_pfn s =
     obind (initlock VdiskLock ''virtio_disk'' s) (\<lambda>_ s.
     if mmio_in s 0x000 \<noteq> 0x74726976 \<or> mmio_in s 0x004 \<noteq> 1 \<or> mmio_in s 0x008 \<noteq> 2 \<or> mmio_in s 0x00c \<noteq> 0x554d4551
     then Panic ''could not find virtio disk''
     else
       let s = mmio_write 0x070 1 s;
           s = mmio_write 0x070 (1 OR 2) s;
           features = mmio_in s 0x010;
           features = unset_bit 5 features;
           features = unset_bit 7 features;
           features = unset_bit 11 features;
           features = unset_bit 12 features;
           features = unset_bit 27 features;
           features = unset_bit 29 features;
           features = unset_bit 28 features;
           s = mmio_write 0x020 features s;
           s = mmio_write 0x070 (1 OR 2 OR 8) s;
           s = mmio_write 0x070 (1 OR 2 OR 8 OR 4) s;
           s = mmio_write 0x028 4096 s;
           s = mmio_write 0x030 0 s;
           max = mmio_in s 0x034
       in if max = 0 then Panic ''virtio disk has no queue 0''
          else if max < 8 then Panic ''virtio disk max queue too short''
          else
            let s = mmio_write 0x038 8 s;
                s = s\<lparr>vq_desc := (\<lambda>_. desc_zero), avail_idx := 0, avail_ring := (\<lambda>_. 0), used_idx := 0, used_ring := (\<lambda>_. 0)\<rparr>;
                s = mmio_write 0x040 pages_pfn s
            in Done () (s\<lparr>vd_free := (\<lambda>i. if i < NUM then True else vd_free s i)\<rparr>))"

section \<open>Descriptors\<close>

definition alloc_desc :: "('a) vdisk_scheme \<Rightarrow> nat option \<times> ('a) vdisk_scheme" where
  "alloc_desc s =
     (case find (vd_free s) [0..<NUM] of
        None \<Rightarrow> (None, s)
      | Some i \<Rightarrow> (Some i, s\<lparr>vd_free := (vd_free s)(i := False)\<rparr>))"

definition free_desc :: "nat \<Rightarrow> ('a) vdisk_scheme \<Rightarrow> (unit, ('a) vdisk_scheme) outcome" where
  "free_desc i s =
     (if NUM \<le> i then Panic ''free_desc 1''
      else if vd_free s i then Panic ''free_desc 2''
      else let s = upd_desc i (\<lambda>_. desc_zero) s;
               s = s\<lparr>vd_free := (vd_free s)(i := True)\<rparr>
           in wakeup (Some ChDiskFree) s)"

lemma free_desc_Done:
  assumes "free_desc i s = Done x t"
  shows "i < NUM" and "\<not> vd_free s i" and "vd_free t = (vd_free s)(i := True)"
proof -
  from assms show "i < NUM" "\<not> vd_free s i" by (auto simp: free_desc_def split: if_splits)
  with assms have "only_procs ((upd_desc i (\<lambda>_. desc_zero) s)\<lparr>vd_free := (vd_free s)(i := True)\<rparr>) t"
    by (auto simp: free_desc_def Let_def upd_desc_def split: if_splits dest!: only_procs_wakeup)
  then show "vd_free t = (vd_free s)(i := True)"
    by (cases s; cases t) (simp add: only_procs_def upd_desc_def)
qed

function free_chain :: "nat \<Rightarrow> ('a) vdisk_scheme \<Rightarrow> (unit, ('a) vdisk_scheme) outcome" where
  "free_chain i s =
     (let flag = vd_flags (vq_desc s i);
          nxt = unat (vd_next (vq_desc s i))
      in obind (free_desc i s) (\<lambda>_ s.
         if flag AND VRING_DESC_F_NEXT \<noteq> 0 then free_chain nxt s else Done () s))"
  by pat_completeness auto
termination
proof (relation "measure (\<lambda>(i, s). card {j. j < NUM \<and> \<not> vd_free s j})", goal_cases)
  case (2 i s flag nxt x t)
  note f = free_desc_Done [OF 2(3)]
  then have "{j. j < NUM \<and> \<not> vd_free t j} \<subset> {j. j < NUM \<and> \<not> vd_free s j}" by auto
  then show ?case by (auto intro!: psubset_card_mono)
qed simp

declare free_chain.simps [simp del]

text \<open>The result is the three indices, or \<open>None\<close> when fewer than three descriptors are free.\<close>

fun alloc3_loop :: "nat \<Rightarrow> nat list \<Rightarrow> ('a) vdisk_scheme \<Rightarrow> (nat list option, ('a) vdisk_scheme) outcome" where
  "alloc3_loop 0 ix s = Done (Some ix) s"
| "alloc3_loop (Suc k) ix s =
     (case alloc_desc s of
        (Some i, s) \<Rightarrow> alloc3_loop k (ix @ [i]) s
      | (None, s) \<Rightarrow> obind (ofor ix free_desc s) (\<lambda>_ s. Done None s))"

definition alloc3_desc :: "('a) vdisk_scheme \<Rightarrow> (nat list option, ('a) vdisk_scheme) outcome" where
  "alloc3_desc s = alloc3_loop 3 [] s"

function vdisk_alloc :: "('a) vdisk_scheme \<Rightarrow> (nat list, ('a) vdisk_scheme) outcome" where
  "vdisk_alloc s =
     obind (alloc3_desc s) (\<lambda>r s.
     case r of
       Some ix \<Rightarrow> Done ix s
     | None \<Rightarrow> obind (sleep ChDiskFree VdiskLock s) (\<lambda>_ s. vdisk_alloc s))"
  by pat_completeness auto
termination by (relation "{}") simp_all

declare vdisk_alloc.simps [simp del]

section \<open>Requests\<close>

text \<open>The request of \<open>virtio_disk_rw\<close>, up to the notification of the device.\<close>

definition vdisk_submit :: "nat \<Rightarrow> bool \<Rightarrow> nat list \<Rightarrow> ('a) vdisk_scheme \<Rightarrow> ('a) vdisk_scheme" where
  "vdisk_submit b write ix s =
     (let sector = (ucast (b_blockno (bufs s b) * 2) :: uint64);
          i0 = ix ! 0; i1 = ix ! 1; i2 = ix ! 2;
          s = s\<lparr>vd_ops := (vd_ops s)(i0 := \<lparr>rq_type = (if write then 1 else 0), rq_reserved = 0, rq_sector = sector\<rparr>)\<rparr>;
          s = upd_desc i0 (\<lambda>_. \<lparr>vd_addr = DmaOp i0, vd_len = 16, vd_flags = VRING_DESC_F_NEXT, vd_next = of_nat i1\<rparr>) s;
          s = upd_desc i1 (\<lambda>_. \<lparr>vd_addr = DmaData b, vd_len = 1024,
                vd_flags = (if write then 0 else VRING_DESC_F_WRITE) OR VRING_DESC_F_NEXT, vd_next = of_nat i2\<rparr>) s;
          s = s\<lparr>info_status := (info_status s)(i0 := 0xff)\<rparr>;
          s = upd_desc i2 (\<lambda>_. \<lparr>vd_addr = DmaStatus i0, vd_len = 1, vd_flags = VRING_DESC_F_WRITE, vd_next = 0\<rparr>) s;
          s = upd_buf b (\<lambda>q. q\<lparr>b_disk := True\<rparr>) s;
          s = s\<lparr>info_b := (info_b s)(i0 := Some b)\<rparr>;
          s = s\<lparr>avail_ring := (avail_ring s)(unat (avail_idx s) mod NUM := of_nat i0)\<rparr>;
          s = s\<lparr>avail_idx := avail_idx s + 1\<rparr>
      in mmio_write 0x050 0 s)"

function vdisk_wait :: "nat \<Rightarrow> ('a) vdisk_scheme \<Rightarrow> (unit, ('a) vdisk_scheme) outcome" where
  "vdisk_wait b s =
     (if b_disk (bufs s b)
      then obind (sleep (ChBuf b) VdiskLock s) (\<lambda>_ s. vdisk_wait b s)
      else Done () s)"
  by pat_completeness auto
termination by (relation "{}") simp_all

declare vdisk_wait.simps [simp del]

text \<open>After the request has finished.\<close>

definition vdisk_finish :: "nat list \<Rightarrow> ('a) vdisk_scheme \<Rightarrow> (unit, ('a) vdisk_scheme) outcome" where
  "vdisk_finish ix s =
     (let s = s\<lparr>info_b := (info_b s)(ix ! 0 := None)\<rparr>
      in obind (free_chain (ix ! 0) s) (\<lambda>_ s. release VdiskLock s))"

definition virtio_disk_rw :: "nat \<Rightarrow> bool \<Rightarrow> ('a) vdisk_scheme \<Rightarrow> (unit, ('a) vdisk_scheme) outcome" where
  "virtio_disk_rw b write s =
     obind (acquire VdiskLock s) (\<lambda>_ s.
     obind (vdisk_alloc s) (\<lambda>ix s.
     let s = vdisk_submit b write ix s
     in obind (vdisk_wait b s) (\<lambda>_ s. vdisk_finish ix s)))"

section \<open>The interrupt handler\<close>

lemma only_procs_vdisk:
  assumes "only_procs s t"
  shows "used_idx t = used_idx s" and "vd_used_idx t = vd_used_idx s" and "bufs t = bufs s"
    and "used_ring t = used_ring s" and "info_b t = info_b s" and "info_status t = info_status s"
    and "vd_free t = vd_free s" and "vq_desc t = vq_desc s" and "disk t = disk s"
  using assms by (cases s; cases t; simp add: only_procs_def)+

function vdisk_intr_loop :: "('a) vdisk_scheme \<Rightarrow> (unit, ('a) vdisk_scheme) outcome" where
  "vdisk_intr_loop s =
     (if vd_used_idx s \<noteq> used_idx s
      then let id = unat (used_ring s (unat (vd_used_idx s) mod NUM))
      in if info_status s id \<noteq> 0 then Panic ''virtio_disk_intr status''
      else deref (info_b s id) (\<lambda>b s.
        let s = upd_buf b (\<lambda>q. q\<lparr>b_disk := False\<rparr>) s
        in obind (wakeup (Some (ChBuf b)) s) (\<lambda>_ s.
           vdisk_intr_loop (s\<lparr>vd_used_idx := vd_used_idx s + 1\<rparr>))) s
      else Done () s)"
  by pat_completeness auto
termination
proof (relation "measure (\<lambda>s. unat (used_idx s - vd_used_idx s))", goal_cases)
  case (2 s i b s' x t)
  from only_procs_vdisk [OF only_procs_wakeup [OF 2(6)]] 2(5)
  have "used_idx t = used_idx s" "vd_used_idx t = vd_used_idx s" by (simp_all add: upd_buf_def)
  moreover have "unat (d - 1) < unat d" if "d \<noteq> 0" for d :: uint16
    using that unat_gt_0 [of d] by (simp add: unat_minus_one)
  from this [of "used_idx s - vd_used_idx s"] 2(1)
  have "unat (used_idx s - (vd_used_idx s + 1)) < unat (used_idx s - vd_used_idx s)"
    by (simp add: algebra_simps)
  ultimately show ?case by simp
qed simp

declare vdisk_intr_loop.simps [simp del]

definition virtio_disk_intr :: "('a) vdisk_scheme \<Rightarrow> (unit, ('a) vdisk_scheme) outcome" where
  "virtio_disk_intr s =
     obind (acquire VdiskLock s) (\<lambda>_ s.
     let s = mmio_write 0x064 (mmio_in s 0x060 AND 3) s
     in obind (vdisk_intr_loop s) (\<lambda>_ s. release VdiskLock s))"

end
