(* ===== verification/Log.thy ===== *)
theory Log
  imports Virtio
begin

text \<open>
  The write-ahead log (\<open>kernel/log.c\<close>) and the structure of the super block (\<open>kernel/fs.h\<close>).
  System calls bracket their writes by \<open>begin_op\<close> and \<open>end_op\<close>; \<open>log_write\<close> records a block; the last
  \<open>end_op\<close> commits: copy the blocks to the log, write the header, install the blocks, clear the header.
\<close>

section \<open>State\<close>

record superblock =
  sb_magic :: uint32
  sb_size :: uint32
  sb_nblocks :: uint32
  sb_ninodes :: uint32
  sb_nlog :: uint32
  sb_logstart :: uint32
  sb_inodestart :: uint32
  sb_bmapstart :: uint32

record logst = vdisk +
  log_start :: uint32
  log_size :: int
  log_outstanding :: int
  log_committing :: bool
  log_dev :: uint32
  lh_n :: int
  lh_block :: "nat \<Rightarrow> uint32"

text \<open>The count and the block numbers of a header block.\<close>

definition head_n :: "uint8 list \<Rightarrow> int" where
  "head_n data = sint (get_le 4 0 data :: uint32)"

definition head_block :: "nat \<Rightarrow> uint8 list \<Rightarrow> uint32" where
  "head_block i data = get_le 4 (4 + 4 * i) data"

definition put_head :: "int \<Rightarrow> (nat \<Rightarrow> uint32) \<Rightarrow> uint8 list \<Rightarrow> uint8 list" where
  "put_head n blk data =
     fold (\<lambda>i d. splice (4 + 4 * i) (le_bytes 4 (blk i)) d) [0..<nat n]
       (splice 0 (le_bytes 4 (word_of_int n :: uint32)) data)"

section \<open>The log on disk\<close>

text \<open>The bodies of the loops over the blocks of the transaction are definitions of their own.\<close>

definition install_block :: "bool \<Rightarrow> nat \<Rightarrow> ('a) logst_scheme \<Rightarrow> (unit, ('a) logst_scheme) outcome" where
  "install_block recovering tail s =
     obind (bread (log_dev s) (log_start s + of_nat tail + 1) s) (\<lambda>lbuf s.
     obind (bread (log_dev s) (lh_block s tail) s) (\<lambda>dbuf s.
     let s = upd_buf dbuf (\<lambda>q. q\<lparr>b_data := b_data (bufs s lbuf)\<rparr>) s
     in obind (bwrite dbuf s) (\<lambda>_ s.
        obind (if \<not> recovering then bunpin dbuf s else Done () s) (\<lambda>_ s.
        obind (brelse lbuf s) (\<lambda>_ s.
        brelse dbuf s)))))"

definition install_trans :: "bool \<Rightarrow> ('a) logst_scheme \<Rightarrow> (unit, ('a) logst_scheme) outcome" where
  "install_trans recovering s = ofor [0..<nat (lh_n s)] (install_block recovering) s"

definition read_head :: "('a) logst_scheme \<Rightarrow> (unit, ('a) logst_scheme) outcome" where
  "read_head s =
     obind (bread (log_dev s) (log_start s) s) (\<lambda>buf s.
     let data = b_data (bufs s buf);
         s = s\<lparr>lh_n := head_n data\<rparr>;
         s = s\<lparr>lh_block := (\<lambda>i. if int i < lh_n s then head_block i data else lh_block s i)\<rparr>
     in brelse buf s)"

definition write_head :: "('a) logst_scheme \<Rightarrow> (unit, ('a) logst_scheme) outcome" where
  "write_head s =
     obind (bread (log_dev s) (log_start s) s) (\<lambda>buf s.
     let s = upd_buf buf (\<lambda>q. q\<lparr>b_data := put_head (lh_n s) (lh_block s) (b_data q)\<rparr>) s
     in obind (bwrite buf s) (\<lambda>_ s.
        brelse buf s))"

definition recover_from_log :: "('a) logst_scheme \<Rightarrow> (unit, ('a) logst_scheme) outcome" where
  "recover_from_log s =
     obind (read_head s) (\<lambda>_ s.
     obind (install_trans True s) (\<lambda>_ s.
     let s = s\<lparr>lh_n := 0\<rparr>
     in write_head s))"

text \<open>\<open>sizeof(struct logheader)\<close> is 124.\<close>

definition initlog :: "uint32 \<Rightarrow> superblock \<Rightarrow> ('a) logst_scheme \<Rightarrow> (unit, ('a) logst_scheme) outcome" where
  "initlog dev sb s =
     (if 4 + 4 * LOGSIZE \<ge> BSIZE then Panic ''initlog: too big logheader''
      else obind (initlock LogLock ''log'' s) (\<lambda>_ s.
           let s = s\<lparr>log_start := sb_logstart sb, log_size := sint (sb_nlog sb), log_dev := dev\<rparr>
           in recover_from_log s))"

definition write_log_block :: "nat \<Rightarrow> ('a) logst_scheme \<Rightarrow> (unit, ('a) logst_scheme) outcome" where
  "write_log_block tail s =
     obind (bread (log_dev s) (log_start s + of_nat tail + 1) s) (\<lambda>to s.
     obind (bread (log_dev s) (lh_block s tail) s) (\<lambda>from s.
     let s = upd_buf to (\<lambda>q. q\<lparr>b_data := b_data (bufs s from)\<rparr>) s
     in obind (bwrite to s) (\<lambda>_ s.
        obind (brelse from s) (\<lambda>_ s.
        brelse to s))))"

definition write_log :: "('a) logst_scheme \<Rightarrow> (unit, ('a) logst_scheme) outcome" where
  "write_log s = ofor [0..<nat (lh_n s)] write_log_block s"

definition commit :: "('a) logst_scheme \<Rightarrow> (unit, ('a) logst_scheme) outcome" where
  "commit s =
     (if lh_n s > 0
      then obind (write_log s) (\<lambda>_ s.
           obind (write_head s) (\<lambda>_ s.
           obind (install_trans False s) (\<lambda>_ s.
           let s = s\<lparr>lh_n := 0\<rparr>
           in write_head s)))
      else Done () s)"

section \<open>Transactions\<close>

function begin_op_loop :: "('a) logst_scheme \<Rightarrow> (unit, ('a) logst_scheme) outcome" where
  "begin_op_loop s =
     (if log_committing s
      then obind (sleep ChLog LogLock s) (\<lambda>_ s. begin_op_loop s)
      else if lh_n s + (log_outstanding s + 1) * int MAXOPBLOCKS > int LOGSIZE
      then obind (sleep ChLog LogLock s) (\<lambda>_ s. begin_op_loop s)
      else let s = s\<lparr>log_outstanding := log_outstanding s + 1\<rparr>
           in release LogLock s)"
  by pat_completeness auto
termination by (relation "{}") simp_all

declare begin_op_loop.simps [simp del]

definition begin_op :: "('a) logst_scheme \<Rightarrow> (unit, ('a) logst_scheme) outcome" where
  "begin_op s = obind (acquire LogLock s) (\<lambda>_ s. begin_op_loop s)"

definition end_op :: "('a) logst_scheme \<Rightarrow> (unit, ('a) logst_scheme) outcome" where
  "end_op s =
     obind (acquire LogLock s) (\<lambda>_ s.
     let s = s\<lparr>log_outstanding := log_outstanding s - 1\<rparr>
     in if log_committing s then Panic ''log.committing''
     else let do_commit = (log_outstanding s = 0)
     in obind (if do_commit then Done () (s\<lparr>log_committing := True\<rparr>)
               else wakeup (Some ChLog) s) (\<lambda>_ s.
        obind (release LogLock s) (\<lambda>_ s.
        if do_commit
        then obind (commit s) (\<lambda>_ s.
             obind (acquire LogLock s) (\<lambda>_ s.
             let s = s\<lparr>log_committing := False\<rparr>
             in obind (wakeup (Some ChLog) s) (\<lambda>_ s.
                release LogLock s)))
        else Done () s)))"

text \<open>\<open>for (i = 0; i < log.lh.n; i++) if (log.lh.block[i] == b->blockno) break;\<close>\<close>

definition log_slot :: "nat \<Rightarrow> (nat \<Rightarrow> uint32) \<Rightarrow> uint32 \<Rightarrow> nat" where
  "log_slot n blk bno = (case find (\<lambda>i. blk i = bno) [0..<n] of Some i \<Rightarrow> i | None \<Rightarrow> n)"

definition log_write :: "nat \<Rightarrow> ('a) logst_scheme \<Rightarrow> (unit, ('a) logst_scheme) outcome" where
  "log_write b s =
     obind (acquire LogLock s) (\<lambda>_ s.
     if lh_n s \<ge> int LOGSIZE \<or> lh_n s \<ge> log_size s - 1 then Panic ''too big a transaction''
     else if log_outstanding s < 1 then Panic ''log_write outside of trans''
     else let bno = b_blockno (bufs s b);
              i = log_slot (nat (lh_n s)) (lh_block s) bno;
              s = s\<lparr>lh_block := (lh_block s)(i := bno)\<rparr>
     in obind (if int i = lh_n s
               then obind (bpin b s) (\<lambda>_ s. Done () (s\<lparr>lh_n := lh_n s + 1\<rparr>))
               else Done () s) (\<lambda>_ s.
        release LogLock s))"

end
