(* ===== verification/Log_View.thy ===== *)
theory Log_View
  imports Log
begin

text \<open>
  What the log on disk stands for (\<open>kernel/log.c\<close>). \<open>log_view st D\<close> is the disk \<open>D\<close> with the blocks that
  a committed header lists replaced by their copies in the log: what recovery would install. The
  lemmas follow that view through the block writes of a commit, one at a time.
\<close>

section \<open>Block writes\<close>

definition writes :: "(uint32 \<times> uint8 list) list \<Rightarrow> (uint32 \<Rightarrow> uint8 list) \<Rightarrow> uint32 \<Rightarrow> uint8 list" where
  "writes ws D = fold (\<lambda>(n, x) D. D(n := x)) ws D"

lemma writes_Nil [simp]: "writes [] D = D"
  and writes_append: "writes (vs @ ws) D = writes ws (writes vs D)"
  by (simp_all add: writes_def)

lemma writes_Cons [simp]: "writes ((n, x) # ws) D = writes ws (D(n := x))"
  by (simp add: writes_def)

lemma writes_snoc [simp]: "writes (ws @ [(n, x)]) D = (writes ws D)(n := x)"
  by (simp add: writes_def)

lemma writes_other [simp]: "x \<notin> fst ` set ws \<Longrightarrow> writes ws D x = D x"
  by (induction ws rule: rev_induct) (auto simp: writes_def)

lemma writes_map_other: "(\<And>j. j \<in> set js \<Longrightarrow> f j \<noteq> x) \<Longrightarrow> writes (map (\<lambda>j. (f j, g j)) js) D x = D x"
  by (rule writes_other) force

lemma writes_map_same:
  assumes "\<And>j. j < n \<Longrightarrow> f j = f i \<Longrightarrow> g j = g i" and "i < n"
  shows "writes (map (\<lambda>j. (f j, g j)) [0..<n]) D (f i) = g i"
  using assms
proof (induction n)
  case (Suc n)
  show ?case
  proof (cases "f n = f i")
    case True
    with Suc.prems(1) [of n] show ?thesis by simp
  next
    case False
    with Suc.prems(2) have "i < n" by (auto simp: less_Suc_eq)
    then have "writes (map (\<lambda>j. (f j, g j)) [0..<n]) D (f i) = g i"
      by (intro Suc.IH) (blast intro: Suc.prems(1) less_SucI)+
    with False show ?thesis by simp
  qed
qed simp

text \<open>Writing what is there changes nothing.\<close>

lemma writes_idem: "(\<And>n x. (n, x) \<in> set ws \<Longrightarrow> D n = x) \<Longrightarrow> writes ws D = D"
  by (induction ws rule: rev_induct) (auto simp: writes_def)

section \<open>The area of the log\<close>

definition in_log :: "uint32 \<Rightarrow> uint32 \<Rightarrow> bool" where
  "in_log st x \<longleftrightarrow> unat (x - st) < LOGSIZE"

definition log_copy :: "uint32 \<Rightarrow> nat \<Rightarrow> uint32" where
  "log_copy st i = st + of_nat i + 1"

lemma in_log_start [simp]: "in_log st st"
  by (simp add: in_log_def)

lemma unat_log_copy:
  assumes "i < 29"
  shows "unat (log_copy st i - st) = Suc i"
proof -
  have "log_copy st i - st = of_nat i + 1" by (simp add: log_copy_def)
  then show ?thesis using assms by (simp add: unat_word_ariths unat_of_nat)
qed

lemma in_log_copy [simp]: "i < 29 \<Longrightarrow> in_log st (log_copy st i)"
  by (simp add: in_log_def unat_log_copy)

lemma log_copy_inj [simp]:
  assumes "i < 29" and "j < 29"
  shows "log_copy st i = log_copy st j \<longleftrightarrow> i = j"
proof
  assume "log_copy st i = log_copy st j"
  then have "unat (log_copy st i - st) = unat (log_copy st j - st)" by simp
  then show "i = j" unfolding unat_log_copy [OF assms(1)] unat_log_copy [OF assms(2)] by simp
qed simp

lemma log_copy_ne_start [simp]: "i < 29 \<Longrightarrow> log_copy st i \<noteq> st"
  using unat_log_copy [of i st] by (cases "log_copy st i = st") simp_all

lemma not_in_log:
  assumes "\<not> in_log st x"
  shows "st \<noteq> x" and "i < 29 \<Longrightarrow> log_copy st i \<noteq> x"
  using assms by auto

section \<open>The header block\<close>

lemma put_head_fold:
  assumes "4 + 4 * n \<le> length d"
  shows "length (fold (\<lambda>i d. splice (4 + 4 * i) (le_bytes 4 (blk i :: uint32)) d) [0..<n] d) = length d"
    and "get_le 4 0 (fold (\<lambda>i d. splice (4 + 4 * i) (le_bytes 4 (blk i)) d) [0..<n] d) = (get_le 4 0 d :: uint32)"
    and "i < n \<Longrightarrow> get_le 4 (4 + 4 * i) (fold (\<lambda>i d. splice (4 + 4 * i) (le_bytes 4 (blk i)) d) [0..<n] d) = blk i"
  using assms
proof (induction n)
  case (Suc n)
  { case 1
    with Suc.IH(1) show ?case by simp
  next
    case 2
    with Suc.IH(1,2) show ?case by (simp add: get_le_splice_other)
  next
    case 3
    with Suc.IH(1,3) show ?case by (cases "i = n") (simp_all add: get_le_splice_other get_le_splice_same)
  }
qed simp_all

lemma length_put_head [simp]: "4 + 4 * nat n \<le> length d \<Longrightarrow> length (put_head n blk d) = length d"
  by (simp add: put_head_def put_head_fold)

lemma head_put_head:
  assumes "0 \<le> n" and "n < 2 ^ 31" and "4 + 4 * nat n \<le> length d"
  shows "head_n (put_head n blk d) = n" and "i < nat n \<Longrightarrow> head_block i (put_head n blk d) = blk i"
proof -
  have "sint (word_of_int n :: uint32) = n" using assms(1,2) by (simp add: sint_sbintrunc' signed_take_bit_int_eq_self)
  then show "head_n (put_head n blk d) = n"
    using assms(3) by (simp add: head_n_def put_head_def put_head_fold get_le_splice_same)
  show "i < nat n \<Longrightarrow> head_block i (put_head n blk d) = blk i"
    using assms(3) by (simp add: head_block_def put_head_def put_head_fold)
qed

section \<open>What the log stands for\<close>

definition log_view :: "uint32 \<Rightarrow> (uint32 \<Rightarrow> uint8 list) \<Rightarrow> uint32 \<Rightarrow> uint8 list" where
  "log_view st D = writes (map (\<lambda>i. (head_block i (D st), D (log_copy st i))) [0..<nat (head_n (D st))]) D"

text \<open>A header that recovery can follow: it fits the log, and lists distinct blocks outside of it.\<close>

definition log_sound :: "uint32 \<Rightarrow> (uint32 \<Rightarrow> uint8 list) \<Rightarrow> bool" where
  "log_sound st D \<longleftrightarrow> length (D st) = BSIZE \<and> 0 \<le> head_n (D st) \<and> head_n (D st) < 30 \<and>
     (\<forall>i < nat (head_n (D st)). \<not> in_log st (head_block i (D st)) \<and>
       (\<forall>j < nat (head_n (D st)). head_block i (D st) = head_block j (D st) \<longrightarrow> i = j))"

definition same_off_log :: "uint32 \<Rightarrow> (uint32 \<Rightarrow> uint8 list) \<Rightarrow> (uint32 \<Rightarrow> uint8 list) \<Rightarrow> bool" where
  "same_off_log st D E \<longleftrightarrow> (\<forall>x. \<not> in_log st x \<longrightarrow> D x = E x)"

lemma log_view_empty: "head_n (D st) = 0 \<Longrightarrow> log_view st D = D"
  by (simp add: log_view_def)

text \<open>With the header and the copies in place, the view does not depend on the listed blocks.\<close>

lemma log_view_at:
  assumes "log_sound st D" and "i < nat (head_n (D st))"
  shows "log_view st D (head_block i (D st)) = D (log_copy st i)"
  unfolding log_view_def
  by (rule writes_map_same [where f = "\<lambda>i. head_block i (D st)"]) (use assms in \<open>auto simp: log_sound_def\<close>)

lemma log_view_off:
  assumes "\<And>i. i < nat (head_n (D st)) \<Longrightarrow> head_block i (D st) \<noteq> x"
  shows "log_view st D x = D x"
  unfolding log_view_def by (rule writes_map_other) (simp add: assms)

lemma log_view_cong:
  assumes "log_sound st D" and "D' st = D st" and "\<And>i. i < nat (head_n (D st)) \<Longrightarrow> D' (log_copy st i) = D (log_copy st i)"
    and "\<And>x. \<not> in_log st x \<Longrightarrow> D' x = D x \<or> (\<exists>i < nat (head_n (D st)). x = head_block i (D st))"
  shows "log_sound st D' \<and> same_off_log st (log_view st D') (log_view st D)"
proof
  show s: "log_sound st D'" using assms(1,2) by (simp add: log_sound_def)
  show "same_off_log st (log_view st D') (log_view st D)"
    unfolding same_off_log_def
  proof (intro allI impI)
    fix x assume x: "\<not> in_log st x"
    show "log_view st D' x = log_view st D x"
    proof (cases "\<exists>i < nat (head_n (D st)). x = head_block i (D st)")
      case True
      then obtain i where i: "i < nat (head_n (D st))" "x = head_block i (D st)" by blast
      with log_view_at [OF assms(1) i(1)] log_view_at [OF s, of i] assms(2,3) show ?thesis by simp
    next
      case False
      with assms(4) [OF x] have "D' x = D x" by blast
      moreover have "log_view st D x = D x" using False by (intro log_view_off) blast
      moreover have "log_view st D' x = D' x" using False by (intro log_view_off) (auto simp: assms(2))
      ultimately show ?thesis by simp
    qed
  qed
qed

section \<open>The writes of a commit\<close>

text \<open>
  A transaction lists \<open>n\<close> blocks \<open>blk\<close> whose new contents are in \<open>C\<close>; \<open>h\<close> is the old header block.
  The commit copies the blocks to the log, writes the header, installs the blocks and clears the header.
\<close>

definition txn :: "uint32 \<Rightarrow> nat \<Rightarrow> (nat \<Rightarrow> uint32) \<Rightarrow> bool" where
  "txn st n blk \<longleftrightarrow> n < 30 \<and> (\<forall>i < n. \<not> in_log st (blk i) \<and> (\<forall>j < n. blk i = blk j \<longrightarrow> i = j))"

definition copy_writes :: "uint32 \<Rightarrow> nat \<Rightarrow> (nat \<Rightarrow> uint32) \<Rightarrow> (uint32 \<Rightarrow> uint8 list) \<Rightarrow> (uint32 \<times> uint8 list) list" where
  "copy_writes st n blk C = map (\<lambda>i. (log_copy st i, C (blk i))) [0..<n]"

definition home_writes :: "nat \<Rightarrow> (nat \<Rightarrow> uint32) \<Rightarrow> (nat \<Rightarrow> uint8 list) \<Rightarrow> (uint32 \<times> uint8 list) list" where
  "home_writes n blk f = map (\<lambda>i. (blk i, f i)) [0..<n]"

definition commit_writes :: "uint32 \<Rightarrow> nat \<Rightarrow> (nat \<Rightarrow> uint32) \<Rightarrow> (uint32 \<Rightarrow> uint8 list) \<Rightarrow> uint8 list \<Rightarrow> (uint32 \<times> uint8 list) list" where
  "commit_writes st n blk C h = copy_writes st n blk C @ [(st, put_head (int n) blk h)] @
     home_writes n blk (\<lambda>i. C (blk i)) @ [(st, put_head 0 blk (put_head (int n) blk h))]"

lemma length_writes [simp]:
  "length (copy_writes st n blk C) = n" "length (home_writes n blk f) = n"
  "length (commit_writes st n blk C h) = 2 * n + 2"
  by (simp_all add: copy_writes_def home_writes_def commit_writes_def)

lemma take_writes [simp]:
  "k \<le> n \<Longrightarrow> take k (copy_writes st n blk C) = copy_writes st k blk C"
  "k \<le> n \<Longrightarrow> take k (home_writes n blk f) = home_writes k blk f"
  by (simp_all add: copy_writes_def home_writes_def take_map)

lemma copy_writes_at [simp]:
  assumes "n < 30" and "i < n"
  shows "writes (copy_writes st n blk C) D (log_copy st i) = C (blk i)"
  unfolding copy_writes_def by (rule writes_map_same [where f = "log_copy st"]) (use assms in auto)

lemma copy_writes_off [simp]:
  assumes "n < 30"
  shows "\<not> in_log st x \<Longrightarrow> writes (copy_writes st n blk C) D x = D x"
    and "writes (copy_writes st n blk C) D st = D st"
  unfolding copy_writes_def by (rule writes_map_other; use assms in \<open>auto dest: in_log_copy\<close>)+

lemma home_writes_at [simp]:
  assumes "\<And>j. j < n \<Longrightarrow> blk i = blk j \<Longrightarrow> f i = f j" and "i < n"
  shows "writes (home_writes n blk f) D (blk i) = f i"
  unfolding home_writes_def by (rule writes_map_same [where f = blk]) (use assms in metis)+

lemma home_writes_off [simp]:
  assumes "\<And>i. i < n \<Longrightarrow> blk i \<noteq> x"
  shows "writes (home_writes n blk f) D x = D x"
  unfolding home_writes_def by (rule writes_map_other) (use assms in auto)

text \<open>The disk when the header has been written: the transaction has happened.\<close>

lemma logged_view:
  assumes "log_sound st D" and "txn st n blk" and "E = (writes (copy_writes st n blk C) D)(st := put_head (int n) blk (D st))"
    and "\<forall>x. \<not> in_log st x \<and> (\<forall>i < n. x \<noteq> blk i) \<longrightarrow> C x = D x"
  shows "head_n (E st) = int n" and "i < n \<Longrightarrow> head_block i (E st) = blk i" and "log_sound st E" and "same_off_log st (log_view st E) C"
    and "i < n \<Longrightarrow> E (log_copy st i) = C (blk i)"
proof -
  have n: "n < 30" and b: "\<And>i. i < n \<Longrightarrow> \<not> in_log st (blk i)" and inj: "\<And>i j. i < n \<Longrightarrow> j < n \<Longrightarrow> blk i = blk j \<Longrightarrow> i = j"
    using assms(2) by (auto simp: txn_def)
  have l: "length (D st) = 1024" using assms(1) by (simp add: log_sound_def)
  have h: "head_n (put_head (int n) blk (D st)) = int n" "\<And>i. i < n \<Longrightarrow> head_block i (put_head (int n) blk (D st)) = blk i"
    using head_put_head [of "int n" "D st"] n l by simp_all
  then show e: "head_n (E st) = int n" "\<And>i. i < n \<Longrightarrow> head_block i (E st) = blk i" by (simp_all add: assms(3))
  show c: "\<And>i. i < n \<Longrightarrow> E (log_copy st i) = C (blk i)" using n by (simp add: assms(3))
  show s: "log_sound st E"
    using n l b inj by (auto simp: log_sound_def e) (simp add: assms(3))
  show "same_off_log st (log_view st E) C"
    unfolding same_off_log_def
  proof (intro allI impI)
    fix x assume x: "\<not> in_log st x"
    show "log_view st E x = C x"
    proof (cases "\<exists>i < n. x = blk i")
      case True
      then obtain i where "i < n" "x = blk i" by blast
      with log_view_at [OF s, of i] e c show ?thesis by simp
    next
      case False
      then have "log_view st E x = E x" by (intro log_view_off) (auto simp: e)
      also have "E x = D x" using x n by (auto simp: assms(3))
      finally show ?thesis using assms(4) x False by auto
    qed
  qed
qed

text \<open>Installing the blocks of a written header, and clearing the header afterwards, keep the view.\<close>

definition install_writes :: "uint32 \<Rightarrow> nat \<Rightarrow> (uint32 \<Rightarrow> uint8 list) \<Rightarrow> (uint32 \<times> uint8 list) list" where
  "install_writes st n E = home_writes n (\<lambda>i. head_block i (E st)) (\<lambda>i. E (log_copy st i))"

lemma log_soundD:
  assumes "log_sound st E" and "i < nat (head_n (E st))"
  shows "\<not> in_log st (head_block i (E st))" and "head_block i (E st) \<noteq> st" and "j < 29 \<Longrightarrow> log_copy st j \<noteq> head_block i (E st)"
    and "i < 29" and "j < nat (head_n (E st)) \<Longrightarrow> head_block i (E st) = head_block j (E st) \<Longrightarrow> i = j"
proof -
  show h: "\<not> in_log st (head_block i (E st))" and "i < 29"
    and "j < nat (head_n (E st)) \<Longrightarrow> head_block i (E st) = head_block j (E st) \<Longrightarrow> i = j"
    using assms by (auto simp: log_sound_def)
  show "head_block i (E st) \<noteq> st" "j < 29 \<Longrightarrow> log_copy st j \<noteq> head_block i (E st)" using not_in_log [OF h] by auto
qed

lemma install_prefix:
  assumes "log_sound st E" and "m \<le> nat (head_n (E st))"
  defines "D' \<equiv> writes (install_writes st m E) E"
  shows "log_sound st D' \<and> same_off_log st (log_view st D') (log_view st E)"
    and "D' st = E st" and "i < nat (head_n (E st)) \<Longrightarrow> D' (log_copy st i) = E (log_copy st i)"
proof -
  note s = log_soundD [OF assms(1)]
  have off: "D' x = E x" if "\<And>i. i < nat (head_n (E st)) \<Longrightarrow> x \<noteq> head_block i (E st)" for x
    unfolding D'_def install_writes_def using assms(2) that by (intro home_writes_off) (metis less_le_trans)
  show st: "D' st = E st" using s(2) by (intro off) metis
  show c: "D' (log_copy st i) = E (log_copy st i)" if "i < nat (head_n (E st))" for i
    using s(3,4) that by (intro off) blast
  show "log_sound st D' \<and> same_off_log st (log_view st D') (log_view st E)"
    using off by (intro log_view_cong [OF assms(1) st c]) blast+
qed

lemma install_done:
  assumes "log_sound st E" and "n = nat (head_n (E st))"
    and D'_def: "D' = (writes (install_writes st n E) E)(st := put_head 0 blk (E st))"
  shows "log_sound st D'" and "head_n (D' st) = 0" and "same_off_log st D' (log_view st E)"
proof -
  have l: "length (E st) = 1024" using assms(1) by (simp add: log_sound_def)
  then show h: "head_n (D' st) = 0" using head_put_head(1) [of 0 "E st" blk] by (simp add: D'_def)
  with l show "log_sound st D'" by (simp add: log_sound_def D'_def)
  have "writes (install_writes st n E) E = log_view st E"
    by (simp add: install_writes_def log_view_def home_writes_def assms(2))
  then show "same_off_log st D' (log_view st E)" by (auto simp: same_off_log_def D'_def)
qed

lemma same_off_log_trans: "same_off_log st D E \<Longrightarrow> same_off_log st E F \<Longrightarrow> same_off_log st D F"
  by (simp add: same_off_log_def)

text \<open>A commit that stops after \<open>k\<close> of its writes.\<close>

lemma commit_prefix:
  assumes "log_sound st D" and "head_n (D st) = 0" and "txn st n blk" and "k \<le> 2 * n + 2"
    and "\<forall>x. \<not> in_log st x \<and> (\<forall>i < n. x \<noteq> blk i) \<longrightarrow> C x = D x"
  defines "D' \<equiv> writes (take k (commit_writes st n blk C (D st))) D"
  shows "log_sound st D' \<and> same_off_log st (log_view st D') (if k \<le> n then D else C)"
proof -
  have n: "n < 30" using assms(3) by (simp add: txn_def)
  define E where "E = (writes (copy_writes st n blk C) D)(st := put_head (int n) blk (D st))"
  note e = logged_view [OF assms(1,3) E_def assms(5)]
  have i: "home_writes m blk (\<lambda>i. C (blk i)) = install_writes st m E" if "m \<le> n" for m
    using that by (simp add: install_writes_def home_writes_def e(2,5))
  have "k \<le> n \<or> (\<exists>m. k = n + 1 + m \<and> m \<le> n) \<or> k = 2 * n + 2" using assms(4) by presburger
  then consider "k \<le> n" | m where "k = n + 1 + m" "m \<le> n" | "k = 2 * n + 2"
    by blast
  then show ?thesis
  proof cases
    case 1
    then have "D' = writes (copy_writes st k blk C) D" by (simp add: D'_def commit_writes_def)
    with 1 n assms(2) have "log_sound st D' \<and> same_off_log st (log_view st D') (log_view st D)"
      by (intro log_view_cong [OF assms(1)]) simp_all
    with 1 assms(2) show ?thesis by (simp add: log_view_empty)
  next
    case 2
    then have "D' = writes (home_writes m blk (\<lambda>i. C (blk i))) E"
      by (simp add: D'_def commit_writes_def writes_append E_def)
    then have "D' = writes (install_writes st m E) E" by (simp add: i 2(2))
    with 2 install_prefix(1) [OF e(3), of m] e(1,4) show ?thesis by (auto intro: same_off_log_trans)
  next
    case 3
    then have "D' = (writes (home_writes n blk (\<lambda>i. C (blk i))) E)(st := put_head 0 blk (E st))"
      by (simp add: D'_def commit_writes_def writes_append E_def)
    then have d: "D' = (writes (install_writes st n E) E)(st := put_head 0 blk (E st))" by (simp add: i)
    have "n = nat (head_n (E st))" by (simp add: e(1))
    note f = install_done [OF e(3) this d]
    with 3 same_off_log_trans [OF f(3) e(4)] show ?thesis by (simp add: log_view_empty)
  qed
qed

end
