(* ===== verification/Bio_List.thy ===== *)
theory Bio_List
  imports Bio
begin

text \<open>
  The doubly linked list of buffers: \<open>dll B bs\<close> says that from \<open>bcache.head\<close> the \<open>next\<close> pointers visit the
  buffers \<open>bs\<close> and the \<open>prev\<close> pointers visit them backwards. The searches of \<open>bget\<close> are then searches
  in that list, and moving a buffer to the front is a list operation.
\<close>

fun chain :: "(nat \<Rightarrow> buf) \<Rightarrow> nat \<Rightarrow> nat list \<Rightarrow> nat \<Rightarrow> bool" where
  "chain B x [] z \<longleftrightarrow> b_next (B x) = z \<and> b_prev (B z) = x"
| "chain B x (y # ys) z \<longleftrightarrow> b_next (B x) = y \<and> b_prev (B y) = x \<and> chain B y ys z"

definition dll :: "(nat \<Rightarrow> buf) \<Rightarrow> nat list \<Rightarrow> bool" where
  "dll B bs \<longleftrightarrow> distinct bs \<and> set bs = {..<NBUF} \<and> chain B bhead bs bhead"

lemma chain_append [simp]: "chain B x (ys @ y # zs) z \<longleftrightarrow> chain B x ys y \<and> chain B y zs z"
  by (induction ys arbitrary: x) auto

lemma chain_cong:
  assumes "\<And>q. q \<in> insert x (set ys) \<Longrightarrow> b_next (B' q) = b_next (B q)"
    and "\<And>q. q \<in> insert z (set ys) \<Longrightarrow> b_prev (B' q) = b_prev (B q)"
  shows "chain B' x ys z = chain B x ys z"
  using assms by (induction ys arbitrary: x) auto

lemma dll_cong:
  assumes "\<And>q. b_next (B' q) = b_next (B q)" and "\<And>q. b_prev (B' q) = b_prev (B q)"
  shows "dll B' bs = dll B bs"
  using chain_cong [of bhead bs B' B bhead] assms by (simp add: dll_def)

lemma length_dll: "dll B bs \<Longrightarrow> length bs = NBUF"
  using distinct_card [of bs] by (simp add: dll_def)

lemma dll_ne_head: "dll B bs \<Longrightarrow> bhead \<notin> set bs"
  by (simp add: dll_def)

section \<open>Searching\<close>

lemma bget_cached_chain:
  assumes "chain B x ys bhead" and "bhead \<notin> set ys" and "length ys < n"
  shows "bget_cached n (b_next (B x)) dev blockno B = Some (find (\<lambda>b. b_dev (B b) = dev \<and> b_blockno (B b) = blockno) ys)"
  using assms
proof (induction ys arbitrary: x n)
  case Nil
  then show ?case by (cases n) auto
next
  case (Cons y ys)
  then show ?case by (cases n) auto
qed

lemma bget_unused_chain:
  assumes "chain B bhead ys z" and "bhead \<notin> set ys" and "length ys < n"
  shows "bget_unused n (b_prev (B z)) B = Some (find (\<lambda>b. b_refcnt (B b) = 0) (rev ys))"
  using assms
proof (induction ys arbitrary: z n rule: rev_induct)
  case Nil
  then show ?case by (cases n) auto
next
  case (snoc y ys)
  then show ?case by (cases n) auto
qed

lemma bget_cached_dll:
  assumes "dll B bs"
  shows "bget_cached (Suc NBUF) (b_next (B bhead)) dev blockno B =
    Some (find (\<lambda>b. b_dev (B b) = dev \<and> b_blockno (B b) = blockno) bs)"
  using assms length_dll [OF assms] dll_ne_head [OF assms]
  by (intro bget_cached_chain) (simp_all add: dll_def)

lemma bget_unused_dll:
  assumes "dll B bs"
  shows "bget_unused (Suc NBUF) (b_prev (B bhead)) B = Some (find (\<lambda>b. b_refcnt (B b) = 0) (rev bs))"
  using assms length_dll [OF assms] dll_ne_head [OF assms]
  by (intro bget_unused_chain) (simp_all add: dll_def)

section \<open>Moving to the front\<close>

lemma blist_other [simp]:
  "b_dev (blist_push b B q) = b_dev (B q)" "b_blockno (blist_push b B q) = b_blockno (B q)"
  "b_valid (blist_push b B q) = b_valid (B q)" "b_refcnt (blist_push b B q) = b_refcnt (B q)"
  "b_data (blist_push b B q) = b_data (B q)" "b_disk (blist_push b B q) = b_disk (B q)"
  "b_dev (blist_unlink b B q) = b_dev (B q)" "b_blockno (blist_unlink b B q) = b_blockno (B q)"
  "b_valid (blist_unlink b B q) = b_valid (B q)" "b_refcnt (blist_unlink b B q) = b_refcnt (B q)"
  "b_data (blist_unlink b B q) = b_data (B q)" "b_disk (blist_unlink b B q) = b_disk (B q)"
  by (simp_all add: blist_push_def blist_unlink_def Let_def)

lemma chain_ends:
  assumes "chain B x ys z"
  shows "b_next (B x) = hd (ys @ [z])" and "b_prev (B z) = last (x # ys)"
proof -
  show "b_next (B x) = hd (ys @ [z])" using assms by (cases ys) auto
  show "b_prev (B z) = last (x # ys)" using assms by (cases ys rule: rev_cases) auto
qed

lemma blist_push_chain:
  assumes "chain B bhead zs bhead" and "b \<notin> set zs" and "b \<noteq> bhead" and "distinct zs" and "bhead \<notin> set zs"
  shows "chain (blist_push b B) bhead (b # zs) bhead"
proof (cases zs)
  case Nil
  with assms show ?thesis by (auto simp: blist_push_def Let_def)
next
  case (Cons n ys)
  have "chain (blist_push b B) n ys bhead = chain B n ys bhead"
    using assms Cons by (intro chain_cong) (auto simp: blist_push_def Let_def)
  with assms Cons show ?thesis by (auto simp: blist_push_def Let_def)
qed

lemma blist_unlink_chain:
  assumes "chain B bhead (xs @ b # ys) bhead" and "distinct (xs @ b # ys)" and "bhead \<notin> set (xs @ b # ys)"
  shows "chain (blist_unlink b B) bhead (xs @ ys) bhead"
proof -
  have l: "chain B bhead xs b" and r: "chain B b ys bhead" using assms(1) by simp_all
  note n = chain_ends(1) [OF r] and p = chain_ends(2) [OF l]
  show ?thesis
  proof (cases xs rule: rev_cases)
    case Nil
    with p have p: "b_prev (B b) = bhead" by simp
    show ?thesis
    proof (cases ys)
      case Nil
      with n p assms(3) \<open>xs = []\<close> show ?thesis by (simp add: blist_unlink_def Let_def)
    next
      case (Cons c zs)
      have "chain (blist_unlink b B) c zs bhead = chain B c zs bhead"
        using assms Cons n p by (intro chain_cong) (auto simp: blist_unlink_def Let_def)
      with r n p Cons \<open>xs = []\<close> assms show ?thesis by (auto simp: blist_unlink_def Let_def)
    qed
  next
    case (snoc ws a)
    with p have p: "b_prev (B b) = a" by simp
    have w: "chain (blist_unlink b B) bhead ws a = chain B bhead ws a"
      using assms snoc n p by (intro chain_cong) (cases ys; auto simp: blist_unlink_def Let_def)+
    show ?thesis
    proof (cases ys)
      case Nil
      with n p snoc w l assms show ?thesis by (auto simp: blist_unlink_def Let_def)
    next
      case (Cons c zs)
      have "chain (blist_unlink b B) c zs bhead = chain B c zs bhead"
        using assms Cons snoc n p by (intro chain_cong) (auto simp: blist_unlink_def Let_def)
      with r n p Cons snoc w l assms show ?thesis by (auto simp: blist_unlink_def Let_def)
    qed
  qed
qed

lemma dll_move_front:
  assumes "dll B bs" and "b < NBUF"
  shows "dll (blist_push b (blist_unlink b B)) (b # remove1 b bs)"
proof -
  have d: "distinct bs" "set bs = {..<NBUF}" "chain B bhead bs bhead" using assms(1) by (simp_all add: dll_def)
  then obtain xs ys where bs: "bs = xs @ b # ys" using assms(2) by (metis lessThan_iff split_list)
  then have r: "remove1 b bs = xs @ ys" using d(1) by (simp add: remove1_append)
  have "bhead \<notin> set bs" using assms(1) by (rule dll_ne_head)
  with d bs have "chain (blist_unlink b B) bhead (xs @ ys) bhead" by (intro blist_unlink_chain) simp_all
  moreover have "b \<notin> set (xs @ ys)" "b \<noteq> bhead" "distinct (xs @ ys)" "bhead \<notin> set (xs @ ys)"
    using d bs assms(2) \<open>bhead \<notin> set bs\<close> by auto
  ultimately have "chain (blist_push b (blist_unlink b B)) bhead (b # xs @ ys) bhead"
    by (rule blist_push_chain)
  moreover have "set (b # xs @ ys) = {..<NBUF}" using d(2) bs by auto
  ultimately show ?thesis using d bs r by (simp add: dll_def)
qed

end
