(* ===== verification/Bio_Cache.thy ===== *)
theory Bio_Cache
  imports Bio_List
begin

text \<open>
  The contract of the buffer cache by block number. \<open>cache dev s C R H D W\<close>: the cache of device \<open>dev\<close> is
  well-formed, \<open>C\<close> is the content of every block as seen through the cache, \<open>R\<close> the reference
  counts, \<open>H\<close> the blocks whose buffers are locked, \<open>D\<close> the disk and \<open>W\<close> the history of disk writes.
  \<open>holds dev s b n\<close>: the running process has locked buffer \<open>b\<close>, and it is the buffer of block \<open>n\<close>.
\<close>

section \<open>Frame lemmas\<close>

lemma bufs_acq [simp]:
  "bufs (acq l s) = bufs s" "disk (acq l s) = disk s" "disk_writes (acq l s) = disk_writes s"
  "bufs_update f (acq l s) = acq l (bufs_update f s)" "upd_buf b h (acq l s) = acq l (upd_buf b h s)"
  by (simp_all add: acq_def pushed_def mycpu_def intr_get_def upd_buf_def)

lemma bufs_settle [simp]:
  "bufs (settle s) = bufs s" "disk (settle s) = disk s" "disk_writes (settle s) = disk_writes s"
  "bufs_update f (settle s) = settle (bufs_update f s)" "upd_buf b h (settle s) = settle (upd_buf b h s)"
  "disk_update g (settle s) = settle (disk_update g s)"
  "disk_writes_update k (settle s) = settle (disk_writes_update k s)"
  by (simp_all add: settle_def mycpu_def intr_get_def upd_buf_def)

lemma bufs_machine [simp]:
  "hart_ok (bufs_update f s) = hart_ok s" "lock_free l (bufs_update f s) = lock_free l s"
  "hart_ok (disk_update g s) = hart_ok s" "lock_free l (disk_update g s) = lock_free l s"
  "hart_ok (disk_writes_update k s) = hart_ok s" "lock_free l (disk_writes_update k s) = lock_free l s"
  "hart_ok (upd_buf b h s) = hart_ok s" "lock_free l (upd_buf b h s) = lock_free l s"
  "mycpu (bufs_update f s) = mycpu s" "mycpu (upd_buf b h s) = mycpu s"
  "mycpu (disk_update g s) = mycpu s" "mycpu (disk_writes_update k s) = mycpu s"
  by (simp_all add: hart_ok_def lock_free_def mycpu_def intr_get_def upd_buf_def)

lemma upd_buf_fields [simp]:
  "bufs (upd_buf b h s) = (bufs s)(b := h (bufs s b))" "procs (upd_buf b h s) = procs s" "slks (upd_buf b h s) = slks s"
  "disk (upd_buf b h s) = disk s" "disk_writes (upd_buf b h s) = disk_writes s"
  "bufs (upd_slk l g s) = bufs s" "disk (upd_slk l g s) = disk s" "disk_writes (upd_slk l g s) = disk_writes s"
  "upd_buf b h (upd_slk l g s) = upd_slk l g (upd_buf b h s)"
  "upd_buf b h (upd_buf b k s) = upd_buf b (\<lambda>q. h (k q)) s"
  "upd_buf b h (s\<lparr>procs := P\<rparr>) = (upd_buf b h s)\<lparr>procs := P\<rparr>"
  by (simp_all add: upd_buf_def upd_slk_def)

text \<open>What cache operations may change.\<close>

definition cache_step :: "('a) bcache_scheme \<Rightarrow> ('a) bcache_scheme \<Rightarrow> bool" where
  "cache_step s t \<longleftrightarrow> (\<exists>P L B D W. settle t = settle (s\<lparr>procs := P, slks := L, bufs := B, disk := D, disk_writes := W\<rparr>) \<and>
     wakes (procs s) P)"

lemma cache_step_fields:
  assumes "settle t = settle (s\<lparr>procs := P, slks := L, bufs := B, disk := D, disk_writes := W\<rparr>)"
  shows "procs t = P" and "settle (t\<lparr>procs := P', slks := L', bufs := B', disk := D', disk_writes := W'\<rparr>) =
    settle (s\<lparr>procs := P', slks := L', bufs := B', disk := D', disk_writes := W'\<rparr>)"
proof -
  show "procs t = P" using arg_cong [OF assms, of procs] by simp
  show "settle (t\<lparr>procs := P', slks := L', bufs := B', disk := D', disk_writes := W'\<rparr>) =
    settle (s\<lparr>procs := P', slks := L', bufs := B', disk := D', disk_writes := W'\<rparr>)"
    using arg_cong [OF assms, of "\<lambda>u. u\<lparr>procs := P', slks := L', bufs := B', disk := D', disk_writes := W'\<rparr>"] by simp
qed

lemma cache_step_trans:
  assumes "cache_step s t" and "cache_step t u"
  shows "cache_step s u"
proof -
  obtain P L B D W where t: "settle t = settle (s\<lparr>procs := P, slks := L, bufs := B, disk := D, disk_writes := W\<rparr>)" "wakes (procs s) P"
    using assms(1) by (auto simp: cache_step_def)
  obtain P' L' B' D' W' where u: "settle u = settle (t\<lparr>procs := P', slks := L', bufs := B', disk := D', disk_writes := W'\<rparr>)" "wakes (procs t) P'"
    using assms(2) by (auto simp: cache_step_def)
  note f = cache_step_fields [OF t(1)]
  have "wakes (procs s) P'" using wakes_trans [OF t(2)] u(2) by (simp add: f(1))
  moreover have "settle u = settle (s\<lparr>procs := P', slks := L', bufs := B', disk := D', disk_writes := W'\<rparr>)"
    using u(1) f(2) by simp
  ultimately show ?thesis unfolding cache_step_def by blast
qed

lemma calm_upd [simp]:
  "calm (bufs_update f s) = calm s" "calm (disk_update g s) = calm s" "calm (disk_writes_update k s) = calm s"
  "calm (slks_update h s) = calm s" "calm (procs_update i s) = calm s" "calm (upd_buf b j s) = calm s"
  "calm (upd_slk l m s) = calm s"
  by (simp_all add: calm_def)

lemma cache_step_keeps:
  assumes "cache_step s t"
  shows "calm t = calm s" and "mypid t = mypid s" and "wakes (procs s) (procs t)"
    and "cpu_proc (mycpu t) = cpu_proc (mycpu s)"
proof -
  obtain P L B D W where t: "settle t = settle (s\<lparr>procs := P, slks := L, bufs := B, disk := D, disk_writes := W\<rparr>)" "wakes (procs s) P"
    using assms by (auto simp: cache_step_def)
  have c: "calm (settle t) = calm s" "cpu_proc (mycpu (settle t)) = cpu_proc (mycpu s)" by (simp_all add: t(1))
  then show "calm t = calm s" and p: "cpu_proc (mycpu t) = cpu_proc (mycpu s)" by simp_all
  show w: "wakes (procs s) (procs t)" using t(2) cache_step_fields(1) [OF t(1)] by simp
  show "mypid t = mypid s" by (simp add: mypid_def p wakes_keeps [OF w])
qed

section \<open>The invariant\<close>

definition bc_inv :: "uint32 \<Rightarrow> ('a) bcache_scheme \<Rightarrow> bool" where
  "bc_inv dev s \<longleftrightarrow> (\<exists>bs. dll (bufs s) bs) \<and>
     (\<forall>a < NBUF. \<forall>b < NBUF. b_dev (bufs s a) = dev \<and> b_dev (bufs s b) = dev \<and>
        b_blockno (bufs s a) = b_blockno (bufs s b) \<longrightarrow> a = b) \<and>
     (\<forall>b < NBUF. b_valid (bufs s b) \<longrightarrow> b_dev (bufs s b) = dev) \<and>
     (\<forall>b < NBUF. b_refcnt (bufs s b) = 0 \<longrightarrow> \<not> sl_locked (slks s (BufLk b)) \<and>
        (b_valid (bufs s b) \<longrightarrow> b_data (bufs s b) = disk s (b_blockno (bufs s b)))) \<and>
     (\<forall>b < NBUF. b_refcnt (bufs s b) \<noteq> 0 \<longrightarrow> b_valid (bufs s b))"

definition cached :: "uint32 \<Rightarrow> (nat \<Rightarrow> buf) \<Rightarrow> uint32 \<Rightarrow> nat option" where
  "cached dev B n = find (\<lambda>b. b_dev (B b) = dev \<and> b_blockno (B b) = n) [0..<NBUF]"

definition content :: "uint32 \<Rightarrow> ('a) bcache_scheme \<Rightarrow> uint32 \<Rightarrow> uint8 list" where
  "content dev s n = (case cached dev (bufs s) n of
     Some b \<Rightarrow> if b_valid (bufs s b) then b_data (bufs s b) else disk s n
   | None \<Rightarrow> disk s n)"

definition refs :: "uint32 \<Rightarrow> ('a) bcache_scheme \<Rightarrow> uint32 \<Rightarrow> uint32" where
  "refs dev s n = (case cached dev (bufs s) n of Some b \<Rightarrow> b_refcnt (bufs s b) | None \<Rightarrow> 0)"

definition held :: "uint32 \<Rightarrow> ('a) bcache_scheme \<Rightarrow> uint32 set" where
  "held dev s = {n. \<exists>b < NBUF. b_dev (bufs s b) = dev \<and> b_blockno (bufs s b) = n \<and> sl_locked (slks s (BufLk b))}"

definition cache :: "uint32 \<Rightarrow> ('a) bcache_scheme \<Rightarrow> (uint32 \<Rightarrow> uint8 list) \<Rightarrow> (uint32 \<Rightarrow> uint32) \<Rightarrow> uint32 set \<Rightarrow>
    (uint32 \<Rightarrow> uint8 list) \<Rightarrow> (uint32 \<times> uint8 list) list \<Rightarrow> bool" where
  "cache dev s C R H D W \<longleftrightarrow> calm s \<and> bc_inv dev s \<and> content dev s = C \<and> refs dev s = R \<and> held dev s = H \<and>
     disk s = D \<and> disk_writes s = W"

definition holds_buf :: "uint32 \<Rightarrow> ('a) bcache_scheme \<Rightarrow> nat \<Rightarrow> uint32 \<Rightarrow> bool" where
  "holds_buf dev s b n \<longleftrightarrow> b < NBUF \<and> b_dev (bufs s b) = dev \<and> b_blockno (bufs s b) = n \<and>
     sl_locked (slks s (BufLk b)) \<and> sl_pid (slks s (BufLk b)) = mypid s"

lemma bc_invD:
  assumes "bc_inv dev s" and "b < NBUF"
  shows "b_valid (bufs s b) \<Longrightarrow> b_dev (bufs s b) = dev"
    and "b_refcnt (bufs s b) = 0 \<Longrightarrow> \<not> sl_locked (slks s (BufLk b))"
    and "b_refcnt (bufs s b) = 0 \<Longrightarrow> b_valid (bufs s b) \<Longrightarrow> b_data (bufs s b) = disk s (b_blockno (bufs s b))"
    and "b_refcnt (bufs s b) \<noteq> 0 \<Longrightarrow> b_valid (bufs s b)"
  using assms unfolding bc_inv_def by blast+

lemma find_SomeD: "find P xs = Some x \<Longrightarrow> x \<in> set xs \<and> P x"
  by (induction xs) (auto split: if_splits)

lemma cached_Some:
  assumes "cached dev B n = Some b"
  shows "b < NBUF" and "b_dev (B b) = dev" and "b_blockno (B b) = n"
  using assms by (auto simp: cached_def find_Some_iff)

lemma cached_None: "cached dev B n = None \<longleftrightarrow> (\<forall>b < NBUF. b_dev (B b) = dev \<longrightarrow> b_blockno (B b) \<noteq> n)"
  by (auto simp: cached_def find_None_iff)

lemma cached_eq:
  assumes "\<forall>a < NBUF. \<forall>b < NBUF. b_dev (B a) = dev \<and> b_dev (B b) = dev \<and> b_blockno (B a) = b_blockno (B b) \<longrightarrow> a = b"
    and "b < NBUF" and "b_dev (B b) = dev" and "b_blockno (B b) = n"
  shows "cached dev B n = Some b"
proof (cases "cached dev B n")
  case None
  with assms show ?thesis by (auto simp: cached_None)
next
  case (Some a)
  note cached_Some [OF Some]
  with assms have "a = b" by blast
  with Some show ?thesis by simp
qed

lemma cached_inv:
  assumes "bc_inv dev s" and "b < NBUF" and "b_dev (bufs s b) = dev" and "b_blockno (bufs s b) = n"
  shows "cached dev (bufs s) n = Some b"
  using assms by (intro cached_eq) (simp_all add: bc_inv_def)

lemma content_buf:
  assumes "bc_inv dev s" and "holds_buf dev s b n"
  shows "b_data (bufs s b) = content dev s n" and "refs dev s n = b_refcnt (bufs s b)" and "b_refcnt (bufs s b) \<noteq> 0"
    and "n \<in> held dev s" and "b_valid (bufs s b)"
proof -
  have b: "b < NBUF" "b_dev (bufs s b) = dev" "b_blockno (bufs s b) = n" "sl_locked (slks s (BufLk b))"
    using assms(2) by (simp_all add: holds_buf_def)
  note c = cached_inv [OF assms(1) b(1-3)]
  show r: "b_refcnt (bufs s b) \<noteq> 0" using assms(1) b by (auto simp: bc_inv_def)
  then show v: "b_valid (bufs s b)" using assms(1) b by (simp add: bc_inv_def)
  with c show "b_data (bufs s b) = content dev s n" "refs dev s n = b_refcnt (bufs s b)" by (simp_all add: content_def refs_def)
  show "n \<in> held dev s" using b by (auto simp: held_def)
qed

lemma holds_buf_inj:
  assumes "bc_inv dev s" and "holds_buf dev s a n" and "holds_buf dev s b n"
  shows "a = b"
  using assms by (auto simp: bc_inv_def holds_buf_def)

text \<open>While fewer than \<open>NBUF\<close> blocks are referenced, there is an unused buffer.\<close>

lemma unused_buffer:
  assumes "bc_inv dev s" and "card {n. refs dev s n \<noteq> 0} < NBUF"
  shows "\<exists>b < NBUF. b_refcnt (bufs s b) = 0"
proof (rule ccontr)
  assume "\<not> ?thesis"
  then have all: "b_refcnt (bufs s b) \<noteq> 0" if "b < NBUF" for b using that by blast
  have v: "b_dev (bufs s b) = dev" if "b < NBUF" for b
    using assms(1) all [OF that] that by (simp add: bc_inv_def)
  have inj: "inj_on (\<lambda>b. b_blockno (bufs s b)) {..<NBUF}"
    using assms(1) v by (auto simp: bc_inv_def inj_on_def)
  have fin: "finite {n. refs dev s n \<noteq> 0}"
    by (rule finite_subset [of _ "(\<lambda>b. b_blockno (bufs s b)) ` {..<NBUF}"])
      (auto simp: refs_def split: option.splits dest: cached_Some)
  have "(\<lambda>b. b_blockno (bufs s b)) ` {..<NBUF} \<subseteq> {n. refs dev s n \<noteq> 0}"
  proof clarsimp
    fix b :: nat assume b: "b < 30" "refs dev s (b_blockno (bufs s b)) = 0"
    with cached_inv [OF assms(1) _ v refl, of b] all [of b] show False by (simp add: refs_def)
  qed
  then have "card ((\<lambda>b. b_blockno (bufs s b)) ` {..<NBUF}) \<le> card {n. refs dev s n \<noteq> 0}"
    using fin by (intro card_mono)
  with inj assms(2) show False by (simp add: card_image)
qed

section \<open>bread\<close>

lemma upd_buf_cong: "f (bufs s b) = g (bufs s b) \<Longrightarrow> upd_buf b f s = upd_buf b g s"
  by (simp add: upd_buf_def)

lemma find_dll:
  assumes "dll B bs" and "\<forall>a < NBUF. \<forall>b < NBUF. b_dev (B a) = dev \<and> b_dev (B b) = dev \<and> b_blockno (B a) = b_blockno (B b) \<longrightarrow> a = b"
  shows "find (\<lambda>b. b_dev (B b) = dev \<and> b_blockno (B b) = n) bs = cached dev B n"
proof (cases "find (\<lambda>b. b_dev (B b) = dev \<and> b_blockno (B b) = n) bs")
  case None
  then have "cached dev B n = None" using assms(1) by (auto simp: find_None_iff cached_None dll_def)
  with None show ?thesis by simp
next
  case (Some b)
  then have "b \<in> set bs" "b_dev (B b) = dev" "b_blockno (B b) = n" by (auto simp: find_Some_iff)
  with assms have "cached dev B n = Some b" by (intro cached_eq) (auto simp: dll_def)
  with Some show ?thesis by simp
qed

lemma find_inv:
  assumes "bc_inv dev s" and "dll (bufs s) bs"
  shows "find (\<lambda>b. b_dev (bufs s b) = dev \<and> b_blockno (bufs s b) = n) bs = cached dev (bufs s) n"
  using assms by (intro find_dll) (simp_all add: bc_inv_def)

definition lock_by :: "uint32 \<Rightarrow> sleeplock \<Rightarrow> sleeplock" where
  "lock_by pid l = l\<lparr>sl_locked := True, sl_pid := pid\<rparr>"

lemma lock_by_simps [simp]: "sl_locked (lock_by pid l)" "sl_pid (lock_by pid l) = pid"
  by (simp_all add: lock_by_def)

lemma bget_hit:
  assumes "calm s" and "bc_inv dev s" and "cached dev (bufs s) n = Some b" and "\<not> sl_locked (slks s (BufLk b))"
  shows "bget dev n s = Done b (settle (upd_slk (BufLk b) (lock_by (mypid s)) (upd_buf b (\<lambda>q. q\<lparr>b_refcnt := b_refcnt q + 1\<rparr>) s)))"
proof -
  obtain p where p: "cpu_proc (mycpu s) = Some p" using assms(1) by (auto simp: calm_def)
  note c = calmD [OF assms(1)]
  obtain bs where d: "dll (bufs s) bs" using assms(2) by (auto simp: bc_inv_def)
  have f: "bget_cached (Suc NBUF) (b_next (bufs s bhead)) dev n (bufs s) = Some (Some b)"
    unfolding bget_cached_dll [OF d] find_inv [OF assms(2) d] assms(3) ..
  show ?thesis
    using f assms(4) c p by (simp add: bget_def acquire_free release_acq acquiresleep_free lock_by_def [abs_def] mypid_def)
qed

lemma bget_miss:
  assumes "calm s" and "bc_inv dev s" and "cached dev (bufs s) n = None" and "\<exists>b < NBUF. b_refcnt (bufs s b) = 0"
  obtains b where "b < NBUF" and "b_refcnt (bufs s b) = 0"
    and "bget dev n s = Done b (settle (upd_slk (BufLk b) (lock_by (mypid s))
      (upd_buf b (\<lambda>q. q\<lparr>b_dev := dev, b_blockno := n, b_valid := False, b_refcnt := 1\<rparr>) s)))"
proof -
  obtain p where p: "cpu_proc (mycpu s) = Some p" using assms(1) by (auto simp: calm_def)
  note c = calmD [OF assms(1)]
  obtain bs where d: "dll (bufs s) bs" using assms(2) by (auto simp: bc_inv_def)
  have f: "bget_cached (Suc NBUF) (b_next (bufs s bhead)) dev n (bufs s) = Some None"
    unfolding bget_cached_dll [OF d] find_inv [OF assms(2) d] assms(3) ..
  have "find (\<lambda>b. b_refcnt (bufs s b) = 0) (rev bs) \<noteq> None"
    using assms(4) d by (auto simp: find_None_iff dll_def)
  then obtain b where b: "find (\<lambda>b. b_refcnt (bufs s b) = 0) (rev bs) = Some b" by blast
  then have u: "bget_unused (Suc NBUF) (b_prev (bufs s bhead)) (bufs s) = Some (Some b)"
    using bget_unused_dll [OF d] by simp
  from find_SomeD [OF b] have "b \<in> set bs" "b_refcnt (bufs s b) = 0" by simp_all
  then have b0: "b < NBUF" "b_refcnt (bufs s b) = 0" "\<not> sl_locked (slks s (BufLk b))"
    using d assms(2) by (auto simp: dll_def bc_inv_def)
  show thesis
    using f u b0 c p by (intro that [OF b0(1,2)])
      (simp add: bget_def acquire_free release_acq acquiresleep_free lock_by_def [abs_def] mypid_def)
qed

lemma bread_eq:
  assumes "calm s" and "bc_inv dev s" and "n \<notin> held dev s"
    and "refs dev s n \<noteq> 0 \<or> card {n. refs dev s n \<noteq> 0} < NBUF"
  obtains b where "b < NBUF"
    and "cached dev (bufs s) n = Some b \<or> cached dev (bufs s) n = None \<and> b_refcnt (bufs s b) = 0"
    and "bread dev n s = Done b (settle (upd_slk (BufLk b) (lock_by (mypid s)) (upd_buf b (\<lambda>q. q\<lparr>b_dev := dev, b_blockno := n,
      b_valid := True, b_data := content dev s n, b_refcnt := refs dev s n + 1\<rparr>) s)))"
proof (cases "cached dev (bufs s) n")
  case (Some b)
  note b = cached_Some [OF Some]
  then have "\<not> sl_locked (slks s (BufLk b))" using assms(3) by (auto simp: held_def)
  note g = bget_hit [OF assms(1,2) Some this]
  show thesis
  proof (rule that [OF b(1)])
    show "cached dev (bufs s) n = Some b \<or> cached dev (bufs s) n = None \<and> b_refcnt (bufs s b) = 0"
      using Some by simp
    show "bread dev n s = Done b (settle (upd_slk (BufLk b) (lock_by (mypid s)) (upd_buf b (\<lambda>q. q\<lparr>b_dev := dev, b_blockno := n,
      b_valid := True, b_data := content dev s n, b_refcnt := refs dev s n + 1\<rparr>) s)))"
      using b Some by (cases "bufs s b")
        (auto simp: bread_def g disk_rw_def content_def refs_def intro!: upd_buf_cong arg_cong [where f = settle] arg_cong [where f = "upd_slk l g" for l g])
  qed
next
  case None
  then have r: "refs dev s n = 0" by (simp add: refs_def)
  with assms(4) unused_buffer [OF assms(2)] have "\<exists>b < NBUF. b_refcnt (bufs s b) = 0" by simp
  from bget_miss [OF assms(1,2) None this] obtain b where b: "b < NBUF" "b_refcnt (bufs s b) = 0"
    "bget dev n s = Done b (settle (upd_slk (BufLk b) (lock_by (mypid s))
      (upd_buf b (\<lambda>q. q\<lparr>b_dev := dev, b_blockno := n, b_valid := False, b_refcnt := 1\<rparr>) s)))" .
  show thesis
    using b None r by (intro that [OF b(1)])
      (auto simp: bread_def disk_rw_def content_def intro!: upd_buf_cong arg_cong [where f = settle] arg_cong [where f = "upd_slk l g" for l g])
qed

section \<open>Changing one buffer\<close>

text \<open>
  Every cache operation changes the buffer of one block, its lock and that block on disk; the other
  buffers at most change their place in the list.
\<close>

definition same_buf :: "buf \<Rightarrow> buf \<Rightarrow> bool" where
  "same_buf p q \<longleftrightarrow> b_dev p = b_dev q \<and> b_blockno p = b_blockno q \<and> b_valid p = b_valid q \<and>
     b_refcnt p = b_refcnt q \<and> b_data p = b_data q"

definition cache_set :: "uint32 \<Rightarrow> ('a) bcache_scheme \<Rightarrow> ('a) bcache_scheme \<Rightarrow> nat \<Rightarrow> uint32 \<Rightarrow> bool" where
  "cache_set dev s t b n \<longleftrightarrow> bc_inv dev s \<and> b < NBUF \<and>
     (cached dev (bufs s) n = Some b \<or> cached dev (bufs s) n = None \<and> b_refcnt (bufs s b) = 0) \<and>
     (\<exists>bs. dll (bufs t) bs) \<and> (\<forall>a < NBUF. a \<noteq> b \<longrightarrow> same_buf (bufs t a) (bufs s a) \<and> slks t (BufLk a) = slks s (BufLk a)) \<and>
     b_dev (bufs t b) = dev \<and> b_blockno (bufs t b) = n \<and> b_valid (bufs t b) \<and>
     (b_refcnt (bufs t b) = 0 \<longrightarrow> \<not> sl_locked (slks t (BufLk b)) \<and> b_data (bufs t b) = disk t n) \<and>
     (\<forall>m. m \<noteq> n \<longrightarrow> disk t m = disk s m)"

lemma cache_set_dev:
  assumes "cache_set dev s t b n" and "a < NBUF"
  shows "b_dev (bufs t a) = dev \<and> b_blockno (bufs t a) = m \<longleftrightarrow>
    (if m = n then a = b else a \<noteq> b \<and> b_dev (bufs s a) = dev \<and> b_blockno (bufs s a) = m)"
proof (cases "a = b")
  case True
  with assms show ?thesis by (auto simp: cache_set_def)
next
  case False
  then have f: "b_dev (bufs t a) = b_dev (bufs s a)" "b_blockno (bufs t a) = b_blockno (bufs s a)"
    using assms by (auto simp: cache_set_def same_buf_def)
  have "b_dev (bufs s a) = dev \<Longrightarrow> b_blockno (bufs s a) \<noteq> n"
    using assms False cached_inv [of dev s a n] by (auto simp: cache_set_def)
  with False f show ?thesis by auto
qed

lemma cache_set_inv:
  assumes "cache_set dev s t b n"
  shows "bc_inv dev t"
proof -
  have s: "bc_inv dev s" using assms by (simp add: cache_set_def)
  have o: "same_buf (bufs t a) (bufs s a)" "slks t (BufLk a) = slks s (BufLk a)" if "a < NBUF" "a \<noteq> b" for a
    using assms that unfolding cache_set_def by blast+
  note d = cache_set_dev [OF assms]
  have bt: "b < NBUF" "b_dev (bufs t b) = dev" "b_blockno (bufs t b) = n" "b_valid (bufs t b)"
    "b_refcnt (bufs t b) = 0 \<Longrightarrow> \<not> sl_locked (slks t (BufLk b)) \<and> b_data (bufs t b) = disk t n"
    using assms unfolding cache_set_def by blast+
  have "a = c" if "a < NBUF" "c < NBUF" "b_dev (bufs t a) = dev" "b_dev (bufs t c) = dev" "b_blockno (bufs t a) = b_blockno (bufs t c)" for a c
    using that d [of a "b_blockno (bufs t a)"] d [of c "b_blockno (bufs t c)"] assms
    by (auto simp: cache_set_def bc_inv_def split: if_splits)
  moreover have "b_dev (bufs t a) = dev" if "a < NBUF" "b_valid (bufs t a)" for a
    using that o [OF that(1)] bc_invD(1) [OF s that(1)] bt by (cases "a = b") (simp_all add: same_buf_def)
  moreover have "b_valid (bufs t a)" if "a < NBUF" "b_refcnt (bufs t a) \<noteq> 0" for a
    using that o [OF that(1)] bc_invD(4) [OF s that(1)] bt by (cases "a = b") (simp_all add: same_buf_def)
  moreover have "\<not> sl_locked (slks t (BufLk a)) \<and> (b_valid (bufs t a) \<longrightarrow> b_data (bufs t a) = disk t (b_blockno (bufs t a)))"
    if "a < NBUF" "b_refcnt (bufs t a) = 0" for a
  proof (cases "a = b")
    case True
    with bt that show ?thesis by simp
  next
    case False
    note sb = o [OF that(1) False] and i = bc_invD [OF s that(1)]
    have z: "b_refcnt (bufs s a) = 0" using sb(1) that(2) by (simp add: same_buf_def)
    have "b_valid (bufs s a) \<Longrightarrow> b_blockno (bufs s a) \<noteq> n"
      using d [OF that(1), of n] False i(1) sb(1) by (auto simp: same_buf_def)
    moreover have "\<forall>m. m \<noteq> n \<longrightarrow> disk t m = disk s m" using assms by (simp add: cache_set_def)
    ultimately show ?thesis using i(2,3) [OF z] sb by (auto simp: same_buf_def)
  qed
  moreover have "\<exists>bs. dll (bufs t) bs" using assms by (simp add: cache_set_def)
  ultimately show ?thesis unfolding bc_inv_def by blast
qed

lemma cache_set_cached:
  assumes "cache_set dev s t b n"
  shows "cached dev (bufs t) m = (if m = n then Some b else
    if cached dev (bufs s) m = Some b then None else cached dev (bufs s) m)"
proof -
  note d = cache_set_dev [OF assms]
  have b: "b < NBUF" using assms by (simp add: cache_set_def)
  show ?thesis
  proof (cases "m = n")
    case True
    with cached_inv [OF cache_set_inv [OF assms] b, of n] d [OF b, of n] show ?thesis by simp
  next
    case False
    show ?thesis
    proof (cases "cached dev (bufs s) m")
      case None
      have "cached dev (bufs t) m = None"
        unfolding cached_None
      proof (intro allI impI notI)
        fix c assume c: "c < NBUF" "b_dev (bufs t c) = dev" "b_blockno (bufs t c) = m"
        with d [OF c(1), of m] False None show False by (auto simp: cached_None)
      qed
      with None False show ?thesis by simp
    next
      case (Some a)
      note a = cached_Some [OF Some]
      show ?thesis
      proof (cases "a = b")
        case True
        have "cached dev (bufs t) m = None"
          unfolding cached_None
        proof (intro allI impI notI)
          fix c assume c: "c < NBUF" "b_dev (bufs t c) = dev" "b_blockno (bufs t c) = m"
          with d [OF c(1), of m] False have "c \<noteq> b" "b_dev (bufs s c) = dev" "b_blockno (bufs s c) = m" by auto
          with cached_inv [of dev s c m] c(1) Some True assms show False by (auto simp: cache_set_def)
        qed
        with Some True False show ?thesis by simp
      next
        case ne: False
        with a d [OF a(1), of m] False have "b_dev (bufs t a) = dev" "b_blockno (bufs t a) = m" by auto
        from cached_inv [OF cache_set_inv [OF assms] a(1) this] Some ne False show ?thesis by simp
      qed
    qed
  qed
qed

lemma cache_set_abs:
  assumes "cache_set dev s t b n"
  shows "content dev t = (content dev s)(n := b_data (bufs t b))"
    and "refs dev t = (refs dev s)(n := b_refcnt (bufs t b))"
    and "held dev t = (if sl_locked (slks t (BufLk b)) then insert n (held dev s) else held dev s - {n})"
proof -
  note c = cache_set_cached [OF assms] and d = cache_set_dev [OF assms]
  have v: "b_valid (bufs t b)" and b: "b < NBUF" and inv: "bc_inv dev s"
    and dk: "m \<noteq> n \<Longrightarrow> disk t m = disk s m" for m
    using assms by (auto simp: cache_set_def)
  have o: "same_buf (bufs t a) (bufs s a)" "slks t (BufLk a) = slks s (BufLk a)" if "a < NBUF" "a \<noteq> b" for a
    using assms that unfolding cache_set_def by blast+
  have hit: "cached dev (bufs s) n = Some b \<or> cached dev (bufs s) n = None \<and> b_refcnt (bufs s b) = 0"
    using assms by (simp add: cache_set_def)
  have evict: "b_refcnt (bufs s b) = 0" if "cached dev (bufs s) m = Some b" "m \<noteq> n" for m
    using hit that(2) cached_Some(3) [OF that(1)] cached_Some(3) [of dev "bufs s" n b] by auto
  have "content dev t m = ((content dev s)(n := b_data (bufs t b))) m" for m
  proof (cases "m = n")
    case True
    then show ?thesis using c v by (simp add: content_def)
  next
    case False
    show ?thesis
    proof (cases "cached dev (bufs s) m = Some b")
      case True
      with evict [OF True False] inv b cached_Some [OF True]
      have "b_valid (bufs s b) \<Longrightarrow> b_data (bufs s b) = disk s m" by (auto simp: bc_inv_def)
      with True False c dk show ?thesis by (simp add: content_def)
    next
      case ne: False
      with False c dk o show ?thesis
        by (cases "cached dev (bufs s) m") (auto simp: content_def same_buf_def dest: cached_Some)
    qed
  qed
  then show "content dev t = (content dev s)(n := b_data (bufs t b))" by (rule ext)
  have "refs dev t m = ((refs dev s)(n := b_refcnt (bufs t b))) m" for m
  proof (cases "m = n")
    case True
    then show ?thesis using c by (simp add: refs_def)
  next
    case False
    then show ?thesis
      using c [of m] o evict [of m]
      by (cases "cached dev (bufs s) m") (auto simp: refs_def same_buf_def dest: cached_Some split: if_splits)
  qed
  then show "refs dev t = (refs dev s)(n := b_refcnt (bufs t b))" by (rule ext)
  have lk: "b_refcnt (bufs s b) = 0 \<Longrightarrow> \<not> sl_locked (slks s (BufLk b))" using inv b by (simp add: bc_inv_def)
  have h: "m \<in> held dev t \<longleftrightarrow> (if m = n then sl_locked (slks t (BufLk b)) else m \<in> held dev s)" for m
  proof (cases "m = n")
    case True
    have "n \<in> held dev t \<longleftrightarrow> (\<exists>a < NBUF. a = b \<and> sl_locked (slks t (BufLk a)))"
      using d [of _ n] unfolding held_def mem_Collect_eq by metis
    with True b show ?thesis by simp
  next
    case False
    have "m \<in> held dev t \<longleftrightarrow> (\<exists>a < NBUF. a \<noteq> b \<and> b_dev (bufs s a) = dev \<and> b_blockno (bufs s a) = m \<and> sl_locked (slks s (BufLk a)))"
      using d [of _ m] False o(2) unfolding held_def mem_Collect_eq by metis
    also have "\<dots> \<longleftrightarrow> m \<in> held dev s"
      using cached_inv [OF inv b] evict [OF _ False] lk unfolding held_def mem_Collect_eq by metis
    finally show ?thesis using False by simp
  qed
  show "held dev t = (if sl_locked (slks t (BufLk b)) then insert n (held dev s) else held dev s - {n})"
    by (rule set_eqI) (simp add: h)
qed

section \<open>Operations on blocks\<close>

text \<open>
  \<open>block_step dev n s t\<close>: from \<open>s\<close> to \<open>t\<close> only the cache has changed, and the buffers of other blocks
  that the process holds are still held.
\<close>

definition block_step :: "uint32 \<Rightarrow> uint32 \<Rightarrow> ('a) bcache_scheme \<Rightarrow> ('a) bcache_scheme \<Rightarrow> bool" where
  "block_step dev n s t \<longleftrightarrow> cache_step s t \<and> (\<forall>c m. m \<noteq> n \<longrightarrow> holds_buf dev s c m \<longrightarrow> holds_buf dev t c m)"

lemma block_stepD:
  assumes "block_step dev n s t"
  shows "cache_step s t" and "m \<noteq> n \<Longrightarrow> holds_buf dev s c m \<Longrightarrow> holds_buf dev t c m"
  using assms by (simp_all add: block_step_def)

lemma cache_set_holds:
  assumes "cache_set dev s t b n" and "mypid t = mypid s" and "holds_buf dev s c m" and "m \<noteq> n"
  shows "holds_buf dev t c m"
proof -
  have hit: "cached dev (bufs s) n = Some b \<or> cached dev (bufs s) n = None \<and> b_refcnt (bufs s b) = 0" and inv: "bc_inv dev s"
    using assms(1) by (simp_all add: cache_set_def)
  have "c \<noteq> b"
    using hit cached_Some(3) [of dev "bufs s" n b] content_buf(3) [OF inv assms(3)] assms(3,4) by (auto simp: holds_buf_def)
  moreover have "c < NBUF" using assms(3) by (simp add: holds_buf_def)
  ultimately have "same_buf (bufs t c) (bufs s c)" "slks t (BufLk c) = slks s (BufLk c)"
    using assms(1) unfolding cache_set_def by blast+
  with assms(2,3) show ?thesis by (simp add: holds_buf_def same_buf_def)
qed

lemma cache_set_step:
  assumes "cache dev s C R H D W" and "cache_set dev s t b n" and "cache_step s t"
  shows "cache dev t (C(n := b_data (bufs t b))) (R(n := b_refcnt (bufs t b)))
      (if sl_locked (slks t (BufLk b)) then insert n H else H - {n}) (disk t) (disk_writes t)"
    and "block_step dev n s t"
  using assms cache_set_inv [OF assms(2)] cache_set_abs [OF assms(2)] cache_step_keeps [OF assms(3)] cache_set_holds [OF assms(2)]
  by (simp_all add: cache_def block_step_def)

lemma cache_step_plain:
  assumes "u = s\<lparr>procs := procs u, slks := slks u, bufs := bufs u, disk := disk u, disk_writes := disk_writes u\<rparr>"
    and "wakes (procs s) (procs u)"
  shows "cache_step s u"
  unfolding cache_step_def using arg_cong [OF assms(1), of settle] assms(2) by blast

lemma cache_step_settle:
  assumes "u = s\<lparr>procs := procs u, slks := slks u, bufs := bufs u, disk := disk u, disk_writes := disk_writes u\<rparr>"
    and "wakes (procs s) (procs u)"
  shows "cache_step s (settle u)"
  using cache_step_plain [OF assms] by (simp add: cache_step_def)

lemma dll_upd_buf:
  assumes "dll B bs" and "b_next q = b_next (B b)" and "b_prev q = b_prev (B b)"
  shows "dll (B(b := q)) bs"
  using assms dll_cong [of "B(b := q)" B bs] by simp

lemma bc_inv_dll: "bc_inv dev s \<Longrightarrow> \<exists>bs. dll (bufs s) bs"
  by (simp add: bc_inv_def)

lemma same_buf_refl [simp]: "same_buf q q"
  by (simp add: same_buf_def)

lemma bread_spec:
  assumes "cache dev s C R H D W" and "n \<notin> H" and "R n \<noteq> - 1" and "R n \<noteq> 0 \<or> card {n. R n \<noteq> 0} < NBUF"
  shows "yields (bread dev n s) (\<lambda>b t. cache dev t C (R(n := R n + 1)) (insert n H) D W \<and>
    holds_buf dev t b n \<and> block_step dev n s t)"
proof -
  have s: "calm s" "bc_inv dev s" "content dev s = C" "refs dev s = R" "held dev s = H" "disk s = D" "disk_writes s = W"
    using assms(1) by (simp_all add: cache_def)
  obtain b where b: "b < NBUF" "cached dev (bufs s) n = Some b \<or> cached dev (bufs s) n = None \<and> b_refcnt (bufs s b) = 0"
    "bread dev n s = Done b (settle (upd_slk (BufLk b) (lock_by (mypid s)) (upd_buf b (\<lambda>q. q\<lparr>b_dev := dev, b_blockno := n,
      b_valid := True, b_data := C n, b_refcnt := R n + 1\<rparr>) s)))" (is "_ = Done b ?t")
    using bread_eq [OF s(1,2)] s assms(2,4) by metis
  obtain bs where "dll (bufs s) bs" using bc_inv_dll [OF s(2)] ..
  then have "\<exists>bs. dll (bufs ?t) bs" by (intro exI [of _ bs]) (simp add: dll_upd_buf)
  moreover have "R n + 1 \<noteq> 0" using assms(3) by (metis add.inverse_inverse add_eq_0_iff)
  ultimately have cs: "cache_set dev s ?t b n"
    using b(1,2) s(2) by (simp add: cache_set_def)
  have "cache_step s ?t" by (rule cache_step_settle) (simp_all add: upd_buf_def upd_slk_def)
  note cache_set_step [OF assms(1) cs this]
  moreover have "holds_buf dev ?t b n" using b(1) by (simp add: holds_buf_def mypid_def)
  ultimately show ?thesis using s by (simp add: b(3))
qed

text \<open>A process that holds the buffer of a block: the buffer's fields in terms of the view.\<close>

lemma held_buf:
  assumes "cache dev s C R H D W" and "holds_buf dev s b n"
  shows "b < NBUF" and "b_dev (bufs s b) = dev" and "b_blockno (bufs s b) = n" and "b_data (bufs s b) = C n"
    and "b_refcnt (bufs s b) = R n" and "R n \<noteq> 0" and "n \<in> H" and "b_valid (bufs s b)" and "sl_locked (slks s (BufLk b))"
    and "cached dev (bufs s) n = Some b" and "calm s" and "bc_inv dev s" and "disk s = D" and "disk_writes s = W"
proof -
  have s: "calm s" "bc_inv dev s" "content dev s = C" "refs dev s = R" "held dev s = H" "disk s = D" "disk_writes s = W"
    using assms(1) by (simp_all add: cache_def)
  then show "calm s" "bc_inv dev s" "disk s = D" "disk_writes s = W" by simp_all
  show b: "b < NBUF" "b_dev (bufs s b) = dev" "b_blockno (bufs s b) = n" "sl_locked (slks s (BufLk b))"
    using assms(2) by (simp_all add: holds_buf_def)
  note c = content_buf [OF s(2) assms(2)]
  then show "b_data (bufs s b) = C n" "b_refcnt (bufs s b) = R n" "R n \<noteq> 0" "n \<in> H" "b_valid (bufs s b)" using s by simp_all
  show "cached dev (bufs s) n = Some b" using cached_inv [OF s(2) b(1-3)] .
qed

lemma holds_buf_upd:
  assumes "holds_buf dev s b n" and "cache_step s t" and "b_dev (bufs t b) = dev" and "b_blockno (bufs t b) = n"
    and "slks t (BufLk b) = slks s (BufLk b)"
  shows "holds_buf dev t b n"
  using assms cache_step_keeps(2) [OF assms(2)] by (simp add: holds_buf_def)

text \<open>An update of the held buffer alone.\<close>

lemma upd_held:
  assumes "cache dev s C R H D W" and "holds_buf dev s b n"
    and "b_dev (f (bufs s b)) = dev" and "b_blockno (f (bufs s b)) = n" and "b_valid (f (bufs s b))"
    and "b_next (f (bufs s b)) = b_next (bufs s b)" and "b_prev (f (bufs s b)) = b_prev (bufs s b)"
    and "b_data (f (bufs s b)) = x" and "b_refcnt (f (bufs s b)) = r" and "r \<noteq> 0"
  shows "cache dev (upd_buf b f s) (C(n := x)) (R(n := r)) H D W \<and> holds_buf dev (upd_buf b f s) b n \<and>
    block_step dev n s (upd_buf b f s)"
proof -
  note h = held_buf [OF assms(1,2)]
  obtain bs where "dll (bufs s) bs" using bc_inv_dll [OF h(12)] ..
  then have "\<exists>bs. dll (bufs (upd_buf b f s)) bs" using assms(6,7) by (intro exI [of _ bs]) (simp add: dll_upd_buf)
  then have cs: "cache_set dev s (upd_buf b f s) b n"
    using h assms(3-) by (simp add: cache_set_def)
  have st: "cache_step s (upd_buf b f s)" by (rule cache_step_plain) (simp_all add: upd_buf_def)
  have "holds_buf dev (upd_buf b f s) b n" using assms(3,4) by (intro holds_buf_upd [OF assms(2) st]) simp_all
  with cache_set_step [OF assms(1) cs st] h assms(8,9) show ?thesis by (simp add: insert_absorb)
qed

lemma store_spec:
  assumes "cache dev s C R H D W" and "holds_buf dev s b n"
  shows "cache dev (upd_buf b (\<lambda>q. q\<lparr>b_data := x\<rparr>) s) (C(n := x)) R H D W \<and>
    holds_buf dev (upd_buf b (\<lambda>q. q\<lparr>b_data := x\<rparr>) s) b n \<and> block_step dev n s (upd_buf b (\<lambda>q. q\<lparr>b_data := x\<rparr>) s)"
  using upd_held [OF assms, of "\<lambda>q. q\<lparr>b_data := x\<rparr>" x "R n"] held_buf [OF assms] by simp

lemma cache_cong:
  assumes "bufs t = bufs s" and "slks t = slks s" and "disk t = disk s" and "disk_writes t = disk_writes s" and "calm t = calm s"
  shows "cache dev t = cache dev s"
proof -
  have "content dev t = content dev s" "refs dev t = refs dev s"
    by (rule ext, simp only: content_def refs_def assms)+
  moreover have "held dev t = held dev s" "bc_inv dev t = bc_inv dev s"
    unfolding held_def bc_inv_def assms(1-3) by (rule refl)+
  ultimately show ?thesis using assms by (intro ext) (simp add: cache_def)
qed

lemma holds_buf_cong:
  assumes "bufs t = bufs s" and "slks t = slks s" and "mypid t = mypid s"
  shows "holds_buf dev t = holds_buf dev s"
  using assms by (intro ext) (simp add: holds_buf_def)

lemma cache_settle [simp]: "cache dev (settle s) = cache dev s" "holds_buf dev (settle s) = holds_buf dev s"
  by (rule cache_cong; simp) (rule holds_buf_cong; simp add: mypid_def)

lemma block_step_settle [simp]: "block_step dev n s (settle t) = block_step dev n s t"
  by (simp add: block_step_def cache_step_def)

lemma refcnt_spec:
  assumes "cache dev s C R H D W" and "holds_buf dev s b n" and "R n + d \<noteq> 0"
  shows "cache dev (upd_buf b (\<lambda>q. q\<lparr>b_refcnt := b_refcnt q + d\<rparr>) s) C (R(n := R n + d)) H D W \<and>
    holds_buf dev (upd_buf b (\<lambda>q. q\<lparr>b_refcnt := b_refcnt q + d\<rparr>) s) b n \<and>
    block_step dev n s (upd_buf b (\<lambda>q. q\<lparr>b_refcnt := b_refcnt q + d\<rparr>) s)"
  using upd_held [OF assms(1,2), of "\<lambda>q. q\<lparr>b_refcnt := b_refcnt q + d\<rparr>" "C n" "R n + d"] held_buf [OF assms(1,2)] assms(3) by simp

lemma bpin_spec:
  assumes "cache dev s C R H D W" and "holds_buf dev s b n" and "R n \<noteq> - 1"
  shows "yields (bpin b s) (\<lambda>_ t. cache dev t C (R(n := R n + 1)) H D W \<and> holds_buf dev t b n \<and> block_step dev n s t)"
proof -
  note c = calmD [OF held_buf(11) [OF assms(1,2)]]
  have "R n + 1 \<noteq> 0" using assms(3) by (metis add.inverse_inverse add_eq_0_iff)
  with refcnt_spec [OF assms(1,2), of 1] c show ?thesis
    by (simp add: bpin_def acquire_free release_acq)
qed

lemma bunpin_spec:
  assumes "cache dev s C R H D W" and "holds_buf dev s b n" and "R n \<noteq> 1"
  shows "yields (bunpin b s) (\<lambda>_ t. cache dev t C (R(n := R n - 1)) H D W \<and> holds_buf dev t b n \<and> block_step dev n s t)"
proof -
  note c = calmD [OF held_buf(11) [OF assms(1,2)]]
  have "R n + - 1 \<noteq> 0" using assms(3) by simp
  with refcnt_spec [OF assms(1,2), of "- 1"] c show ?thesis
    by (simp add: bunpin_def acquire_free release_acq)
qed

lemma bwrite_spec:
  assumes "cache dev s C R H D W" and "holds_buf dev s b n"
  shows "yields (bwrite b s) (\<lambda>_ t. cache dev t C R H (D(n := C n)) (W @ [(n, C n)]) \<and> holds_buf dev t b n \<and> block_step dev n s t)"
proof -
  note h = held_buf [OF assms]
  obtain p where p: "cpu_proc (mycpu s) = Some p" using h(11) by (auto simp: calm_def)
  let ?u = "s\<lparr>disk := D(n := C n), disk_writes := W @ [(n, C n)]\<rparr>"
  have "bwrite b s = Done () (settle ?u)"
    using calmD [OF h(11)] p h assms(2) by (simp add: bwrite_def holdingsleep_eq disk_rw_def holds_buf_def mypid_def)
  moreover have cs: "cache_set dev s ?u b n"
    using h bc_inv_dll [OF h(12)] by (simp add: cache_set_def)
  have st: "cache_step s ?u" by (rule cache_step_plain) simp_all
  have "holds_buf dev ?u b n" using h by (intro holds_buf_upd [OF assms(2) st]) simp_all
  moreover have "cache dev ?u C R H (D(n := C n)) (W @ [(n, C n)])" "block_step dev n s ?u"
    using cache_set_step [OF assms(1) cs st] h by (simp_all add: insert_absorb)
  ultimately show ?thesis by simp
qed

text \<open>Releasing the last reference needs the content to be on disk: the buffer may be reused from then on.\<close>

lemma brelse_eq:
  assumes "cache dev s C R H D W" and "holds_buf dev s b n"
  obtains P where "wakes (procs s) P" and "brelse b s = Done () (settle (s\<lparr>procs := P,
      slks := (slks s)(BufLk b := (slks s (BufLk b))\<lparr>sl_locked := False, sl_pid := 0\<rparr>),
      bufs := (let B = (bufs s)(b := (bufs s b)\<lparr>b_refcnt := R n - 1\<rparr>) in if R n = 1 then blist_push b (blist_unlink b B) else B)\<rparr>))"
proof -
  note h = held_buf [OF assms]
  obtain p where p: "cpu_proc (mycpu s) = Some p" using h(11) by (auto simp: calm_def)
  note c = calmD [OF h(11)]
  have hs: "holdingsleep (BufLk b) s = Done True (settle s)"
    using c p h assms(2) by (simp add: holdingsleep_eq holds_buf_def mypid_def)
  have r: "procs_free (settle s)" using c(3) by (simp add: procs_free_def)
  show thesis
    using h c hs releasesleep_eq [of "settle s" "BufLk b"] r
    by (intro that [OF wakes_woken [where ch = "Some (ChSleeplock (BufLk b))" and me = "cpu_proc (mycpu s)" and I = "{..<NPROC}"]])
      (auto simp: brelse_def acquire_free release_acq upd_slk_def upd_buf_def Let_def intro!: arg_cong [where f = settle])
qed

lemma brelse_spec:
  assumes "cache dev s C R H D W" and "holds_buf dev s b n" and "R n = 1 \<longrightarrow> C n = D n"
  shows "yields (brelse b s) (\<lambda>_ t. cache dev t C (R(n := R n - 1)) (H - {n}) D W \<and> block_step dev n s t)"
proof -
  note h = held_buf [OF assms(1,2)]
  obtain P where P: "wakes (procs s) P" "brelse b s = Done () (settle (s\<lparr>procs := P,
      slks := (slks s)(BufLk b := (slks s (BufLk b))\<lparr>sl_locked := False, sl_pid := 0\<rparr>),
      bufs := (let B = (bufs s)(b := (bufs s b)\<lparr>b_refcnt := R n - 1\<rparr>) in if R n = 1 then blist_push b (blist_unlink b B) else B)\<rparr>))"
    (is "_ = Done () (settle ?u)")
    using brelse_eq [OF assms(1,2)] .
  obtain bs where d: "dll (bufs s) bs" using bc_inv_dll [OF h(12)] ..
  let ?B = "(bufs s)(b := (bufs s b)\<lparr>b_refcnt := R n - 1\<rparr>)"
  have "dll ?B bs" using d by (simp add: dll_upd_buf)
  then have "\<exists>bs. dll (bufs ?u) bs" using dll_move_front [of ?B bs b] h(1) by (auto simp: Let_def)
  then have cs: "cache_set dev s ?u b n"
    using h assms(3) by (auto simp: cache_set_def same_buf_def Let_def)
  have st: "cache_step s ?u" by (rule cache_step_plain) (simp_all add: P(1))
  from cache_set_step [OF assms(1) cs st] h show ?thesis by (simp add: P(2) Let_def split: if_splits)
qed

section \<open>The interface of the cache\<close>

text \<open>
  What a client of the cache relies on. \<open>view s C R H D W\<close>: in state \<open>s\<close> block \<open>n\<close> has content \<open>C n\<close> and
  \<open>R n\<close> references, the blocks in \<open>H\<close> are held, the disk holds \<open>D\<close> after the writes \<open>W\<close>.
  \<open>owns s b n\<close>: the process holds buffer \<open>b\<close>, of block \<open>n\<close>. \<open>step n s t\<close>: an operation on block \<open>n\<close>
  leads from \<open>s\<close> to \<open>t\<close>; \<open>steps\<close>: some operations do.
\<close>

locale block_cache =
  fixes view :: "'s \<Rightarrow> (uint32 \<Rightarrow> uint8 list) \<Rightarrow> (uint32 \<Rightarrow> uint32) \<Rightarrow> uint32 set \<Rightarrow>
      (uint32 \<Rightarrow> uint8 list) \<Rightarrow> (uint32 \<times> uint8 list) list \<Rightarrow> bool"
    and owns :: "'s \<Rightarrow> nat \<Rightarrow> uint32 \<Rightarrow> bool"
    and step :: "uint32 \<Rightarrow> 's \<Rightarrow> 's \<Rightarrow> bool"
    and steps :: "'s \<Rightarrow> 's \<Rightarrow> bool"
    and data :: "'s \<Rightarrow> nat \<Rightarrow> uint8 list"
    and rd :: "uint32 \<Rightarrow> 's \<Rightarrow> (nat, 's) outcome"
    and store :: "nat \<Rightarrow> uint8 list \<Rightarrow> 's \<Rightarrow> 's"
    and wr :: "nat \<Rightarrow> 's \<Rightarrow> (unit, 's) outcome"
    and rel :: "nat \<Rightarrow> 's \<Rightarrow> (unit, 's) outcome"
  assumes rd: "view s C R H D W \<Longrightarrow> n \<notin> H \<Longrightarrow> R n \<noteq> - 1 \<Longrightarrow> R n \<noteq> 0 \<or> card {n. R n \<noteq> 0} < NBUF \<Longrightarrow>
      yields (rd n s) (\<lambda>b t. view t C (R(n := R n + 1)) (insert n H) D W \<and> owns t b n \<and> step n s t)"
    and store: "view s C R H D W \<Longrightarrow> owns s b n \<Longrightarrow>
      view (store b x s) (C(n := x)) R H D W \<and> owns (store b x s) b n \<and> step n s (store b x s)"
    and wr: "view s C R H D W \<Longrightarrow> owns s b n \<Longrightarrow>
      yields (wr b s) (\<lambda>_ t. view t C R H (D(n := C n)) (W @ [(n, C n)]) \<and> owns t b n \<and> step n s t)"
    and rel: "view s C R H D W \<Longrightarrow> owns s b n \<Longrightarrow> R n = 1 \<longrightarrow> C n = D n \<Longrightarrow>
      yields (rel b s) (\<lambda>_ t. view t C (R(n := R n - 1)) (H - {n}) D W \<and> step n s t)"
    and data: "view s C R H D W \<Longrightarrow> owns s b n \<Longrightarrow> data s b = C n"
    and unreferenced: "view s C R H D W \<Longrightarrow> R n = 0 \<Longrightarrow> C n = D n"
    and keeps: "step n s t \<Longrightarrow> m \<noteq> n \<Longrightarrow> owns s b m \<Longrightarrow> owns t b m"
    and one: "step n s t \<Longrightarrow> steps s t"
    and trans: "steps s t \<Longrightarrow> steps t u \<Longrightarrow> steps s u"
begin

lemma more: "steps s t \<Longrightarrow> step n t u \<Longrightarrow> steps s u"
  by (blast intro: one trans)

text \<open>Reading a block and giving it back.\<close>

lemma read_only:
  assumes "view s C R H D W" and "n \<notin> H" and "R n = 0" and "card {n. R n \<noteq> 0} < NBUF"
  obtains b t where "rd n s = Done b t" and "data t b = C n" and "view t C (R(n := 1)) (insert n H) D W" and "owns t b n" and "steps s t"
proof -
  have "yields (rd n s) (\<lambda>b t. view t C (R(n := 1)) (insert n H) D W \<and> owns t b n \<and> step n s t)"
    using rd [OF assms(1), of n] assms(2-4) by simp
  then obtain b t where t: "rd n s = Done b t" "view t C (R(n := 1)) (insert n H) D W" "owns t b n" "step n s t" by (rule yieldsE) blast
  show thesis by (rule that [OF t(1) data [OF t(2,3)] t(2,3) one [OF t(4)]])
qed

lemma give_back:
  assumes "view t C (R(n := 1)) (insert n H) D W" and "owns t b n" and "n \<notin> H" and "R n = 0" and "C n = D n"
  obtains u where "rel b t = Done () u" and "view u C R H D W" and "steps t u"
proof -
  have e: "R(n := 1, n := 0) = R" "insert n H - {n} = H" using assms(3,4) by auto
  have "yields (rel b t) (\<lambda>_ u. view u C (R(n := 1, n := 0)) (insert n H - {n}) D W \<and> step n t u)"
    using rel [OF assms(1,2)] assms(5) by simp
  then obtain u where u: "rel b t = Done () u" "view u C R H D W" "step n t u" unfolding e by (rule yieldsE) auto
  show thesis by (rule that [OF u(1,2) one [OF u(3)]])
qed

text \<open>Replacing the content of a block on disk.\<close>

lemma replace:
  assumes "view t C (R(n := 1)) (insert n H) D W" and "owns t b n" and "n \<notin> H" and "R n = 0"
  obtains u v where "wr b (store b x t) = Done () u" and "rel b u = Done () v"
    and "view v (C(n := x)) R H (D(n := x)) (W @ [(n, x)])" and "steps t v"
proof -
  note s = store [OF assms(1,2), of x]
  have "yields (wr b (store b x t)) (\<lambda>_ u. view u (C(n := x)) (R(n := 1)) (insert n H) (D(n := x)) (W @ [(n, x)]) \<and>
      owns u b n \<and> step n (store b x t) u)"
    using wr s by fastforce
  then obtain u where u: "wr b (store b x t) = Done () u" "view u (C(n := x)) (R(n := 1)) (insert n H) (D(n := x)) (W @ [(n, x)])"
    "owns u b n" "step n (store b x t) u" by (rule yieldsE) auto
  obtain v where v: "rel b u = Done () v" "view v (C(n := x)) R H (D(n := x)) (W @ [(n, x)])" "steps u v"
    by (rule give_back [OF u(2,3) assms(3,4)]) simp
  show thesis by (rule that [OF u(1) v(1,2) trans [OF more [OF one u(4)] v(3)]]) (use s in blast)
qed

text \<open>Two blocks at a time, of which the first is unreferenced.\<close>

lemma read_two:
  assumes "view s C R H D W" and "a \<noteq> x" and "a \<notin> H" and "x \<notin> H" and "R a = 0" and "R x \<noteq> - 1"
    and "card {n. R n \<noteq> 0} + 1 < NBUF \<or> R x \<noteq> 0 \<and> card {n. R n \<noteq> 0} < NBUF"
  obtains p t q u where "rd a s = Done p t" and "rd x t = Done q u" and "steps s t" and "steps s u"
    and "view u C (R(a := 1, x := R x + 1)) (insert x (insert a H)) D W" and "owns u p a" and "owns u q x"
proof -
  obtain p t where t: "rd a s = Done p t" "view t C (R(a := 1)) (insert a H) D W" "owns t p a" "steps s t"
    by (rule read_only [OF assms(1,3,5)]) (use assms(7) in auto)
  have "{n. (R(a := 1)) n \<noteq> 0} = insert a {n. R n \<noteq> 0}" by auto
  then have "card {n. (R(a := 1)) n \<noteq> 0} = card {n. R n \<noteq> 0} + 1" using assms(5) by simp
  then have "yields (rd x t) (\<lambda>b u. view u C (R(a := 1, x := R x + 1)) (insert x (insert a H)) D W \<and> owns u b x \<and> step x t u)"
    using rd [OF t(2), of x] assms(2,4,6,7) by auto
  then obtain q u where u: "rd x t = Done q u" "view u C (R(a := 1, x := R x + 1)) (insert x (insert a H)) D W"
    "owns u q x" "step x t u" by (rule yieldsE) blast
  show thesis by (rule that [OF t(1) u(1) t(4) more [OF t(4) u(4)] u(2) keeps [OF u(4) assms(2) t(3)] u(3)])
qed

end

definition buf_data :: "('a) bcache_scheme \<Rightarrow> nat \<Rightarrow> uint8 list" where
  "buf_data s b = b_data (bufs s b)"

definition store_data :: "nat \<Rightarrow> uint8 list \<Rightarrow> ('a) bcache_scheme \<Rightarrow> ('a) bcache_scheme" where
  "store_data b x s = upd_buf b (\<lambda>q. q\<lparr>b_data := x\<rparr>) s"

text \<open>A block without references is in the cache as it is on disk.\<close>

lemma cache_unreferenced:
  assumes "cache dev s C R H D W" and "R n = 0"
  shows "C n = D n"
proof -
  have s: "bc_inv dev s" "content dev s = C" "refs dev s = R" "disk s = D" using assms(1) by (simp_all add: cache_def)
  show ?thesis
  proof (cases "cached dev (bufs s) n")
    case None
    with s show ?thesis by (auto simp: content_def)
  next
    case (Some b)
    with s(3) assms(2) have "b_refcnt (bufs s b) = 0" by (auto simp: refs_def)
    with Some bc_invD(3) [OF s(1) cached_Some(1) [OF Some]] cached_Some(3) [OF Some] s show ?thesis
      by (auto simp: content_def)
  qed
qed

interpretation bc: block_cache "cache dev" "holds_buf dev" "block_step dev" cache_step buf_data "bread dev" store_data bwrite brelse
  for dev
proof (unfold_locales, goal_cases)
  case 1 then show ?case by (rule bread_spec)
next
  case 2 then show ?case unfolding store_data_def by (rule store_spec)
next
  case 3 then show ?case by (rule bwrite_spec)
next
  case 4 then show ?case by (rule brelse_spec)
next
  case 5 then show ?case unfolding buf_data_def by (rule held_buf(4))
next
  case 6 then show ?case by (rule cache_unreferenced)
next
  case 7 then show ?case by (rule block_stepD(2))
next
  case 8 then show ?case by (rule block_stepD(1))
next
  case 9 then show ?case by (rule cache_step_trans)
qed

end
