(* ===== verification/Fs.thy ===== *)
theory Fs
  imports Log
begin

unbundle bit_operations_syntax

text \<open>
  The file system (\<open>kernel/fs.c\<close>, \<open>kernel/fs.h\<close>): disk blocks, inodes, the contents of files,
  directories, and path names. In-memory inodes are named by their index in \<open>itable\<close>; a null
  \<open>struct inode *\<close> is \<open>None\<close> and is tested where the code tests it. Structures on disk are read from
  and written to the bytes of a buffer.
\<close>

section \<open>Structures\<close>

abbreviation (input) NDIRECT :: nat where "NDIRECT \<equiv> 12"
abbreviation (input) NINDIRECT :: nat where "NINDIRECT \<equiv> 256"
abbreviation (input) MAXFILE :: nat where "MAXFILE \<equiv> 268"
abbreviation (input) DIRSIZ :: nat where "DIRSIZ \<equiv> 14"
abbreviation (input) ROOTINO :: uint32 where "ROOTINO \<equiv> 1"
abbreviation (input) FSMAGIC :: uint32 where "FSMAGIC \<equiv> 0x10203040"
abbreviation (input) T_DIR :: uint16 where "T_DIR \<equiv> 1"
abbreviation (input) T_FILE :: uint16 where "T_FILE \<equiv> 2"
abbreviation (input) T_DEVICE :: uint16 where "T_DEVICE \<equiv> 3"

record dinode =
  d_type :: uint16
  d_major :: uint16
  d_minor :: uint16
  d_nlink :: uint16
  d_size :: uint32
  d_addrs :: "uint32 list"

record inode =
  i_dev :: uint32
  i_inum :: uint32
  i_ref :: int
  i_valid :: bool
  i_type :: uint16
  i_major :: uint16
  i_minor :: uint16
  i_nlink :: uint16
  i_size :: uint32
  i_addrs :: "uint32 list"

record stat =
  st_dev :: uint32
  st_ino :: uint32
  st_type :: uint16
  st_nlink :: uint16
  st_size :: uint64

record itable = logst +
  sb :: superblock
  inodes :: "nat \<Rightarrow> inode"

definition upd_inode :: "nat \<Rightarrow> (inode \<Rightarrow> inode) \<Rightarrow> ('a) itable_scheme \<Rightarrow> ('a) itable_scheme" where
  "upd_inode ip f s = s\<lparr>inodes := (inodes s)(ip := f (inodes s ip))\<rparr>"

definition dinode_bytes :: "dinode \<Rightarrow> uint8 list" where
  "dinode_bytes d = le_bytes 2 (d_type d) @ le_bytes 2 (d_major d) @ le_bytes 2 (d_minor d) @
     le_bytes 2 (d_nlink d) @ le_bytes 4 (d_size d) @ concat (map (le_bytes 4) (d_addrs d))"

definition get_dinode :: "nat \<Rightarrow> uint8 list \<Rightarrow> dinode" where
  "get_dinode off data = \<lparr>d_type = get_le 2 off data, d_major = get_le 2 (off + 2) data,
     d_minor = get_le 2 (off + 4) data, d_nlink = get_le 2 (off + 6) data, d_size = get_le 4 (off + 8) data,
     d_addrs = map (\<lambda>i. get_le 4 (off + 12 + 4 * i) data) [0..<NDIRECT + 1]\<rparr>"

definition dinode_zero :: dinode where
  "dinode_zero = \<lparr>d_type = 0, d_major = 0, d_minor = 0, d_nlink = 0, d_size = 0, d_addrs = replicate 13 0\<rparr>"

text \<open>\<open>IBLOCK(i, sb)\<close>, \<open>BBLOCK(b, sb)\<close>, and the offset of inode \<open>i\<close> in its block.\<close>

definition IBLOCK :: "uint32 \<Rightarrow> superblock \<Rightarrow> uint32" where
  "IBLOCK i S = i div 16 + sb_inodestart S"

definition BBLOCK :: "uint32 \<Rightarrow> superblock \<Rightarrow> uint32" where
  "BBLOCK b S = b div 8192 + sb_bmapstart S"

definition dinode_off :: "uint32 \<Rightarrow> nat" where
  "dinode_off inum = 64 * unat (inum mod 16)"

section \<open>Blocks\<close>

definition readsb :: "uint32 \<Rightarrow> ('a) itable_scheme \<Rightarrow> (unit, ('a) itable_scheme) outcome" where
  "readsb dev s =
     obind (bread dev 1 s) (\<lambda>bp s.
     let data = b_data (bufs s bp);
         s = s\<lparr>sb := \<lparr>sb_magic = get_le 4 0 data, sb_size = get_le 4 4 data, sb_nblocks = get_le 4 8 data,
               sb_ninodes = get_le 4 12 data, sb_nlog = get_le 4 16 data, sb_logstart = get_le 4 20 data,
               sb_inodestart = get_le 4 24 data, sb_bmapstart = get_le 4 28 data\<rparr>\<rparr>
     in brelse bp s)"

definition fsinit :: "uint32 \<Rightarrow> ('a) itable_scheme \<Rightarrow> (unit, ('a) itable_scheme) outcome" where
  "fsinit dev s =
     obind (readsb dev s) (\<lambda>_ s.
     if sb_magic (sb s) \<noteq> FSMAGIC then Panic ''invalid file system''
     else initlog dev (sb s) s)"

definition bzero :: "uint32 \<Rightarrow> uint32 \<Rightarrow> ('a) itable_scheme \<Rightarrow> (unit, ('a) itable_scheme) outcome" where
  "bzero dev bno s =
     obind (bread dev bno s) (\<lambda>bp s.
     let s = upd_buf bp (\<lambda>q. q\<lparr>b_data := replicate BSIZE 0\<rparr>) s
     in obind (log_write bp s) (\<lambda>_ s.
        brelse bp s))"

text \<open>
  The inner loop of \<open>balloc\<close> finds the first clear bit \<open>bi\<close> of a bitmap block with \<open>b + bi < sb.size\<close>;
  the outer loop goes over the bitmap blocks, \<open>bs\<close> being the values of \<open>b\<close> to go.
\<close>

definition bitmap_used :: "uint8 list \<Rightarrow> nat \<Rightarrow> bool" where
  "bitmap_used data bi \<longleftrightarrow> (data ! (bi div 8)) AND push_bit (bi mod 8) 1 \<noteq> 0"

definition bitmap_find :: "uint8 list \<Rightarrow> nat \<Rightarrow> nat \<Rightarrow> nat option" where
  "bitmap_find data b sz = find (\<lambda>bi. b + bi < sz \<and> \<not> bitmap_used data bi) [0..<8192]"

definition bitmap_set :: "nat \<Rightarrow> uint8 list \<Rightarrow> uint8 list" where
  "bitmap_set bi data = data[bi div 8 := (data ! (bi div 8)) OR push_bit (bi mod 8) 1]"

definition bitmap_clear :: "nat \<Rightarrow> uint8 list \<Rightarrow> uint8 list" where
  "bitmap_clear bi data = data[bi div 8 := (data ! (bi div 8)) AND NOT (push_bit (bi mod 8) 1)]"

fun balloc_loop :: "uint32 \<Rightarrow> nat list \<Rightarrow> ('a) itable_scheme \<Rightarrow> (uint32, ('a) itable_scheme) outcome" where
  "balloc_loop dev [] s = Panic ''balloc: out of blocks''"
| "balloc_loop dev (b # bs) s =
     obind (bread dev (BBLOCK (of_nat b) (sb s)) s) (\<lambda>bp s.
     case bitmap_find (b_data (bufs s bp)) b (unat (sb_size (sb s))) of
       Some bi \<Rightarrow>
         let s = upd_buf bp (\<lambda>q. q\<lparr>b_data := bitmap_set bi (b_data q)\<rparr>) s
         in obind (log_write bp s) (\<lambda>_ s.
            obind (brelse bp s) (\<lambda>_ s.
            obind (bzero dev (of_nat (b + bi)) s) (\<lambda>_ s.
            Done (of_nat (b + bi)) s)))
     | None \<Rightarrow> obind (brelse bp s) (\<lambda>_ s. balloc_loop dev bs s))"

definition balloc :: "uint32 \<Rightarrow> ('a) itable_scheme \<Rightarrow> (uint32, ('a) itable_scheme) outcome" where
  "balloc dev s =
     balloc_loop dev (map ((*) 8192) [0..<(unat (sb_size (sb s)) + 8191) div 8192]) s"

definition bfree :: "uint32 \<Rightarrow> uint32 \<Rightarrow> ('a) itable_scheme \<Rightarrow> (unit, ('a) itable_scheme) outcome" where
  "bfree dev b s =
     obind (bread dev (BBLOCK b (sb s)) s) (\<lambda>bp s.
     let bi = unat (b mod 8192)
     in if \<not> bitmap_used (b_data (bufs s bp)) bi then Panic ''freeing free block''
        else let s = upd_buf bp (\<lambda>q. q\<lparr>b_data := bitmap_clear bi (b_data q)\<rparr>) s
        in obind (log_write bp s) (\<lambda>_ s.
           brelse bp s))"

section \<open>Inodes\<close>

definition iinit :: "('a) itable_scheme \<Rightarrow> (unit, ('a) itable_scheme) outcome" where
  "iinit s =
     obind (initlock ItableLock ''itable'' s) (\<lambda>_ s.
     ofor [0..<NINODE] (\<lambda>i. initsleeplock (InodeLk i) ''inode'') s)"

text \<open>The loop of \<open>iget\<close>: the entry that holds the inode, or else the first empty entry.\<close>

definition iget_find :: "uint32 \<Rightarrow> uint32 \<Rightarrow> (nat \<Rightarrow> inode) \<Rightarrow> nat option" where
  "iget_find dev inum I = find (\<lambda>i. i_ref (I i) > 0 \<and> i_dev (I i) = dev \<and> i_inum (I i) = inum) [0..<NINODE]"

definition iget_empty :: "(nat \<Rightarrow> inode) \<Rightarrow> nat option" where
  "iget_empty I = find (\<lambda>i. i_ref (I i) = 0) [0..<NINODE]"

definition iget :: "uint32 \<Rightarrow> uint32 \<Rightarrow> ('a) itable_scheme \<Rightarrow> (nat, ('a) itable_scheme) outcome" where
  "iget dev inum s =
     obind (acquire ItableLock s) (\<lambda>_ s.
     case iget_find dev inum (inodes s) of
       Some ip \<Rightarrow>
         let s = upd_inode ip (\<lambda>q. q\<lparr>i_ref := i_ref q + 1\<rparr>) s
         in obind (release ItableLock s) (\<lambda>_ s. Done ip s)
     | None \<Rightarrow>
         (case iget_empty (inodes s) of
            None \<Rightarrow> Panic ''iget: no inodes''
          | Some ip \<Rightarrow>
              let s = upd_inode ip (\<lambda>q. q\<lparr>i_dev := dev, i_inum := inum, i_ref := 1, i_valid := False\<rparr>) s
              in obind (release ItableLock s) (\<lambda>_ s. Done ip s)))"

fun ialloc_loop :: "uint32 \<Rightarrow> uint16 \<Rightarrow> nat list \<Rightarrow> ('a) itable_scheme \<Rightarrow> (nat, ('a) itable_scheme) outcome" where
  "ialloc_loop dev type [] s = Panic ''ialloc: no inodes''"
| "ialloc_loop dev type (i # is) s =
     (let inum = (of_nat i :: uint32)
      in obind (bread dev (IBLOCK inum (sb s)) s) (\<lambda>bp s.
      if d_type (get_dinode (dinode_off inum) (b_data (bufs s bp))) = 0
      then let s = upd_buf bp (\<lambda>q. q\<lparr>b_data := splice (dinode_off inum)
                     (dinode_bytes (dinode_zero\<lparr>d_type := type\<rparr>)) (b_data q)\<rparr>) s
           in obind (log_write bp s) (\<lambda>_ s.
              obind (brelse bp s) (\<lambda>_ s.
              iget dev inum s))
      else obind (brelse bp s) (\<lambda>_ s. ialloc_loop dev type is s)))"

definition ialloc :: "uint32 \<Rightarrow> uint16 \<Rightarrow> ('a) itable_scheme \<Rightarrow> (nat, ('a) itable_scheme) outcome" where
  "ialloc dev type s = ialloc_loop dev type [1..<unat (sb_ninodes (sb s))] s"

definition dinode_of :: "inode \<Rightarrow> dinode" where
  "dinode_of q = \<lparr>d_type = i_type q, d_major = i_major q, d_minor = i_minor q, d_nlink = i_nlink q,
     d_size = i_size q, d_addrs = i_addrs q\<rparr>"

definition iupdate :: "nat \<Rightarrow> ('a) itable_scheme \<Rightarrow> (unit, ('a) itable_scheme) outcome" where
  "iupdate ip s =
     obind (bread (i_dev (inodes s ip)) (IBLOCK (i_inum (inodes s ip)) (sb s)) s) (\<lambda>bp s.
     let s = upd_buf bp (\<lambda>q. q\<lparr>b_data := splice (dinode_off (i_inum (inodes s ip)))
               (dinode_bytes (dinode_of (inodes s ip))) (b_data q)\<rparr>) s
     in obind (log_write bp s) (\<lambda>_ s.
        brelse bp s))"

definition idup :: "nat \<Rightarrow> ('a) itable_scheme \<Rightarrow> (nat, ('a) itable_scheme) outcome" where
  "idup ip s =
     obind (acquire ItableLock s) (\<lambda>_ s.
     let s = upd_inode ip (\<lambda>q. q\<lparr>i_ref := i_ref q + 1\<rparr>) s
     in obind (release ItableLock s) (\<lambda>_ s. Done ip s))"

definition load_dinode :: "dinode \<Rightarrow> inode \<Rightarrow> inode" where
  "load_dinode d q = q\<lparr>i_type := d_type d, i_major := d_major d, i_minor := d_minor d,
     i_nlink := d_nlink d, i_size := d_size d, i_addrs := d_addrs d\<rparr>"

definition ilock :: "nat \<Rightarrow> ('a) itable_scheme \<Rightarrow> (unit, ('a) itable_scheme) outcome" where
  "ilock ip s =
     (if i_ref (inodes s ip) < 1 then Panic ''ilock''
      else obind (acquiresleep (InodeLk ip) s) (\<lambda>_ s.
      if \<not> i_valid (inodes s ip)
      then obind (bread (i_dev (inodes s ip)) (IBLOCK (i_inum (inodes s ip)) (sb s)) s) (\<lambda>bp s.
           let d = get_dinode (dinode_off (i_inum (inodes s ip))) (b_data (bufs s bp));
               s = upd_inode ip (load_dinode d) s
           in obind (brelse bp s) (\<lambda>_ s.
              let s = upd_inode ip (\<lambda>q. q\<lparr>i_valid := True\<rparr>) s
              in if i_type (inodes s ip) = 0 then Panic ''ilock: no type'' else Done () s))
      else Done () s))"

definition iunlock :: "nat \<Rightarrow> ('a) itable_scheme \<Rightarrow> (unit, ('a) itable_scheme) outcome" where
  "iunlock ip s =
     obind (holdingsleep (InodeLk ip) s) (\<lambda>h s.
     if \<not> h \<or> i_ref (inodes s ip) < 1 then Panic ''iunlock''
     else releasesleep (InodeLk ip) s)"

definition itrunc :: "nat \<Rightarrow> ('a) itable_scheme \<Rightarrow> (unit, ('a) itable_scheme) outcome" where
  "itrunc ip s =
     obind (ofor [0..<NDIRECT] (\<lambda>i s.
       if i_addrs (inodes s ip) ! i \<noteq> 0
       then obind (bfree (i_dev (inodes s ip)) (i_addrs (inodes s ip) ! i) s) (\<lambda>_ s.
            Done () (upd_inode ip (\<lambda>q. q\<lparr>i_addrs := (i_addrs q)[i := 0]\<rparr>) s))
       else Done () s) s) (\<lambda>_ s.
     obind (if i_addrs (inodes s ip) ! NDIRECT \<noteq> 0
       then obind (bread (i_dev (inodes s ip)) (i_addrs (inodes s ip) ! NDIRECT) s) (\<lambda>bp s.
            obind (ofor [0..<NINDIRECT] (\<lambda>j s.
              let a = (get_le 4 (4 * j) (b_data (bufs s bp)) :: uint32)
              in if a \<noteq> 0 then bfree (i_dev (inodes s ip)) a s else Done () s) s) (\<lambda>_ s.
            obind (brelse bp s) (\<lambda>_ s.
            obind (bfree (i_dev (inodes s ip)) (i_addrs (inodes s ip) ! NDIRECT) s) (\<lambda>_ s.
            Done () (upd_inode ip (\<lambda>q. q\<lparr>i_addrs := (i_addrs q)[NDIRECT := 0]\<rparr>) s)))))
       else Done () s) (\<lambda>_ s.
     let s = upd_inode ip (\<lambda>q. q\<lparr>i_size := 0\<rparr>) s
     in iupdate ip s))"

definition iput :: "nat \<Rightarrow> ('a) itable_scheme \<Rightarrow> (unit, ('a) itable_scheme) outcome" where
  "iput ip s =
     obind (acquire ItableLock s) (\<lambda>_ s.
     obind (if i_ref (inodes s ip) = 1 \<and> i_valid (inodes s ip) \<and> i_nlink (inodes s ip) = 0
       then obind (acquiresleep (InodeLk ip) s) (\<lambda>_ s.
            obind (release ItableLock s) (\<lambda>_ s.
            obind (itrunc ip s) (\<lambda>_ s.
            let s = upd_inode ip (\<lambda>q. q\<lparr>i_type := 0\<rparr>) s
            in obind (iupdate ip s) (\<lambda>_ s.
            let s = upd_inode ip (\<lambda>q. q\<lparr>i_valid := False\<rparr>) s
            in obind (releasesleep (InodeLk ip) s) (\<lambda>_ s.
               acquire ItableLock s)))))
       else Done () s) (\<lambda>_ s.
     let s = upd_inode ip (\<lambda>q. q\<lparr>i_ref := i_ref q - 1\<rparr>) s
     in release ItableLock s))"

definition iunlockput :: "nat \<Rightarrow> ('a) itable_scheme \<Rightarrow> (unit, ('a) itable_scheme) outcome" where
  "iunlockput ip s = obind (iunlock ip s) (\<lambda>_ s. iput ip s)"

section \<open>Contents\<close>

definition bmap :: "nat \<Rightarrow> uint32 \<Rightarrow> ('a) itable_scheme \<Rightarrow> (uint32, ('a) itable_scheme) outcome" where
  "bmap ip bn s =
     (if bn < 12
      then let addr = i_addrs (inodes s ip) ! unat bn
           in if addr = 0
              then obind (balloc (i_dev (inodes s ip)) s) (\<lambda>addr s.
                   Done addr (upd_inode ip (\<lambda>q. q\<lparr>i_addrs := (i_addrs q)[unat bn := addr]\<rparr>) s))
              else Done addr s
      else let bn = bn - 12
      in if bn < 256
      then obind (let addr = i_addrs (inodes s ip) ! NDIRECT
             in if addr = 0
                then obind (balloc (i_dev (inodes s ip)) s) (\<lambda>addr s.
                     Done addr (upd_inode ip (\<lambda>q. q\<lparr>i_addrs := (i_addrs q)[NDIRECT := addr]\<rparr>) s))
                else Done addr s) (\<lambda>addr s.
           obind (bread (i_dev (inodes s ip)) addr s) (\<lambda>bp s.
           let addr = (get_le 4 (4 * unat bn) (b_data (bufs s bp)) :: uint32)
           in obind (if addr = 0
                     then obind (balloc (i_dev (inodes s ip)) s) (\<lambda>addr s.
                          let s = upd_buf bp (\<lambda>q. q\<lparr>b_data := splice (4 * unat bn) (le_bytes 4 addr) (b_data q)\<rparr>) s
                          in obind (log_write bp s) (\<lambda>_ s. Done addr s))
                     else Done addr s) (\<lambda>addr s.
              obind (brelse bp s) (\<lambda>_ s. Done addr s))))
      else Panic ''bmap: out of range'')"

definition stati :: "nat \<Rightarrow> ('a) itable_scheme \<Rightarrow> stat" where
  "stati ip s = \<lparr>st_dev = i_dev (inodes s ip), st_ino = i_inum (inodes s ip), st_type = i_type (inodes s ip),
     st_nlink = i_nlink (inodes s ip), st_size = ucast (i_size (inodes s ip))\<rparr>"

text \<open>\<open>min(n - tot, BSIZE - off%BSIZE)\<close>\<close>

definition io_chunk :: "uint32 \<Rightarrow> uint32 \<Rightarrow> uint32" where
  "io_chunk left off = (if left < 1024 - off mod 1024 then left else 1024 - off mod 1024)"

lemma io_chunk_bounds:
  assumes "0 < left"
  shows "0 < io_chunk left off" and "io_chunk left off \<le> left"
proof -
  have "off mod 1024 < (1024 :: uint32)" by (simp add: word_less_nat_alt unat_mod)
  then have "0 < 1024 - off mod 1024" by (simp add: word_less_nat_alt unat_sub word_le_nat_alt)
  with assms show "0 < io_chunk left off" "io_chunk left off \<le> left" by (auto simp: io_chunk_def)
qed

lemma io_chunk_decreases: "tot < n \<Longrightarrow> unat (n - (tot + io_chunk (n - tot) off)) < unat (n - tot)"
proof -
  assume "tot < n"
  then have "0 < n - tot" by (simp add: word_gt_0)
  note b = io_chunk_bounds [OF this, of off]
  have "n - (tot + io_chunk (n - tot) off) = (n - tot) - io_chunk (n - tot) off" by simp
  then have "unat (n - (tot + io_chunk (n - tot) off)) = unat (n - tot) - unat (io_chunk (n - tot) off)"
    using unat_sub [OF b(2)] by metis
  moreover have "0 < unat (io_chunk (n - tot) off)" "0 < unat (n - tot)"
    using b \<open>0 < n - tot\<close> by (simp_all only: word_less_nat_alt unat_0)
  ultimately show ?thesis by linarith
qed

text \<open>
  The loop of \<open>readi\<close>. The result is \<open>tot\<close> together with the bytes that were copied, which are what a
  local destination receives.
\<close>

function readi_loop :: "nat \<Rightarrow> dst_addr \<Rightarrow> uint32 \<Rightarrow> uint32 \<Rightarrow> uint32 \<Rightarrow> ('a) itable_scheme \<Rightarrow> (uint32 \<times> uint8 list, ('a) itable_scheme) outcome" where
  "readi_loop ip dst off tot n s =
     (if tot < n
      then obind (bmap ip (off div 1024) s) (\<lambda>bno s.
           obind (bread (i_dev (inodes s ip)) bno s) (\<lambda>bp s.
           let m = io_chunk (n - tot) off;
               bs = take (unat m) (drop (unat (off mod 1024)) (b_data (bufs s bp)))
           in obind (either_copyout dst bs (ucast m) s) (\<lambda>r s.
              if r = -1 then obind (brelse bp s) (\<lambda>_ s. Done (-1, []) s)
              else obind (brelse bp s) (\<lambda>_ s.
                   obind (readi_loop ip (dst_add dst (ucast m)) (off + m) (tot + m) n s) (\<lambda>(r, rest) s.
                   Done (r, bs @ rest) s)))))
      else Done (tot, []) s)"
  by pat_completeness auto
termination
  by (relation "measure (\<lambda>(_, _, _, tot, n, _). unat (n - tot))") (simp_all add: io_chunk_decreases)

declare readi_loop.simps [simp del]

definition readi :: "nat \<Rightarrow> dst_addr \<Rightarrow> uint32 \<Rightarrow> uint32 \<Rightarrow> ('a) itable_scheme \<Rightarrow> (uint32 \<times> uint8 list, ('a) itable_scheme) outcome" where
  "readi ip dst off n s =
     (if off > i_size (inodes s ip) \<or> off + n < off then Done (0, []) s
      else let n = (if off + n > i_size (inodes s ip) then i_size (inodes s ip) - off else n)
           in readi_loop ip dst off 0 n s)"

text \<open>
  The loop of \<open>writei\<close>, with \<open>tot\<close> and \<open>off\<close> at its end. A copy that fails may have changed the
  first bytes of the cached block.
\<close>

function writei_loop :: "nat \<Rightarrow> src_addr \<Rightarrow> uint32 \<Rightarrow> uint32 \<Rightarrow> uint32 \<Rightarrow> ('a) itable_scheme \<Rightarrow> (uint32 \<times> uint32, ('a) itable_scheme) outcome" where
  "writei_loop ip src off tot n s =
     (if tot < n
      then obind (bmap ip (off div 1024) s) (\<lambda>bno s.
           obind (bread (i_dev (inodes s ip)) bno s) (\<lambda>bp s.
           let m = io_chunk (n - tot) off
           in obind (either_copyin src (ucast m) s) (\<lambda>(r, bs) s.
              let s = upd_buf bp (\<lambda>q. q\<lparr>b_data := splice (unat (off mod 1024)) bs (b_data q)\<rparr>) s
              in if r = -1 then obind (brelse bp s) (\<lambda>_ s. Done (tot, off) s)
                 else obind (log_write bp s) (\<lambda>_ s.
                      obind (brelse bp s) (\<lambda>_ s.
                      writei_loop ip (src_add src (ucast m)) (off + m) (tot + m) n s)))))
      else Done (tot, off) s)"
  by pat_completeness auto
termination
  by (relation "measure (\<lambda>(_, _, _, tot, n, _). unat (n - tot))") (simp_all add: io_chunk_decreases)

declare writei_loop.simps [simp del]

definition writei :: "nat \<Rightarrow> src_addr \<Rightarrow> uint32 \<Rightarrow> uint32 \<Rightarrow> ('a) itable_scheme \<Rightarrow> (uint32, ('a) itable_scheme) outcome" where
  "writei ip src off n s =
     (if off > i_size (inodes s ip) \<or> off + n < off then Done (-1) s
      else if off + n > of_nat (MAXFILE * BSIZE) then Done (-1) s
      else obind (writei_loop ip src off 0 n s) (\<lambda>(tot, off) s.
           let s = (if off > i_size (inodes s ip) then upd_inode ip (\<lambda>q. q\<lparr>i_size := off\<rparr>) s else s)
           in obind (iupdate ip s) (\<lambda>_ s. Done tot s)))"

section \<open>Directories\<close>

text \<open>A directory entry is 16 bytes: a 2-byte inode number and the name.\<close>

definition de_inum :: "uint8 list \<Rightarrow> uint16" where
  "de_inum de = get_le 2 0 de"

definition de_name :: "uint8 list \<Rightarrow> uint8 list" where
  "de_name de = drop 2 de"

definition namecmp :: "uint8 list \<Rightarrow> uint8 list \<Rightarrow> int option" where
  "namecmp s t = strncmp s t DIRSIZ"

lemma readi_no_wrap:
  assumes "readi ip dst off 16 s = Done (16, bs) t"
  shows "unat (off + 16) = unat off + 16"
proof -
  have "\<not> off + 16 < off"
    using assms by (auto simp: readi_def split: if_splits)
  then have le: "unat off \<le> (unat off + 16) mod 4294967296"
    by (simp add: word_less_nat_alt unat_word_ariths not_less)
  moreover have "unat off < 4294967296" using unsigned_less [of off, where 'a = nat] by simp
  ultimately have "unat off + 16 < 4294967296"
    by (cases "unat off + 16 < 4294967296") (auto simp: le_mod_geq)
  then show ?thesis by (simp add: unat_word_ariths)
qed

text \<open>The entry found, and its offset.\<close>

function dirlookup_loop :: "nat \<Rightarrow> uint8 list \<Rightarrow> uint32 \<Rightarrow> ('a) itable_scheme \<Rightarrow> ((nat \<times> uint32) option, ('a) itable_scheme) outcome" where
  "dirlookup_loop dp name off s =
     (if off < i_size (inodes s dp)
      then obind (readi dp LocalDst off 16 s) (\<lambda>(r, de) s.
           if r \<noteq> 16 then Panic ''dirlookup read''
           else if de_inum de \<noteq> 0 \<and> namecmp name (de_name de) = Some 0
           then obind (iget (i_dev (inodes s dp)) (ucast (de_inum de)) s) (\<lambda>ip s. Done (Some (ip, off)) s)
           else dirlookup_loop dp name (off + 16) s)
      else Done None s)"
  by pat_completeness auto
termination
proof (relation "measure (\<lambda>(_, _, off, _). 4294967296 - unat off)", goal_cases)
  case (2 dp name off s p t r de)
  then have "unat (off + 16) = unat off + 16" using readi_no_wrap by fastforce
  moreover have "unat (off + 16) < 4294967296" using unsigned_less [of "off + 16", where 'a = nat] by simp
  ultimately show ?case by simp
qed simp

declare dirlookup_loop.simps [simp del]

definition dirlookup :: "nat \<Rightarrow> uint8 list \<Rightarrow> ('a) itable_scheme \<Rightarrow> ((nat \<times> uint32) option, ('a) itable_scheme) outcome" where
  "dirlookup dp name s =
     (if i_type (inodes s dp) \<noteq> T_DIR then Panic ''dirlookup not DIR''
      else dirlookup_loop dp name 0 s)"

text \<open>The search of \<open>dirlink\<close> for an empty entry: the offset at which it stops.\<close>

function dirlink_loop :: "nat \<Rightarrow> uint32 \<Rightarrow> ('a) itable_scheme \<Rightarrow> (uint32, ('a) itable_scheme) outcome" where
  "dirlink_loop dp off s =
     (if off < i_size (inodes s dp)
      then obind (readi dp LocalDst off 16 s) (\<lambda>(r, de) s.
           if r \<noteq> 16 then Panic ''dirlink read''
           else if de_inum de = 0 then Done off s
           else dirlink_loop dp (off + 16) s)
      else Done off s)"
  by pat_completeness auto
termination
proof (relation "measure (\<lambda>(_, off, _). 4294967296 - unat off)", goal_cases)
  case (2 dp off s p t r de)
  then have "unat (off + 16) = unat off + 16" using readi_no_wrap by fastforce
  moreover have "unat (off + 16) < 4294967296" using unsigned_less [of "off + 16", where 'a = nat] by simp
  ultimately show ?case by simp
qed simp

declare dirlink_loop.simps [simp del]

text \<open>\<open>de.name\<close> is overwritten completely by \<open>strncpy\<close>; \<open>None\<close> is a name without a NUL that is too short.\<close>

definition dirlink :: "nat \<Rightarrow> uint8 list \<Rightarrow> uint32 \<Rightarrow> ('a) itable_scheme \<Rightarrow> (int, ('a) itable_scheme) outcome" where
  "dirlink dp name inum s =
     obind (dirlookup dp name s) (\<lambda>r s.
     case r of
       Some (ip, _) \<Rightarrow> obind (iput ip s) (\<lambda>_ s. Done (-1) s)
     | None \<Rightarrow>
         obind (dirlink_loop dp 0 s) (\<lambda>off s.
         case strncpy (replicate DIRSIZ 0) name DIRSIZ of
           None \<Rightarrow> Panic ''kerneltrap''
         | Some nm \<Rightarrow>
             obind (writei dp (LocalSrc (le_bytes 2 (ucast inum :: uint16) @ nm)) off 16 s) (\<lambda>r s.
             if r \<noteq> 16 then Panic ''dirlink'' else Done 0 s)))"

section \<open>Paths\<close>

text \<open>
  A path is the list of its bytes before the NUL; 47 is the slash. \<open>skipelem\<close> gives the rest of the
  path and the new content of the buffer \<open>name\<close>.
\<close>

definition skip_slashes :: "uint8 list \<Rightarrow> uint8 list" where
  "skip_slashes path = dropWhile (\<lambda>c. c = 47) path"

definition skipelem :: "uint8 list \<Rightarrow> uint8 list \<Rightarrow> (uint8 list \<times> uint8 list) option" where
  "skipelem path name =
     (let s = skip_slashes path
      in if s = [] then None
         else let el = takeWhile (\<lambda>c. c \<noteq> 47) s;
                  path = dropWhile (\<lambda>c. c \<noteq> 47) s;
                  len = length el;
                  name = (if len \<ge> DIRSIZ then splice 0 (take DIRSIZ el) name
                          else splice 0 (el @ [0]) name)
              in Some (skip_slashes path, name))"

lemma skipelem_shorter:
  assumes "skipelem path name = Some (path', name')"
  shows "length path' < length path"
proof -
  let ?s = "skip_slashes path"
  from assms have ne: "?s \<noteq> []" and p: "path' = skip_slashes (dropWhile (\<lambda>c. c \<noteq> 47) ?s)"
    by (auto simp: skipelem_def Let_def split: if_splits)
  from ne have "hd ?s \<noteq> 47" unfolding skip_slashes_def by (rule hd_dropWhile)
  with ne have "length (dropWhile (\<lambda>c. c \<noteq> 47) ?s) < length ?s"
    by (cases ?s) (auto simp: le_imp_less_Suc length_dropWhile_le)
  moreover have "length path' \<le> length (dropWhile (\<lambda>c. c \<noteq> 47) ?s)" "length ?s \<le> length path"
    unfolding p skip_slashes_def by (rule length_dropWhile_le)+
  ultimately show ?thesis by simp
qed

function namex_loop :: "nat \<Rightarrow> uint8 list \<Rightarrow> bool \<Rightarrow> uint8 list \<Rightarrow> ('a) itable_scheme \<Rightarrow> (nat option \<times> uint8 list, ('a) itable_scheme) outcome" where
  "namex_loop ip path nameiparent name s =
     (case skipelem path name of
        None \<Rightarrow>
          if nameiparent then obind (iput ip s) (\<lambda>_ s. Done (None, name) s)
          else Done (Some ip, name) s
      | Some (path, name) \<Rightarrow>
          obind (ilock ip s) (\<lambda>_ s.
          if i_type (inodes s ip) \<noteq> T_DIR then obind (iunlockput ip s) (\<lambda>_ s. Done (None, name) s)
          else if nameiparent \<and> path = [] then obind (iunlock ip s) (\<lambda>_ s. Done (Some ip, name) s)
          else obind (dirlookup ip name s) (\<lambda>r s.
            case r of
              None \<Rightarrow> obind (iunlockput ip s) (\<lambda>_ s. Done (None, name) s)
            | Some (next, _) \<Rightarrow> obind (iunlockput ip s) (\<lambda>_ s. namex_loop next path nameiparent name s))))"
  by pat_completeness auto
termination
  by (relation "measure (\<lambda>(_, path, _). length path)") (auto dest: skipelem_shorter)

declare namex_loop.simps [simp del]

definition namex :: "uint8 list \<Rightarrow> bool \<Rightarrow> uint8 list \<Rightarrow> ('a) itable_scheme \<Rightarrow> (nat option \<times> uint8 list, ('a) itable_scheme) outcome" where
  "namex path nameiparent name s =
     obind (if take 1 path = [47] then iget ROOTDEV ROOTINO s
            else obind (myproc s) (\<lambda>p. deref p (\<lambda>p s. deref (p_cwd (procs s p)) (\<lambda>cwd s. idup cwd s) s))) (\<lambda>ip s.
     namex_loop ip path nameiparent name s)"

definition namei :: "uint8 list \<Rightarrow> ('a) itable_scheme \<Rightarrow> (nat option, ('a) itable_scheme) outcome" where
  "namei path s = obind (namex path False (replicate DIRSIZ 0) s) (\<lambda>(ip, name) s. Done ip s)"

definition nameiparent :: "uint8 list \<Rightarrow> uint8 list \<Rightarrow> ('a) itable_scheme \<Rightarrow> (nat option \<times> uint8 list, ('a) itable_scheme) outcome" where
  "nameiparent path name s = namex path True name s"

end
