(* ===== verification/Pipe.thy ===== *)
theory Pipe
  imports Fs
begin

text \<open>
  Pipes (\<open>kernel/pipe.c\<close>). A \<open>struct pipe\<close> fills a page from \<open>kalloc\<close>, and its address is that page's;
  its fields are kept in \<open>pipes\<close> instead of in the bytes of the page. \<open>pipealloc\<close> is in the
  theory of files, which it calls.
\<close>

abbreviation (input) PIPESIZE :: nat where "PIPESIZE \<equiv> 512"

record pipe =
  pi_data :: "nat \<Rightarrow> uint8"
  pi_nread :: uint32
  pi_nwrite :: uint32
  pi_readopen :: bool
  pi_writeopen :: bool

record pipest = itable +
  pipes :: "uint64 \<Rightarrow> pipe"

definition upd_pipe :: "uint64 \<Rightarrow> (pipe \<Rightarrow> pipe) \<Rightarrow> ('a) pipest_scheme \<Rightarrow> ('a) pipest_scheme" where
  "upd_pipe pi f s = s\<lparr>pipes := (pipes s)(pi := f (pipes s pi))\<rparr>"

text \<open>\<open>pi->data[pi->nwrite++ % PIPESIZE] = ch;\<close> and \<open>ch = pi->data[pi->nread++ % PIPESIZE];\<close>\<close>

definition pipe_put :: "uint8 \<Rightarrow> pipe \<Rightarrow> pipe" where
  "pipe_put ch q = q\<lparr>pi_data := (pi_data q)(unat (pi_nwrite q) mod PIPESIZE := ch), pi_nwrite := pi_nwrite q + 1\<rparr>"

definition pipe_take :: "pipe \<Rightarrow> uint8 \<times> pipe" where
  "pipe_take q = (pi_data q (unat (pi_nread q) mod PIPESIZE), q\<lparr>pi_nread := pi_nread q + 1\<rparr>)"

section \<open>Operations\<close>

definition pipeclose :: "uint64 \<Rightarrow> bool \<Rightarrow> ('a) pipest_scheme \<Rightarrow> (unit, ('a) pipest_scheme) outcome" where
  "pipeclose pi writable s =
     obind (acquire (PipeLock pi) s) (\<lambda>_ s.
     obind (if writable
            then wakeup (Some (ChNread pi)) (upd_pipe pi (\<lambda>q. q\<lparr>pi_writeopen := False\<rparr>) s)
            else wakeup (Some (ChNwrite pi)) (upd_pipe pi (\<lambda>q. q\<lparr>pi_readopen := False\<rparr>) s)) (\<lambda>_ s.
     if \<not> pi_readopen (pipes s pi) \<and> \<not> pi_writeopen (pipes s pi)
     then obind (release (PipeLock pi) s) (\<lambda>_ s. kfree pi s)
     else release (PipeLock pi) s))"

text \<open>
  The loop of \<open>pipewrite\<close> with \<open>n - i\<close> bytes to go. \<open>None\<close>: it has released the lock and \<open>pipewrite\<close>
  returns -1; \<open>Some i\<close>: the loop has ended with this \<open>i\<close>.
\<close>

function pipewrite_loop :: "uint64 \<Rightarrow> nat \<Rightarrow> uint64 \<Rightarrow> int \<Rightarrow> int \<Rightarrow> ('a) pipest_scheme \<Rightarrow> (int option, ('a) pipest_scheme) outcome" where
  "pipewrite_loop pi pr addr i n s =
     (if i < n
      then if \<not> pi_readopen (pipes s pi) \<or> p_killed (procs s pr) \<noteq> 0
           then obind (release (PipeLock pi) s) (\<lambda>_ s. Done None s)
           else if pi_nwrite (pipes s pi) = pi_nread (pipes s pi) + 512
           then obind (wakeup (Some (ChNread pi)) s) (\<lambda>_ s.
                obind (sleep (ChNwrite pi) (PipeLock pi) s) (\<lambda>_ s.
                pipewrite_loop pi pr addr i n s))
           else obind (copyin (p_pagetable (procs s pr)) (addr + of_int i) 1 s) (\<lambda>(r, bs) s.
                if r = -1 then Done (Some i) s
                else pipewrite_loop pi pr addr (i + 1) n (upd_pipe pi (pipe_put (hd bs)) s))
      else Done (Some i) s)"
  by pat_completeness auto
termination by (relation "measure (\<lambda>(_, _, _, i, n, _). nat (n - i))") auto

declare pipewrite_loop.simps [simp del]

definition pipewrite :: "uint64 \<Rightarrow> uint64 \<Rightarrow> uint32 \<Rightarrow> ('a) pipest_scheme \<Rightarrow> (int, ('a) pipest_scheme) outcome" where
  "pipewrite pi addr n s =
     obind (myproc s) (\<lambda>pr s.
     obind (acquire (PipeLock pi) s) (\<lambda>_. deref pr (\<lambda>pr s.
     obind (pipewrite_loop pi pr addr 0 (sint n) s) (\<lambda>r s.
     case r of
       None \<Rightarrow> Done (-1) s
     | Some i \<Rightarrow> obind (wakeup (Some (ChNread pi)) s) (\<lambda>_ s.
                 obind (release (PipeLock pi) s) (\<lambda>_ s. Done i s))))))"

text \<open>\<open>while(pi->nread == pi->nwrite && pi->writeopen)\<close>; \<open>False\<close>: \<open>piperead\<close> returns -1.\<close>

function piperead_wait :: "uint64 \<Rightarrow> nat \<Rightarrow> ('a) pipest_scheme \<Rightarrow> (bool, ('a) pipest_scheme) outcome" where
  "piperead_wait pi pr s =
     (if pi_nread (pipes s pi) = pi_nwrite (pipes s pi) \<and> pi_writeopen (pipes s pi)
      then if p_killed (procs s pr) \<noteq> 0 then obind (release (PipeLock pi) s) (\<lambda>_ s. Done False s)
           else obind (sleep (ChNread pi) (PipeLock pi) s) (\<lambda>_ s. piperead_wait pi pr s)
      else Done True s)"
  by pat_completeness auto
termination by (relation "{}") simp_all

declare piperead_wait.simps [simp del]

text \<open>\<open>for(i = 0; i < n; i++)\<close> with \<open>k\<close> bytes to go.\<close>

fun piperead_loop :: "uint64 \<Rightarrow> nat \<Rightarrow> uint64 \<Rightarrow> nat \<Rightarrow> nat \<Rightarrow> ('a) pipest_scheme \<Rightarrow> (int, ('a) pipest_scheme) outcome" where
  "piperead_loop pi pr addr i 0 s = Done (int i) s"
| "piperead_loop pi pr addr i (Suc k) s =
     (if pi_nread (pipes s pi) = pi_nwrite (pipes s pi) then Done (int i) s
      else let (ch, q) = pipe_take (pipes s pi);
               s = upd_pipe pi (\<lambda>_. q) s
      in obind (copyout (p_pagetable (procs s pr)) (addr + of_nat i) [ch] 1 s) (\<lambda>r s.
         if r = -1 then Done (int i) s else piperead_loop pi pr addr (Suc i) k s))"

definition piperead :: "uint64 \<Rightarrow> uint64 \<Rightarrow> uint32 \<Rightarrow> ('a) pipest_scheme \<Rightarrow> (int, ('a) pipest_scheme) outcome" where
  "piperead pi addr n s =
     obind (myproc s) (\<lambda>pr s.
     obind (acquire (PipeLock pi) s) (\<lambda>_. deref pr (\<lambda>pr s.
     obind (piperead_wait pi pr s) (\<lambda>ok s.
     if \<not> ok then Done (-1) s
     else obind (piperead_loop pi pr addr 0 (nat (sint n)) s) (\<lambda>i s.
          obind (wakeup (Some (ChNwrite pi)) s) (\<lambda>_ s.
          obind (release (PipeLock pi) s) (\<lambda>_ s. Done i s)))))))"

end
