(* ===== verification/File.thy ===== *)
theory File
  imports Pipe
begin

text \<open>
  Open files (\<open>kernel/file.c\<close>, \<open>kernel/file.h\<close>) and \<open>pipealloc\<close> of \<open>kernel/pipe.c\<close>. A \<open>struct file *\<close> is
  an index into \<open>ftable.file\<close>.
\<close>

datatype fdtype = FD_NONE | FD_PIPE | FD_INODE | FD_DEVICE

record kfile =
  f_type :: fdtype
  f_ref :: int
  f_readable :: bool
  f_writable :: bool
  f_pipe :: uint64
  f_ip :: "nat option"
  f_off :: uint32
  f_major :: uint16

record ftable = pipest +
  files :: "nat \<Rightarrow> kfile"

definition upd_file :: "nat \<Rightarrow> (kfile \<Rightarrow> kfile) \<Rightarrow> ('a) ftable_scheme \<Rightarrow> ('a) ftable_scheme" where
  "upd_file f g s = s\<lparr>files := (files s)(f := g (files s f))\<rparr>"

section \<open>References\<close>

definition fileinit :: "('a) ftable_scheme \<Rightarrow> (unit, ('a) ftable_scheme) outcome" where
  "fileinit s = initlock FtableLock ''ftable'' s"

definition filealloc :: "('a) ftable_scheme \<Rightarrow> (nat option, ('a) ftable_scheme) outcome" where
  "filealloc s =
     obind (acquire FtableLock s) (\<lambda>_ s.
     case find (\<lambda>f. f_ref (files s f) = 0) [0..<NFILE] of
       Some f \<Rightarrow>
         let s = upd_file f (\<lambda>q. q\<lparr>f_ref := 1\<rparr>) s
         in obind (release FtableLock s) (\<lambda>_ s. Done (Some f) s)
     | None \<Rightarrow> obind (release FtableLock s) (\<lambda>_ s. Done None s))"

definition filedup :: "nat \<Rightarrow> ('a) ftable_scheme \<Rightarrow> (nat, ('a) ftable_scheme) outcome" where
  "filedup f s =
     obind (acquire FtableLock s) (\<lambda>_ s.
     if f_ref (files s f) < 1 then Panic ''filedup''
     else let s = upd_file f (\<lambda>q. q\<lparr>f_ref := f_ref q + 1\<rparr>) s
          in obind (release FtableLock s) (\<lambda>_ s. Done f s))"

definition fileclose :: "nat \<Rightarrow> ('a) ftable_scheme \<Rightarrow> (unit, ('a) ftable_scheme) outcome" where
  "fileclose f s =
     obind (acquire FtableLock s) (\<lambda>_ s.
     if f_ref (files s f) < 1 then Panic ''fileclose''
     else let s = upd_file f (\<lambda>q. q\<lparr>f_ref := f_ref q - 1\<rparr>) s
     in if f_ref (files s f) > 0 then release FtableLock s
     else let ff = files s f;
              s = upd_file f (\<lambda>q. q\<lparr>f_ref := 0, f_type := FD_NONE\<rparr>) s
     in obind (release FtableLock s) (\<lambda>_ s.
        if f_type ff = FD_PIPE then pipeclose (f_pipe ff) (f_writable ff) s
        else if f_type ff = FD_INODE \<or> f_type ff = FD_DEVICE
        then obind (begin_op s) (\<lambda>_ s.
             obind (deref (f_ip ff) iput s) (\<lambda>_ s.
             end_op s))
        else Done () s))"

text \<open>
  The read end and the write end. Whatever fails, \<open>bad\<close> gives back what was taken.
\<close>

definition pipealloc :: "('a) ftable_scheme \<Rightarrow> ((nat \<times> nat) option, ('a) ftable_scheme) outcome" where
  "pipealloc s =
     (let bad = (\<lambda>f0 f1 s.
        obind (case f0 of Some f \<Rightarrow> fileclose f s | None \<Rightarrow> Done () s) (\<lambda>_ s.
        obind (case f1 of Some f \<Rightarrow> fileclose f s | None \<Rightarrow> Done () s) (\<lambda>_ s.
        Done None s)))
      in obind (filealloc s) (\<lambda>r0 s.
      case r0 of
        None \<Rightarrow> bad None None s
      | Some f0 \<Rightarrow>
          obind (filealloc s) (\<lambda>r1 s.
          case r1 of
            None \<Rightarrow> bad (Some f0) None s
          | Some f1 \<Rightarrow>
              obind (kalloc s) (\<lambda>pi s.
              if pi = 0 then bad (Some f0) (Some f1) s
              else let s = upd_pipe pi (\<lambda>q. q\<lparr>pi_readopen := True, pi_writeopen := True, pi_nwrite := 0, pi_nread := 0\<rparr>) s
              in obind (initlock (PipeLock pi) ''pipe'' s) (\<lambda>_ s.
                 let s = upd_file f0 (\<lambda>q. q\<lparr>f_type := FD_PIPE, f_readable := True, f_writable := False, f_pipe := pi\<rparr>) s;
                     s = upd_file f1 (\<lambda>q. q\<lparr>f_type := FD_PIPE, f_readable := False, f_writable := True, f_pipe := pi\<rparr>) s
                 in Done (Some (f0, f1)) s)))))"

section \<open>Reading and writing\<close>

text \<open>
  A \<open>struct stat\<close> in memory: four bytes of padding, given as \<open>pad\<close>, precede the size.
\<close>

definition stat_bytes :: "uint8 list \<Rightarrow> stat \<Rightarrow> uint8 list" where
  "stat_bytes pad st = le_bytes 4 (st_dev st) @ le_bytes 4 (st_ino st) @ le_bytes 2 (st_type st) @
     le_bytes 2 (st_nlink st) @ pad @ le_bytes 8 (st_size st)"

definition filestat :: "uint8 list \<Rightarrow> nat \<Rightarrow> uint64 \<Rightarrow> ('a) ftable_scheme \<Rightarrow> (int, ('a) ftable_scheme) outcome" where
  "filestat pad f addr s =
     obind (myproc s) (\<lambda>p s.
     if f_type (files s f) = FD_INODE \<or> f_type (files s f) = FD_DEVICE
     then deref (f_ip (files s f)) (\<lambda>ip s.
          obind (ilock ip s) (\<lambda>_ s.
          let st = stati ip s
          in obind (iunlock ip s) (\<lambda>_. deref p (\<lambda>p s.
             obind (copyout (p_pagetable (procs s p)) addr (stat_bytes pad st) 24 s) (\<lambda>r s.
             if r < 0 then Done (-1) s else Done 0 s))))) s
     else Done (-1) s)"

definition fileread :: "nat \<Rightarrow> uint64 \<Rightarrow> uint32 \<Rightarrow> ('a) ftable_scheme \<Rightarrow> (int, ('a) ftable_scheme) outcome" where
  "fileread f addr n s =
     (let q = files s f
      in if \<not> f_readable q then Done (-1) s
      else if f_type q = FD_PIPE then piperead (f_pipe q) addr n s
      else if f_type q = FD_DEVICE
      then if sint (f_major q) < 0 \<or> int NDEV \<le> sint (f_major q) then Done (-1) s
           else (case devsw_read s (nat (sint (f_major q))) of
                   None \<Rightarrow> Done (-1) s
                 | Some ConsoleRead \<Rightarrow> consoleread (UserDst addr) n s)
      else if f_type q = FD_INODE
      then deref (f_ip q) (\<lambda>ip s.
           obind (ilock ip s) (\<lambda>_ s.
           obind (readi ip (UserDst addr) (f_off (files s f)) n s) (\<lambda>(r, bs) s.
           let s = (if sint r > 0 then upd_file f (\<lambda>q. q\<lparr>f_off := f_off q + r\<rparr>) s else s)
           in obind (iunlock ip s) (\<lambda>_ s. Done (sint r) s)))) s
      else Panic ''fileread'')"

text \<open>The loop of \<open>filewrite\<close> for an inode, and \<open>i\<close> at its end. \<open>max\<close> is \<open>((10-1-1-2)/2) * 1024\<close>.\<close>

function filewrite_loop :: "nat \<Rightarrow> nat \<Rightarrow> uint64 \<Rightarrow> int \<Rightarrow> int \<Rightarrow> ('a) ftable_scheme \<Rightarrow> (int, ('a) ftable_scheme) outcome" where
  "filewrite_loop f ip addr i n s =
     (if i < n
      then let n1 = min (n - i) 3072
      in obind (begin_op s) (\<lambda>_ s.
         obind (ilock ip s) (\<lambda>_ s.
         obind (writei ip (UserSrc (addr + of_int i)) (f_off (files s f)) (of_int n1) s) (\<lambda>r s.
         let s = (if sint r > 0 then upd_file f (\<lambda>q. q\<lparr>f_off := f_off q + r\<rparr>) s else s)
         in obind (iunlock ip s) (\<lambda>_ s.
            obind (end_op s) (\<lambda>_ s.
            if sint r \<noteq> n1 then Done i s
            else filewrite_loop f ip addr (i + sint r) n s)))))
      else Done i s)"
  by pat_completeness auto
termination by (relation "measure (\<lambda>(_, _, _, i, n, _). nat (n - i))") auto

declare filewrite_loop.simps [simp del]

definition filewrite :: "nat \<Rightarrow> uint64 \<Rightarrow> uint32 \<Rightarrow> ('a) ftable_scheme \<Rightarrow> (int, ('a) ftable_scheme) outcome" where
  "filewrite f addr n s =
     (let q = files s f
      in if \<not> f_writable q then Done (-1) s
      else if f_type q = FD_PIPE then pipewrite (f_pipe q) addr n s
      else if f_type q = FD_DEVICE
      then if sint (f_major q) < 0 \<or> int NDEV \<le> sint (f_major q) then Done (-1) s
           else (case devsw_write s (nat (sint (f_major q))) of
                   None \<Rightarrow> Done (-1) s
                 | Some ConsoleWrite \<Rightarrow> consolewrite (UserSrc addr) n s)
      else if f_type q = FD_INODE
      then deref (f_ip q) (\<lambda>ip s.
           obind (filewrite_loop f ip addr 0 (sint n) s) (\<lambda>i s.
           Done (if i = sint n then sint n else -1) s)) s
      else Panic ''filewrite'')"

end
