(* ===== verification/Exec.thy ===== *)
theory Exec
  imports File
begin

unbundle bit_operations_syntax

text \<open>
  \<open>exec\<close> (\<open>kernel/exec.c\<close>, \<open>kernel/elf.h\<close>): load a program from a file into a new address space, build
  its stack, and switch the process to it. The argument strings are given as the bytes before their
  NUL.
\<close>

section \<open>ELF headers\<close>

abbreviation (input) ELF_MAGIC :: uint32 where "ELF_MAGIC \<equiv> 0x464C457F"
abbreviation (input) ELF_PROG_LOAD :: uint32 where "ELF_PROG_LOAD \<equiv> 1"

record elfhdr =
  elf_magic :: uint32
  elf_elf :: "uint8 list"
  elf_type :: uint16
  elf_machine :: uint16
  elf_version :: uint32
  elf_entry :: uint64
  elf_phoff :: uint64
  elf_shoff :: uint64
  elf_flags :: uint32
  elf_ehsize :: uint16
  elf_phentsize :: uint16
  elf_phnum :: uint16
  elf_shentsize :: uint16
  elf_shnum :: uint16
  elf_shstrndx :: uint16

definition get_elfhdr :: "uint8 list \<Rightarrow> elfhdr" where
  "get_elfhdr bs = \<lparr>elf_magic = get_le 4 0 bs, elf_elf = take 12 (drop 4 bs), elf_type = get_le 2 16 bs,
     elf_machine = get_le 2 18 bs, elf_version = get_le 4 20 bs, elf_entry = get_le 8 24 bs,
     elf_phoff = get_le 8 32 bs, elf_shoff = get_le 8 40 bs, elf_flags = get_le 4 48 bs,
     elf_ehsize = get_le 2 52 bs, elf_phentsize = get_le 2 54 bs, elf_phnum = get_le 2 56 bs,
     elf_shentsize = get_le 2 58 bs, elf_shnum = get_le 2 60 bs, elf_shstrndx = get_le 2 62 bs\<rparr>"

record proghdr =
  ph_type :: uint32
  ph_flags :: uint32
  ph_off :: uint64
  ph_vaddr :: uint64
  ph_paddr :: uint64
  ph_filesz :: uint64
  ph_memsz :: uint64
  ph_align :: uint64

definition get_proghdr :: "uint8 list \<Rightarrow> proghdr" where
  "get_proghdr bs = \<lparr>ph_type = get_le 4 0 bs, ph_flags = get_le 4 4 bs, ph_off = get_le 8 8 bs,
     ph_vaddr = get_le 8 16 bs, ph_paddr = get_le 8 24 bs, ph_filesz = get_le 8 32 bs,
     ph_memsz = get_le 8 40 bs, ph_align = get_le 8 48 bs\<rparr>"

section \<open>Loading segments\<close>

text \<open>
  \<open>is\<close> are the values of \<open>i\<close> to go. In the code \<open>i\<close> is a 32-bit counter that would wrap when \<open>sz\<close> is
  above \<open>2^32 - 4096\<close>; it never gets there, because \<open>readi\<close> does not read across the end of the 32-bit
  offset range.
\<close>

fun loadseg_loop :: "uint64 \<Rightarrow> uint64 \<Rightarrow> nat \<Rightarrow> uint32 \<Rightarrow> uint32 \<Rightarrow> nat list \<Rightarrow> ('a) itable_scheme \<Rightarrow> (int, ('a) itable_scheme) outcome" where
  "loadseg_loop pagetable va ip off sz [] s = Done 0 s"
| "loadseg_loop pagetable va ip off sz (i # is) s =
     obind (walkaddr pagetable (va + of_nat i) s) (\<lambda>pa s.
     if pa = 0 then Panic ''loadseg: address should exist''
     else let n = (if sz - of_nat i < 4096 then sz - of_nat i else 4096)
     in obind (readi ip (KernDst pa) (off + of_nat i) n s) (\<lambda>(r, bs) s.
        if r \<noteq> n then Done (-1) s else loadseg_loop pagetable va ip off sz is s))"

definition loadseg :: "uint64 \<Rightarrow> uint64 \<Rightarrow> nat \<Rightarrow> uint32 \<Rightarrow> uint32 \<Rightarrow> ('a) itable_scheme \<Rightarrow> (int, ('a) itable_scheme) outcome" where
  "loadseg pagetable va ip off sz s =
     loadseg_loop pagetable va ip off sz (map ((*) 4096) [0..<(unat sz + 4095) div 4096]) s"

text \<open>
  The loop over the program headers, \<open>k\<close> of them to go. The result is the size of the address space
  reached, and whether the loop ran to its end rather than into \<open>goto bad\<close>.
\<close>

fun exec_load :: "nat \<Rightarrow> uint64 \<Rightarrow> nat \<Rightarrow> uint32 \<Rightarrow> uint64 \<Rightarrow> ('a) itable_scheme \<Rightarrow> (bool \<times> uint64, ('a) itable_scheme) outcome" where
  "exec_load 0 pagetable ip off sz s = Done (True, sz) s"
| "exec_load (Suc k) pagetable ip off sz s =
     obind (readi ip LocalDst off 56 s) (\<lambda>(r, bs) s.
     if r \<noteq> 56 then Done (False, sz) s
     else let ph = get_proghdr bs
     in if ph_type ph \<noteq> ELF_PROG_LOAD then exec_load k pagetable ip (off + 56) sz s
     else if ph_memsz ph < ph_filesz ph then Done (False, sz) s
     else if ph_vaddr ph + ph_memsz ph < ph_vaddr ph then Done (False, sz) s
     else obind (uvmalloc pagetable sz (ph_vaddr ph + ph_memsz ph) s) (\<lambda>sz1 s.
          if sz1 = 0 then Done (False, sz) s
          else let sz = sz1
          in if ph_vaddr ph mod PGSIZE \<noteq> 0 then Done (False, sz) s
          else obind (loadseg pagetable (ph_vaddr ph) ip (ucast (ph_off ph)) (ucast (ph_filesz ph)) s) (\<lambda>r s.
               if r < 0 then Done (False, sz) s
               else exec_load k pagetable ip (off + 56) sz s)))"

section \<open>The stack\<close>

text \<open>
  Push the argument strings: \<open>Some (sp, ustack)\<close> with the addresses they got, \<open>None\<close> for
  \<open>goto bad\<close>.
\<close>

fun exec_push :: "uint64 \<Rightarrow> uint64 \<Rightarrow> uint8 list list \<Rightarrow> uint64 \<Rightarrow> uint64 list \<Rightarrow> ('a) itable_scheme \<Rightarrow> ((uint64 \<times> uint64 list) option, ('a) itable_scheme) outcome" where
  "exec_push pagetable stackbase [] sp ustack s = Done (Some (sp, ustack)) s"
| "exec_push pagetable stackbase (arg # argv) sp ustack s =
     (if length ustack \<ge> MAXARG then Done None s
      else let sp = sp - (of_nat (length arg) + 1);
               sp = sp - sp mod 16
      in if sp < stackbase then Done None s
      else obind (copyout pagetable sp (arg @ [0]) (of_nat (length arg) + 1) s) (\<lambda>r s.
           if r < 0 then Done None s
           else exec_push pagetable stackbase argv sp (ustack @ [sp]) s))"

text \<open>The file name after the last slash of a path.\<close>

fun path_last :: "uint8 list \<Rightarrow> uint8 list \<Rightarrow> uint8 list" where
  "path_last lst [] = lst"
| "path_last lst (c # s) = path_last (if c = 47 then s else lst) s"

section \<open>exec\<close>

text \<open>The label \<open>bad\<close>.\<close>

definition exec_bad :: "uint64 \<Rightarrow> uint64 \<Rightarrow> nat option \<Rightarrow> ('a) itable_scheme \<Rightarrow> (int, ('a) itable_scheme) outcome" where
  "exec_bad pagetable sz ip s =
     obind (if pagetable \<noteq> 0 then proc_freepagetable pagetable sz s else Done () s) (\<lambda>_ s.
     case ip of
       None \<Rightarrow> Done (-1) s
     | Some ip \<Rightarrow> obind (iunlockput ip s) (\<lambda>_ s. obind (end_op s) (\<lambda>_ s. Done (-1) s)))"

text \<open>From the allocation of the stack to the end. Offsets into the trapframe: \<open>a1\<close> 120, \<open>epc\<close> 24, \<open>sp\<close> 48.\<close>

definition exec_finish :: "uint8 list \<Rightarrow> uint8 list list \<Rightarrow> elfhdr \<Rightarrow> uint64 \<Rightarrow> uint64 \<Rightarrow> nat \<Rightarrow> ('a) itable_scheme \<Rightarrow> (int, ('a) itable_scheme) outcome" where
  "exec_finish path argv elf pagetable sz p s =
     (let oldsz = p_sz (procs s p);
          sz = PGROUNDUP sz
      in obind (uvmalloc pagetable sz (sz + 2 * PGSIZE) s) (\<lambda>sz1 s.
      if sz1 = 0 then exec_bad pagetable sz None s
      else let sz = sz1
      in obind (uvmclear pagetable (sz - 2 * PGSIZE) s) (\<lambda>_ s.
      let sp = sz; stackbase = sp - PGSIZE
      in obind (exec_push pagetable stackbase argv sp [] s) (\<lambda>r s.
      case r of
        None \<Rightarrow> exec_bad pagetable sz None s
      | Some (sp, ustack) \<Rightarrow>
          let argc = (of_nat (length ustack) :: uint64);
              sp = sp - (argc + 1) * 8;
              sp = sp - sp mod 16
          in if sp < stackbase then exec_bad pagetable sz None s
          else obind (copyout pagetable sp (concat (map (le_bytes 8) (ustack @ [0]))) ((argc + 1) * 8) s) (\<lambda>r s.
          if r < 0 then exec_bad pagetable sz None s
          else let tf = p_trapframe (procs s p);
                   s = s\<lparr>mem := store64 (mem s) (tf + 120) sp\<rparr>
          in case safestrcpy (p_name (procs s p)) (path_last path path @ [0]) 16 of
               None \<Rightarrow> Panic ''kerneltrap''
             | Some name \<Rightarrow>
                 let s = upd_proc p (\<lambda>q. q\<lparr>p_name := name\<rparr>) s;
                     oldpagetable = p_pagetable (procs s p);
                     s = upd_proc p (\<lambda>q. q\<lparr>p_pagetable := pagetable, p_sz := sz\<rparr>) s;
                     s = s\<lparr>mem := store64 (mem s) (tf + 24) (elf_entry elf)\<rparr>;
                     s = s\<lparr>mem := store64 (mem s) (tf + 48) sp\<rparr>
                 in obind (proc_freepagetable oldpagetable oldsz s) (\<lambda>_ s.
                    Done (int (length ustack)) s))))))"

definition exec :: "uint8 list \<Rightarrow> uint8 list list \<Rightarrow> ('a) itable_scheme \<Rightarrow> (int, ('a) itable_scheme) outcome" where
  "exec path argv s =
     obind (myproc s) (\<lambda>p s.
     obind (begin_op s) (\<lambda>_ s.
     obind (namei path s) (\<lambda>ip s.
     case ip of
       None \<Rightarrow> obind (end_op s) (\<lambda>_ s. Done (-1) s)
     | Some ip \<Rightarrow>
         obind (ilock ip s) (\<lambda>_ s.
         obind (readi ip LocalDst 0 64 s) (\<lambda>(r, bs) s.
         if r \<noteq> 64 then exec_bad 0 0 (Some ip) s
         else let elf = get_elfhdr bs
         in if elf_magic elf \<noteq> ELF_MAGIC then exec_bad 0 0 (Some ip) s
         else obind (deref p proc_pagetable s) (\<lambda>pagetable s.
              if pagetable = 0 then exec_bad 0 0 (Some ip) s
              else obind (exec_load (unat (elf_phnum elf)) pagetable ip (ucast (elf_phoff elf)) 0 s) (\<lambda>(ok, sz) s.
                   if \<not> ok then exec_bad pagetable sz (Some ip) s
                   else obind (iunlockput ip s) (\<lambda>_ s.
                        obind (end_op s) (\<lambda>_ s.
                        obind (myproc s) (\<lambda>p. deref p (\<lambda>p s.
                        exec_finish path argv elf pagetable sz p s)))))))))))"

end
