(* ===== verification/Proc_Life.thy ===== *)
theory Proc_Life
  imports Exec
begin

text \<open>
  The rest of \<open>kernel/proc.c\<close>: creation and end of processes, which use open files and inodes.
  \<open>forkret\<close> is in the theory of traps.
\<close>

text \<open>The bytes of \<open>initcode\<close>.\<close>

definition initcode :: "uint8 list" where
  "initcode = [
     0x17, 0x05, 0x00, 0x00, 0x13, 0x05, 0x45, 0x02,
     0x97, 0x05, 0x00, 0x00, 0x93, 0x85, 0x35, 0x02,
     0x93, 0x08, 0x70, 0x00, 0x73, 0x00, 0x00, 0x00,
     0x93, 0x08, 0x20, 0x00, 0x73, 0x00, 0x00, 0x00,
     0xef, 0xf0, 0x9f, 0xff, 0x2f, 0x69, 0x6e, 0x69,
     0x74, 0x00, 0x00, 0x24, 0x00, 0x00, 0x00, 0x00,
     0x00, 0x00, 0x00, 0x00]"

definition userinit :: "('a) ftable_scheme \<Rightarrow> (unit, ('a) ftable_scheme) outcome" where
  "userinit s =
     obind (allocproc s) (\<lambda>p s.
     let s = s\<lparr>initproc := p\<rparr>
     in deref p (\<lambda>p s.
        obind (uvminit (p_pagetable (procs s p)) initcode (of_nat (length initcode)) s) (\<lambda>_ s.
        let s = upd_proc p (\<lambda>q. q\<lparr>p_sz := PGSIZE\<rparr>) s;
            tf = p_trapframe (procs s p);
            s = s\<lparr>mem := store64 (mem s) (tf + 24) 0\<rparr>;
            s = s\<lparr>mem := store64 (mem s) (tf + 48) PGSIZE\<rparr>
        in case safestrcpy (p_name (procs s p)) (bytes ''initcode'' @ [0]) 16 of
             None \<Rightarrow> Panic ''kerneltrap''
           | Some name \<Rightarrow>
               let s = upd_proc p (\<lambda>q. q\<lparr>p_name := name\<rparr>) s
               in obind (namei (bytes ''/'') s) (\<lambda>ip s.
                  let s = upd_proc p (\<lambda>q. q\<lparr>p_cwd := ip\<rparr>) s;
                      s = upd_proc p (\<lambda>q. q\<lparr>p_state := RUNNABLE\<rparr>) s
                  in release (ProcLock p) s))) s)"

text \<open>The copy of the trapframe moves its 288 bytes; \<open>a0\<close> is at offset 112.\<close>

definition fork :: "('a) ftable_scheme \<Rightarrow> (int, ('a) ftable_scheme) outcome" where
  "fork s =
     obind (myproc s) (\<lambda>p s.
     obind (allocproc s) (\<lambda>np s.
     case np of
       None \<Rightarrow> Done (-1) s
     | Some np \<Rightarrow> deref p (\<lambda>p s.
         obind (uvmcopy (p_pagetable (procs s p)) (p_pagetable (procs s np)) (p_sz (procs s p)) s) (\<lambda>r s.
         if r < 0
         then obind (freeproc np s) (\<lambda>_ s. obind (release (ProcLock np) s) (\<lambda>_ s. Done (-1) s))
         else let s = upd_proc np (\<lambda>q. q\<lparr>p_sz := p_sz (procs s p)\<rparr>) s;
                  tf = p_trapframe (procs s np);
                  s = s\<lparr>mem := store_bytes (mem s) tf (load_bytes (mem s) (p_trapframe (procs s p)) 288)\<rparr>;
                  s = s\<lparr>mem := store64 (mem s) (tf + 112) 0\<rparr>
         in obind (ofor [0..<NOFILE] (\<lambda>i s.
              case p_ofile (procs s p) i of
                None \<Rightarrow> Done () s
              | Some f \<Rightarrow> obind (filedup f s) (\<lambda>f s.
                  Done () (upd_proc np (\<lambda>q. q\<lparr>p_ofile := (p_ofile q)(i := Some f)\<rparr>) s))) s) (\<lambda>_ s.
            obind (deref (p_cwd (procs s p)) idup s) (\<lambda>cwd s.
            let s = upd_proc np (\<lambda>q. q\<lparr>p_cwd := Some cwd\<rparr>) s
            in case safestrcpy (p_name (procs s np)) (p_name (procs s p)) 16 of
                 None \<Rightarrow> Panic ''kerneltrap''
               | Some name \<Rightarrow>
                   let s = upd_proc np (\<lambda>q. q\<lparr>p_name := name\<rparr>) s;
                       pid = p_pid (procs s np)
                   in obind (release (ProcLock np) s) (\<lambda>_ s.
                      obind (acquire WaitLock s) (\<lambda>_ s.
                      let s = upd_proc np (\<lambda>q. q\<lparr>p_parent := Some p\<rparr>) s
                      in obind (release WaitLock s) (\<lambda>_ s.
                      obind (acquire (ProcLock np) s) (\<lambda>_ s.
                      let s = upd_proc np (\<lambda>q. q\<lparr>p_state := RUNNABLE\<rparr>) s
                      in obind (release (ProcLock np) s) (\<lambda>_ s.
                      Done (sint pid) s))))))))) s))"

definition exit :: "uint32 \<Rightarrow> ('a) ftable_scheme \<Rightarrow> (unit, ('a) ftable_scheme) outcome" where
  "exit status s =
     obind (myproc s) (\<lambda>p s.
     if p = initproc s then Panic ''init exiting''
     else deref p (\<lambda>p s.
       obind (ofor [0..<NOFILE] (\<lambda>fd s.
         case p_ofile (procs s p) fd of
           None \<Rightarrow> Done () s
         | Some f \<Rightarrow> obind (fileclose f s) (\<lambda>_ s.
             Done () (upd_proc p (\<lambda>q. q\<lparr>p_ofile := (p_ofile q)(fd := None)\<rparr>) s))) s) (\<lambda>_ s.
       obind (begin_op s) (\<lambda>_ s.
       obind (deref (p_cwd (procs s p)) iput s) (\<lambda>_ s.
       obind (end_op s) (\<lambda>_ s.
       let s = upd_proc p (\<lambda>q. q\<lparr>p_cwd := None\<rparr>) s
       in obind (acquire WaitLock s) (\<lambda>_ s.
          obind (reparent p s) (\<lambda>_ s.
          obind (wakeup (map_option ChProc (p_parent (procs s p))) s) (\<lambda>_ s.
          exit_zombie p status s)))))))) s)"

end
