(* ===== verification/Sysfile.thy ===== *)
theory Sysfile
  imports Proc_Life
begin

unbundle bit_operations_syntax

text \<open>
  Fetching system call arguments (\<open>kernel/syscall.c\<close>) and the system calls on files
  (\<open>kernel/sysfile.c\<close>). A result is the value that goes into the user's \<open>a0\<close>; an error is -1.
  Arguments that the code returns through a pointer are part of the result.
\<close>

section \<open>Arguments\<close>

definition fetchaddr :: "uint64 \<Rightarrow> ('a) pstate_scheme \<Rightarrow> (int \<times> uint64, ('a) pstate_scheme) outcome" where
  "fetchaddr addr s =
     obind (myproc s) (\<lambda>p. deref p (\<lambda>p s.
     if addr \<ge> p_sz (procs s p) \<or> addr + 8 > p_sz (procs s p) then Done (-1, 0) s
     else obind (copyin (p_pagetable (procs s p)) addr 8 s) (\<lambda>(r, bs) s.
          if r \<noteq> 0 then Done (-1, 0) s else Done (0, le_word bs) s)))"

text \<open>
  \<open>fetchstr\<close>: the length or an error, and the bytes written to \<open>buf\<close>.
\<close>

definition fetchstr :: "uint64 \<Rightarrow> uint64 \<Rightarrow> ('a) pstate_scheme \<Rightarrow> (int \<times> uint8 list, ('a) pstate_scheme) outcome" where
  "fetchstr addr mx s =
     obind (myproc s) (\<lambda>p. deref p (\<lambda>p s.
     obind (copyinstr (p_pagetable (procs s p)) addr mx s) (\<lambda>(err, buf) s.
     if err < 0 then Done (err, buf) s else Done (int (length (cstr buf)), buf) s)))"

definition argraw :: "nat \<Rightarrow> ('a) pstate_scheme \<Rightarrow> (uint64, ('a) pstate_scheme) outcome" where
  "argraw n s =
     obind (myproc s) (\<lambda>p. deref p (\<lambda>p s.
     if n < 6 then Done (load64 (mem s) (p_trapframe (procs s p) + 112 + 8 * of_nat n)) s
     else Panic ''argraw''))"

definition argint :: "nat \<Rightarrow> ('a) pstate_scheme \<Rightarrow> (int \<times> uint32, ('a) pstate_scheme) outcome" where
  "argint n s = obind (argraw n s) (\<lambda>v s. Done (0, ucast v) s)"

definition argaddr :: "nat \<Rightarrow> ('a) pstate_scheme \<Rightarrow> (int \<times> uint64, ('a) pstate_scheme) outcome" where
  "argaddr n s = obind (argraw n s) (\<lambda>v s. Done (0, v) s)"

definition argstr :: "nat \<Rightarrow> uint64 \<Rightarrow> ('a) pstate_scheme \<Rightarrow> (int \<times> uint8 list, ('a) pstate_scheme) outcome" where
  "argstr n mx s =
     obind (argaddr n s) (\<lambda>(r, addr) s.
     if r < 0 then Done (-1, []) s else fetchstr addr mx s)"

section \<open>File descriptors\<close>

definition argfd :: "nat \<Rightarrow> ('a) ftable_scheme \<Rightarrow> ((nat \<times> nat) option, ('a) ftable_scheme) outcome" where
  "argfd n s =
     obind (argint n s) (\<lambda>(r, fd) s.
     if r < 0 then Done None s
     else if sint fd < 0 \<or> sint fd \<ge> int NOFILE then Done None s
     else obind (myproc s) (\<lambda>p. deref p (\<lambda>p s.
          case p_ofile (procs s p) (nat (sint fd)) of
            None \<Rightarrow> Done None s
          | Some f \<Rightarrow> Done (Some (nat (sint fd), f)) s)))"

definition fdalloc :: "nat \<Rightarrow> ('a) ftable_scheme \<Rightarrow> (nat option, ('a) ftable_scheme) outcome" where
  "fdalloc f s =
     obind (myproc s) (\<lambda>p. deref p (\<lambda>p s.
     case find (\<lambda>fd. p_ofile (procs s p) fd = None) [0..<NOFILE] of
       None \<Rightarrow> Done None s
     | Some fd \<Rightarrow> Done (Some fd) (upd_proc p (\<lambda>q. q\<lparr>p_ofile := (p_ofile q)(fd := Some f)\<rparr>) s)))"

definition sys_dup :: "('a) ftable_scheme \<Rightarrow> (uint64, ('a) ftable_scheme) outcome" where
  "sys_dup s =
     obind (argfd 0 s) (\<lambda>r s.
     case r of
       None \<Rightarrow> Done (-1) s
     | Some (_, f) \<Rightarrow>
         obind (fdalloc f s) (\<lambda>r s.
         case r of
           None \<Rightarrow> Done (-1) s
         | Some fd \<Rightarrow> obind (filedup f s) (\<lambda>_ s. Done (of_nat fd) s)))"

definition sys_read :: "('a) ftable_scheme \<Rightarrow> (uint64, ('a) ftable_scheme) outcome" where
  "sys_read s =
     obind (argfd 0 s) (\<lambda>r s.
     case r of
       None \<Rightarrow> Done (-1) s
     | Some (_, f) \<Rightarrow>
         obind (argint 2 s) (\<lambda>(r, n) s. if r < 0 then Done (-1) s
         else obind (argaddr 1 s) (\<lambda>(r, p) s. if r < 0 then Done (-1) s
         else obind (fileread f p n s) (\<lambda>r s. Done (of_int r) s))))"

definition sys_write :: "('a) ftable_scheme \<Rightarrow> (uint64, ('a) ftable_scheme) outcome" where
  "sys_write s =
     obind (argfd 0 s) (\<lambda>r s.
     case r of
       None \<Rightarrow> Done (-1) s
     | Some (_, f) \<Rightarrow>
         obind (argint 2 s) (\<lambda>(r, n) s. if r < 0 then Done (-1) s
         else obind (argaddr 1 s) (\<lambda>(r, p) s. if r < 0 then Done (-1) s
         else obind (filewrite f p n s) (\<lambda>r s. Done (of_int r) s))))"

definition sys_close :: "('a) ftable_scheme \<Rightarrow> (uint64, ('a) ftable_scheme) outcome" where
  "sys_close s =
     obind (argfd 0 s) (\<lambda>r s.
     case r of
       None \<Rightarrow> Done (-1) s
     | Some (fd, f) \<Rightarrow>
         obind (myproc s) (\<lambda>p. deref p (\<lambda>p s.
         let s = upd_proc p (\<lambda>q. q\<lparr>p_ofile := (p_ofile q)(fd := None)\<rparr>) s
         in obind (fileclose f s) (\<lambda>_ s. Done 0 s))))"

definition sys_fstat :: "uint8 list \<Rightarrow> ('a) ftable_scheme \<Rightarrow> (uint64, ('a) ftable_scheme) outcome" where
  "sys_fstat pad s =
     obind (argfd 0 s) (\<lambda>r s.
     case r of
       None \<Rightarrow> Done (-1) s
     | Some (_, f) \<Rightarrow>
         obind (argaddr 1 s) (\<lambda>(r, st) s. if r < 0 then Done (-1) s
         else obind (filestat pad f st s) (\<lambda>r s. Done (of_int r) s)))"

section \<open>Directories\<close>

text \<open>A path buffer of \<open>MAXPATH\<close> bytes, as the string in it.\<close>

definition argpath :: "nat \<Rightarrow> ('a) pstate_scheme \<Rightarrow> (uint8 list option, ('a) pstate_scheme) outcome" where
  "argpath n s =
     obind (argstr n (of_nat MAXPATH) s) (\<lambda>(r, buf) s.
     Done (if r < 0 then None else Some (cstr buf)) s)"

definition sys_link :: "('a) ftable_scheme \<Rightarrow> (uint64, ('a) ftable_scheme) outcome" where
  "sys_link s =
     obind (argpath 0 s) (\<lambda>old s.
     case old of None \<Rightarrow> Done (-1) s | Some old \<Rightarrow>
     obind (argpath 1 s) (\<lambda>new s.
     case new of None \<Rightarrow> Done (-1) s | Some new \<Rightarrow>
     obind (begin_op s) (\<lambda>_ s.
     obind (namei old s) (\<lambda>ip s.
     case ip of
       None \<Rightarrow> obind (end_op s) (\<lambda>_ s. Done (-1) s)
     | Some ip \<Rightarrow>
         obind (ilock ip s) (\<lambda>_ s.
         if i_type (inodes s ip) = T_DIR
         then obind (iunlockput ip s) (\<lambda>_ s. obind (end_op s) (\<lambda>_ s. Done (-1) s))
         else let s = upd_inode ip (\<lambda>q. q\<lparr>i_nlink := i_nlink q + 1\<rparr>) s
         in obind (iupdate ip s) (\<lambda>_ s.
            obind (iunlock ip s) (\<lambda>_ s.
            let bad = (\<lambda>s.
              obind (ilock ip s) (\<lambda>_ s.
              let s = upd_inode ip (\<lambda>q. q\<lparr>i_nlink := i_nlink q - 1\<rparr>) s
              in obind (iupdate ip s) (\<lambda>_ s.
                 obind (iunlockput ip s) (\<lambda>_ s.
                 obind (end_op s) (\<lambda>_ s. Done (-1) s)))))
            in obind (nameiparent new (replicate DIRSIZ 0) s) (\<lambda>(dp, name) s.
            case dp of
              None \<Rightarrow> bad s
            | Some dp \<Rightarrow>
                obind (ilock dp s) (\<lambda>_ s.
                obind (if i_dev (inodes s dp) \<noteq> i_dev (inodes s ip) then Done (-1) s
                       else dirlink dp name (i_inum (inodes s ip)) s) (\<lambda>r s.
                if r < 0 then obind (iunlockput dp s) (\<lambda>_ s. bad s)
                else obind (iunlockput dp s) (\<lambda>_ s.
                     obind (iput ip s) (\<lambda>_ s.
                     obind (end_op s) (\<lambda>_ s. Done 0 s)))))))))))))"

function isdirempty_loop :: "nat \<Rightarrow> uint32 \<Rightarrow> ('a) itable_scheme \<Rightarrow> (bool, ('a) itable_scheme) outcome" where
  "isdirempty_loop dp off s =
     (if off < i_size (inodes s dp)
      then obind (readi dp LocalDst off 16 s) (\<lambda>(r, de) s.
           if r \<noteq> 16 then Panic ''isdirempty: readi''
           else if de_inum de \<noteq> 0 then Done False s
           else isdirempty_loop dp (off + 16) s)
      else Done True s)"
  by pat_completeness auto
termination
proof (relation "measure (\<lambda>(_, off, _). 4294967296 - unat off)", goal_cases)
  case (2 dp off s p t r de)
  then have "unat (off + 16) = unat off + 16" using readi_no_wrap by fastforce
  moreover have "unat (off + 16) < 4294967296" using unsigned_less [of "off + 16", where 'a = nat] by simp
  ultimately show ?case by simp
qed simp

declare isdirempty_loop.simps [simp del]

definition isdirempty :: "nat \<Rightarrow> ('a) itable_scheme \<Rightarrow> (bool, ('a) itable_scheme) outcome" where
  "isdirempty dp s = isdirempty_loop dp 32 s"

text \<open>\<open>sys_unlink\<close> from the point where the entry \<open>ip\<close> at offset \<open>off\<close> of \<open>dp\<close> was found.\<close>

definition unlink_entry :: "nat \<Rightarrow> nat \<Rightarrow> uint32 \<Rightarrow> ('a) ftable_scheme \<Rightarrow> (uint64, ('a) ftable_scheme) outcome" where
  "unlink_entry dp ip off s =
     obind (ilock ip s) (\<lambda>_ s.
     if sint (i_nlink (inodes s ip)) < 1 then Panic ''unlink: nlink < 1''
     else obind (if i_type (inodes s ip) = T_DIR then isdirempty ip s else Done True s) (\<lambda>empty s.
     if \<not> empty
     then obind (iunlockput ip s) (\<lambda>_ s.
          obind (iunlockput dp s) (\<lambda>_ s.
          obind (end_op s) (\<lambda>_ s. Done (-1) s)))
     else obind (writei dp (LocalSrc (replicate 16 0)) off 16 s) (\<lambda>r s.
          if r \<noteq> 16 then Panic ''unlink: writei''
          else obind (if i_type (inodes s ip) = T_DIR
                 then let s = upd_inode dp (\<lambda>q. q\<lparr>i_nlink := i_nlink q - 1\<rparr>) s in iupdate dp s
                 else Done () s) (\<lambda>_ s.
          obind (iunlockput dp s) (\<lambda>_ s.
          let s = upd_inode ip (\<lambda>q. q\<lparr>i_nlink := i_nlink q - 1\<rparr>) s
          in obind (iupdate ip s) (\<lambda>_ s.
             obind (iunlockput ip s) (\<lambda>_ s.
             obind (end_op s) (\<lambda>_ s. Done 0 s))))))))"

definition sys_unlink :: "('a) ftable_scheme \<Rightarrow> (uint64, ('a) ftable_scheme) outcome" where
  "sys_unlink s =
     obind (argpath 0 s) (\<lambda>path s.
     case path of None \<Rightarrow> Done (-1) s | Some path \<Rightarrow>
     obind (begin_op s) (\<lambda>_ s.
     obind (nameiparent path (replicate DIRSIZ 0) s) (\<lambda>(dp, name) s.
     case dp of
       None \<Rightarrow> obind (end_op s) (\<lambda>_ s. Done (-1) s)
     | Some dp \<Rightarrow>
         obind (ilock dp s) (\<lambda>_ s.
         let bad = (\<lambda>s. obind (iunlockput dp s) (\<lambda>_ s. obind (end_op s) (\<lambda>_ s. Done (-1) s)))
         in if namecmp name (bytes ''.'' @ [0]) = Some 0 \<or> namecmp name (bytes ''..'' @ [0]) = Some 0 then bad s
            else obind (dirlookup dp name s) (\<lambda>r s.
                 case r of
                   None \<Rightarrow> bad s
                 | Some (ip, off) \<Rightarrow> unlink_entry dp ip off s)))))"

text \<open>\<open>create\<close>; the inode is returned locked. \<open>ialloc\<close> never returns a null pointer.\<close>

definition create :: "uint8 list \<Rightarrow> uint16 \<Rightarrow> uint16 \<Rightarrow> uint16 \<Rightarrow> ('a) itable_scheme \<Rightarrow> (nat option, ('a) itable_scheme) outcome" where
  "create path type major minor s =
     obind (nameiparent path (replicate DIRSIZ 0) s) (\<lambda>(dp, name) s.
     case dp of
       None \<Rightarrow> Done None s
     | Some dp \<Rightarrow>
         obind (ilock dp s) (\<lambda>_ s.
         obind (dirlookup dp name s) (\<lambda>r s.
         case r of
           Some (ip, _) \<Rightarrow>
             obind (iunlockput dp s) (\<lambda>_ s.
             obind (ilock ip s) (\<lambda>_ s.
             if type = T_FILE \<and> (i_type (inodes s ip) = T_FILE \<or> i_type (inodes s ip) = T_DEVICE)
             then Done (Some ip) s
             else obind (iunlockput ip s) (\<lambda>_ s. Done None s)))
         | None \<Rightarrow>
             obind (ialloc (i_dev (inodes s dp)) type s) (\<lambda>ip s.
             obind (ilock ip s) (\<lambda>_ s.
             let s = upd_inode ip (\<lambda>q. q\<lparr>i_major := major, i_minor := minor, i_nlink := 1\<rparr>) s
             in obind (iupdate ip s) (\<lambda>_ s.
                obind (if type = T_DIR
                  then let s = upd_inode dp (\<lambda>q. q\<lparr>i_nlink := i_nlink q + 1\<rparr>) s
                       in obind (iupdate dp s) (\<lambda>_ s.
                          obind (dirlink ip (bytes ''.'' @ [0]) (i_inum (inodes s ip)) s) (\<lambda>r s.
                          if r < 0 then Panic ''create dots''
                          else obind (dirlink ip (bytes ''..'' @ [0]) (i_inum (inodes s dp)) s) (\<lambda>r s.
                               if r < 0 then Panic ''create dots'' else Done () s)))
                  else Done () s) (\<lambda>_ s.
                obind (dirlink dp name (i_inum (inodes s ip)) s) (\<lambda>r s.
                if r < 0 then Panic ''create: dirlink''
                else obind (iunlockput dp s) (\<lambda>_ s. Done (Some ip) s)))))))))"

section \<open>open and its kin\<close>

abbreviation (input) O_RDONLY :: uint32 where "O_RDONLY \<equiv> 0"
abbreviation (input) O_WRONLY :: uint32 where "O_WRONLY \<equiv> 1"
abbreviation (input) O_RDWR :: uint32 where "O_RDWR \<equiv> 2"
abbreviation (input) O_CREATE :: uint32 where "O_CREATE \<equiv> 0x200"
abbreviation (input) O_TRUNC :: uint32 where "O_TRUNC \<equiv> 0x400"

text \<open>The first part of \<open>sys_open\<close>: find or create the inode, locked; \<open>None\<close>: the call has failed.\<close>

definition open_inode :: "uint8 list \<Rightarrow> uint32 \<Rightarrow> ('a) ftable_scheme \<Rightarrow> (nat option, ('a) ftable_scheme) outcome" where
  "open_inode path omode s =
     (if omode AND O_CREATE \<noteq> 0
      then obind (create path T_FILE 0 0 s) (\<lambda>ip s.
           case ip of
             None \<Rightarrow> obind (end_op s) (\<lambda>_ s. Done None s)
           | Some ip \<Rightarrow> Done (Some ip) s)
      else obind (namei path s) (\<lambda>ip s.
           case ip of
             None \<Rightarrow> obind (end_op s) (\<lambda>_ s. Done None s)
           | Some ip \<Rightarrow>
               obind (ilock ip s) (\<lambda>_ s.
               if i_type (inodes s ip) = T_DIR \<and> omode \<noteq> O_RDONLY
               then obind (iunlockput ip s) (\<lambda>_ s. obind (end_op s) (\<lambda>_ s. Done None s))
               else Done (Some ip) s)))"

definition open_file :: "nat \<Rightarrow> nat \<Rightarrow> uint32 \<Rightarrow> ('a) ftable_scheme \<Rightarrow> ('a) ftable_scheme" where
  "open_file f ip omode s =
     (let s = (if i_type (inodes s ip) = T_DEVICE
               then upd_file f (\<lambda>q. q\<lparr>f_type := FD_DEVICE, f_major := i_major (inodes s ip)\<rparr>) s
               else upd_file f (\<lambda>q. q\<lparr>f_type := FD_INODE, f_off := 0\<rparr>) s)
      in upd_file f (\<lambda>q. q\<lparr>f_ip := Some ip, f_readable := (omode AND O_WRONLY = 0),
           f_writable := (omode AND O_WRONLY \<noteq> 0 \<or> omode AND O_RDWR \<noteq> 0)\<rparr>) s)"

definition sys_open :: "('a) ftable_scheme \<Rightarrow> (uint64, ('a) ftable_scheme) outcome" where
  "sys_open s =
     obind (argpath 0 s) (\<lambda>path s.
     case path of None \<Rightarrow> Done (-1) s | Some path \<Rightarrow>
     obind (argint 1 s) (\<lambda>(r, omode) s.
     if r < 0 then Done (-1) s
     else obind (begin_op s) (\<lambda>_ s.
     obind (open_inode path omode s) (\<lambda>ip s.
     case ip of None \<Rightarrow> Done (-1) s | Some ip \<Rightarrow>
     let fail = (\<lambda>s. obind (iunlockput ip s) (\<lambda>_ s. obind (end_op s) (\<lambda>_ s. Done (-1) s)))
     in if i_type (inodes s ip) = T_DEVICE \<and>
           (sint (i_major (inodes s ip)) < 0 \<or> sint (i_major (inodes s ip)) \<ge> int NDEV)
     then fail s
     else obind (filealloc s) (\<lambda>f s.
     case f of
       None \<Rightarrow> fail s
     | Some f \<Rightarrow>
         obind (fdalloc f s) (\<lambda>fd s.
         case fd of
           None \<Rightarrow> obind (fileclose f s) (\<lambda>_ s. fail s)
         | Some fd \<Rightarrow>
             let s = open_file f ip omode s
             in obind (if omode AND O_TRUNC \<noteq> 0 \<and> i_type (inodes s ip) = T_FILE
                       then itrunc ip s else Done () s) (\<lambda>_ s.
                obind (iunlock ip s) (\<lambda>_ s.
                obind (end_op s) (\<lambda>_ s. Done (of_nat fd) s)))))))))"

definition sys_mkdir :: "('a) ftable_scheme \<Rightarrow> (uint64, ('a) ftable_scheme) outcome" where
  "sys_mkdir s =
     obind (begin_op s) (\<lambda>_ s.
     obind (argpath 0 s) (\<lambda>path s.
     obind (case path of None \<Rightarrow> Done None s | Some path \<Rightarrow> create path T_DIR 0 0 s) (\<lambda>ip s.
     case ip of
       None \<Rightarrow> obind (end_op s) (\<lambda>_ s. Done (-1) s)
     | Some ip \<Rightarrow> obind (iunlockput ip s) (\<lambda>_ s. obind (end_op s) (\<lambda>_ s. Done 0 s)))))"

definition sys_mknod :: "('a) ftable_scheme \<Rightarrow> (uint64, ('a) ftable_scheme) outcome" where
  "sys_mknod s =
     obind (begin_op s) (\<lambda>_ s.
     obind (argpath 0 s) (\<lambda>path s.
     obind (case path of
              None \<Rightarrow> Done None s
            | Some path \<Rightarrow>
                obind (argint 1 s) (\<lambda>(r, major) s. if r < 0 then Done None s
                else obind (argint 2 s) (\<lambda>(r, minor) s. if r < 0 then Done None s
                else create path T_DEVICE (ucast major) (ucast minor) s))) (\<lambda>ip s.
     case ip of
       None \<Rightarrow> obind (end_op s) (\<lambda>_ s. Done (-1) s)
     | Some ip \<Rightarrow> obind (iunlockput ip s) (\<lambda>_ s. obind (end_op s) (\<lambda>_ s. Done 0 s)))))"

definition sys_chdir :: "('a) ftable_scheme \<Rightarrow> (uint64, ('a) ftable_scheme) outcome" where
  "sys_chdir s =
     obind (myproc s) (\<lambda>p s.
     obind (begin_op s) (\<lambda>_ s.
     obind (argpath 0 s) (\<lambda>path s.
     obind (case path of None \<Rightarrow> Done None s | Some path \<Rightarrow> namei path s) (\<lambda>ip s.
     case ip of
       None \<Rightarrow> obind (end_op s) (\<lambda>_ s. Done (-1) s)
     | Some ip \<Rightarrow>
         obind (ilock ip s) (\<lambda>_ s.
         if i_type (inodes s ip) \<noteq> T_DIR
         then obind (iunlockput ip s) (\<lambda>_ s. obind (end_op s) (\<lambda>_ s. Done (-1) s))
         else obind (iunlock ip s) (\<lambda>_. deref p (\<lambda>p s.
              obind (deref (p_cwd (procs s p)) iput s) (\<lambda>_ s.
              obind (end_op s) (\<lambda>_ s.
              Done 0 (upd_proc p (\<lambda>q. q\<lparr>p_cwd := Some ip\<rparr>) s))))))))))"

text \<open>
  The loop of \<open>sys_exec\<close> with \<open>k\<close> free places in \<open>argv\<close>. The result is the list of the pages taken and
  their strings, and whether the terminating null pointer was found.
\<close>

fun exec_args :: "nat \<Rightarrow> uint64 \<Rightarrow> uint64 list \<Rightarrow> uint8 list list \<Rightarrow> ('a) ftable_scheme \<Rightarrow> (bool \<times> uint64 list \<times> uint8 list list, ('a) ftable_scheme) outcome" where
  "exec_args 0 uargv pgs args s = Done (False, pgs, args) s"
| "exec_args (Suc k) uargv pgs args s =
     obind (fetchaddr (uargv + 8 * of_nat (length pgs)) s) (\<lambda>(r, uarg) s.
     if r < 0 then Done (False, pgs, args) s
     else if uarg = 0 then Done (True, pgs, args) s
     else obind (kalloc s) (\<lambda>pg s.
          if pg = 0 then Done (False, pgs, args) s
          else obind (fetchstr uarg PGSIZE s) (\<lambda>(r, buf) s.
               let s = s\<lparr>mem := store_bytes (mem s) pg buf\<rparr>
               in if r < 0 then Done (False, pgs @ [pg], args) s
                  else exec_args k uargv (pgs @ [pg]) (args @ [cstr buf]) s)))"

definition sys_exec :: "('a) ftable_scheme \<Rightarrow> (uint64, ('a) ftable_scheme) outcome" where
  "sys_exec s =
     obind (argpath 0 s) (\<lambda>path s.
     case path of None \<Rightarrow> Done (-1) s | Some path \<Rightarrow>
     obind (argaddr 1 s) (\<lambda>(r, uargv) s.
     if r < 0 then Done (-1) s
     else obind (exec_args MAXARG uargv [] [] s) (\<lambda>(ok, pgs, args) s.
          obind (if ok then exec path args s else Done (-1) s) (\<lambda>ret s.
          obind (ofor pgs kfree s) (\<lambda>_ s. Done (of_int ret) s)))))"

definition sys_pipe :: "('a) ftable_scheme \<Rightarrow> (uint64, ('a) ftable_scheme) outcome" where
  "sys_pipe s =
     obind (myproc s) (\<lambda>p s.
     obind (argaddr 0 s) (\<lambda>(r, fdarray) s.
     if r < 0 then Done (-1) s
     else obind (pipealloc s) (\<lambda>r s.
     case r of None \<Rightarrow> Done (-1) s | Some (rdf, wrf) \<Rightarrow>
     let drop_fd = (\<lambda>fd. deref p (\<lambda>p s. Done () (upd_proc p (\<lambda>q. q\<lparr>p_ofile := (p_ofile q)(fd := None)\<rparr>) s)));
         fail = (\<lambda>s. obind (fileclose rdf s) (\<lambda>_ s. obind (fileclose wrf s) (\<lambda>_ s. Done (-1) s)))
     in obind (fdalloc rdf s) (\<lambda>r s.
     case r of None \<Rightarrow> fail s | Some fd0 \<Rightarrow>
     obind (fdalloc wrf s) (\<lambda>r s.
     case r of None \<Rightarrow> obind (drop_fd fd0 s) (\<lambda>_ s. fail s) | Some fd1 \<Rightarrow>
     deref p (\<lambda>q s.
     obind (copyout (p_pagetable (procs s q)) fdarray (le_bytes 4 (of_nat fd0 :: uint32)) 4 s) (\<lambda>r s.
     obind (if r < 0 then Done r s
            else copyout (p_pagetable (procs s q)) (fdarray + 4) (le_bytes 4 (of_nat fd1 :: uint32)) 4 s) (\<lambda>r s.
     if r < 0
     then obind (drop_fd fd0 s) (\<lambda>_ s. obind (drop_fd fd1 s) (\<lambda>_ s. fail s))
     else Done 0 s))) s)))))"

end
