(* ===== verification/Trap.thy ===== *)
theory Trap
  imports Sysfile
begin

unbundle bit_operations_syntax

text \<open>
  System calls about processes (\<open>kernel/sysproc.c\<close>), the system call table (\<open>kernel/syscall.c\<close>), traps
  and interrupts (\<open>kernel/trap.c\<close>), the interrupt controller (\<open>kernel/plic.c\<close>), \<open>forkret\<close> of
  \<open>kernel/proc.c\<close>, and the boot sequence (\<open>kernel/main.c\<close>, \<open>kernel/start.c\<close>).

  Trap registers are kept per hart. Code addresses that the kernel stores in registers are the
  fields \<open>a_kernelvec\<close>, \<open>a_uservec\<close>, \<open>a_userret\<close> and \<open>a_usertrap\<close>. \<open>plic_in\<close> holds what the coming reads of a
  hart's claim register return (0 when there is nothing to claim), \<open>plic_out\<close> the register writes.
\<close>

record trapst = ftable +
  stvec :: "nat \<Rightarrow> uint64"
  sepc :: "nat \<Rightarrow> uint64"
  scause :: "nat \<Rightarrow> uint64"
  stval :: "nat \<Rightarrow> uint64"
  sip :: "nat \<Rightarrow> uint64"
  a_kernelvec :: uint64
  a_uservec :: uint64
  a_userret :: uint64
  a_usertrap :: uint64
  forkret_first :: bool
  plic_in :: "nat \<Rightarrow> uint32 list"
  plic_out :: "(uint64 \<times> uint32) list"
  started :: bool

text \<open>
  Memory the kernel copies to user space without having written it: the local \<open>tempproc\<close> of \<open>procinfo\<close>, the
  address of its local \<open>it\<close>, and the padding of \<open>struct stat\<close>.
\<close>

record junk =
  j_uproc :: uproc
  j_it :: uint64
  j_pad :: "uint8 list"

section \<open>System calls about processes\<close>

definition sys_exit :: "('a) ftable_scheme \<Rightarrow> (uint64, ('a) ftable_scheme) outcome" where
  "sys_exit s =
     obind (argint 0 s) (\<lambda>(r, n) s. if r < 0 then Done (-1) s
     else obind (exit n s) (\<lambda>_ s. Done 0 s))"

definition sys_getpid :: "('a) ftable_scheme \<Rightarrow> (uint64, ('a) ftable_scheme) outcome" where
  "sys_getpid s = obind (myproc s) (\<lambda>p. deref p (\<lambda>p s. Done (scast (p_pid (procs s p))) s))"

definition sys_fork :: "('a) ftable_scheme \<Rightarrow> (uint64, ('a) ftable_scheme) outcome" where
  "sys_fork s = obind (fork s) (\<lambda>r s. Done (of_int r) s)"

definition sys_wait :: "('a) ftable_scheme \<Rightarrow> (uint64, ('a) ftable_scheme) outcome" where
  "sys_wait s =
     obind (argaddr 0 s) (\<lambda>(r, p) s. if r < 0 then Done (-1) s
     else obind (wait p s) (\<lambda>r s. Done (of_int r) s))"

text \<open>\<open>int addr\<close> keeps the low 32 bits of the old size.\<close>

definition sys_sbrk :: "('a) ftable_scheme \<Rightarrow> (uint64, ('a) ftable_scheme) outcome" where
  "sys_sbrk s =
     obind (argint 0 s) (\<lambda>(r, n) s. if r < 0 then Done (-1) s
     else obind (myproc s) (\<lambda>p. deref p (\<lambda>p s.
          let addr = (ucast (p_sz (procs s p)) :: uint32)
          in obind (growproc n s) (\<lambda>r s.
             if r < 0 then Done (-1) s else Done (scast addr) s))))"

text \<open>\<open>ticks - ticks0 < n\<close> compares unsigned numbers.\<close>

function sys_sleep_loop :: "uint32 \<Rightarrow> uint32 \<Rightarrow> ('a) ftable_scheme \<Rightarrow> (uint64, ('a) ftable_scheme) outcome" where
  "sys_sleep_loop ticks0 n s =
     (if ticks s - ticks0 < n
      then obind (myproc s) (\<lambda>p. deref p (\<lambda>p s.
           if p_killed (procs s p) \<noteq> 0 then obind (release TicksLock s) (\<lambda>_ s. Done (-1) s)
           else obind (sleep ChTicks TicksLock s) (\<lambda>_ s. sys_sleep_loop ticks0 n s)))
      else obind (release TicksLock s) (\<lambda>_ s. Done 0 s))"
  by pat_completeness auto
termination by (relation "{}") simp_all

declare sys_sleep_loop.simps [simp del]

definition sys_sleep :: "('a) ftable_scheme \<Rightarrow> (uint64, ('a) ftable_scheme) outcome" where
  "sys_sleep s =
     obind (argint 0 s) (\<lambda>(r, n) s. if r < 0 then Done (-1) s
     else obind (acquire TicksLock s) (\<lambda>_ s.
          sys_sleep_loop (ticks s) n s))"

definition sys_kill :: "('a) ftable_scheme \<Rightarrow> (uint64, ('a) ftable_scheme) outcome" where
  "sys_kill s =
     obind (argint 0 s) (\<lambda>(r, pid) s. if r < 0 then Done (-1) s
     else obind (kill pid s) (\<lambda>r s. Done (of_int r) s))"

definition sys_uptime :: "('a) ftable_scheme \<Rightarrow> (uint64, ('a) ftable_scheme) outcome" where
  "sys_uptime s =
     obind (acquire TicksLock s) (\<lambda>_ s.
     let xticks = ticks s
     in obind (release TicksLock s) (\<lambda>_ s. Done (ucast xticks) s))"

text \<open>The parameter of \<open>sys_getprocs\<close> has no argument: the table calls it without any.\<close>

definition sys_getprocs :: "junk \<Rightarrow> ('a) ftable_scheme \<Rightarrow> (uint64, ('a) ftable_scheme) outcome" where
  "sys_getprocs j s = obind (procinfo (j_uproc j) (j_it j) s) (\<lambda>r s. Done (scast r) s)"

section \<open>The system call table\<close>

definition syscalls :: "junk \<Rightarrow> nat \<Rightarrow> (('a) ftable_scheme \<Rightarrow> (uint64, ('a) ftable_scheme) outcome) option" where
  "syscalls j num = map_of [
     (1, sys_fork), (2, sys_exit), (3, sys_wait), (4, sys_pipe), (5, sys_read), (6, sys_kill),
     (7, sys_exec), (8, sys_fstat (j_pad j)), (9, sys_chdir), (10, sys_dup), (11, sys_getpid),
     (12, sys_sbrk), (13, sys_sleep), (14, sys_uptime), (15, sys_open), (16, sys_write),
     (17, sys_mknod), (18, sys_unlink), (19, sys_link), (20, sys_mkdir), (21, sys_close),
     (22, sys_getprocs j)] num"

text \<open>\<open>a0\<close> and \<open>a7\<close> are at offsets 112 and 168 of the trapframe.\<close>

definition syscall :: "junk \<Rightarrow> ('a) ftable_scheme \<Rightarrow> (unit, ('a) ftable_scheme) outcome" where
  "syscall j s =
     obind (myproc s) (\<lambda>p. deref p (\<lambda>p s.
     let num = sint (ucast (load64 (mem s) (p_trapframe (procs s p) + 168)) :: uint32)
     in case (if num > 0 \<and> num < 23 then syscalls j (nat num) else None) of
          Some f \<Rightarrow>
            obind (f s) (\<lambda>r s.
            Done () (s\<lparr>mem := store64 (mem s) (p_trapframe (procs s p) + 112) r\<rparr>))
        | None \<Rightarrow>
            obind (printf (''%d %s: unknown sys call %d'' @ [CHR 0x0A])
              [VInt (p_pid (procs s p)), VStr (Some (p_name (procs s p))), VInt (word_of_int num)] s) (\<lambda>_ s.
            Done () (s\<lparr>mem := store64 (mem s) (p_trapframe (procs s p) + 112) (-1)\<rparr>))))"

section \<open>The interrupt controller\<close>

abbreviation (input) UART0_IRQ :: uint32 where "UART0_IRQ \<equiv> 10"
abbreviation (input) VIRTIO0_IRQ :: uint32 where "VIRTIO0_IRQ \<equiv> 1"

definition PLIC_SENABLE :: "nat \<Rightarrow> uint64" where
  "PLIC_SENABLE hart = PLIC + 0x2080 + of_nat hart * 0x100"

definition PLIC_SPRIORITY :: "nat \<Rightarrow> uint64" where
  "PLIC_SPRIORITY hart = PLIC + 0x201000 + of_nat hart * 0x2000"

definition PLIC_SCLAIM :: "nat \<Rightarrow> uint64" where
  "PLIC_SCLAIM hart = PLIC + 0x201004 + of_nat hart * 0x2000"

definition plic_write :: "uint64 \<Rightarrow> uint32 \<Rightarrow> ('a) trapst_scheme \<Rightarrow> ('a) trapst_scheme" where
  "plic_write a v s = s\<lparr>plic_out := plic_out s @ [(a, v)]\<rparr>"

definition plicinit :: "('a) trapst_scheme \<Rightarrow> ('a) trapst_scheme" where
  "plicinit s = plic_write (PLIC + 1 * 4) 1 (plic_write (PLIC + 10 * 4) 1 s)"

definition plicinithart :: "('a) trapst_scheme \<Rightarrow> ('a) trapst_scheme" where
  "plicinithart s =
     (let hart = cpuid s;
          s = plic_write (PLIC_SENABLE hart) (push_bit 10 1 OR push_bit 1 1) s
      in plic_write (PLIC_SPRIORITY hart) 0 s)"

definition plic_claim :: "('a) trapst_scheme \<Rightarrow> uint32 \<times> ('a) trapst_scheme" where
  "plic_claim s =
     (let hart = cpuid s
      in case plic_in s hart of
           [] \<Rightarrow> (0, s)
         | irq # rest \<Rightarrow> (irq, s\<lparr>plic_in := (plic_in s)(hart := rest)\<rparr>))"

definition plic_complete :: "uint32 \<Rightarrow> ('a) trapst_scheme \<Rightarrow> ('a) trapst_scheme" where
  "plic_complete irq s = plic_write (PLIC_SCLAIM (cpuid s)) irq s"

section \<open>Traps\<close>

abbreviation (input) SSTATUS_SPP :: uint64 where "SSTATUS_SPP \<equiv> 256"
abbreviation (input) SSTATUS_SPIE :: uint64 where "SSTATUS_SPIE \<equiv> 32"

definition trapinit :: "('a) trapst_scheme \<Rightarrow> (unit, ('a) trapst_scheme) outcome" where
  "trapinit s = initlock TicksLock ''time'' s"

definition trapinithart :: "('a) trapst_scheme \<Rightarrow> ('a) trapst_scheme" where
  "trapinithart s = s\<lparr>stvec := (stvec s)(tp s := a_kernelvec s)\<rparr>"

definition clockintr :: "('a) pstate_scheme \<Rightarrow> (unit, ('a) pstate_scheme) outcome" where
  "clockintr s =
     obind (acquire TicksLock s) (\<lambda>_ s.
     let s = s\<lparr>ticks := ticks s + 1\<rparr>
     in obind (wakeup (Some ChTicks) s) (\<lambda>_ s.
        release TicksLock s))"

definition devintr :: "('a) trapst_scheme \<Rightarrow> (nat, ('a) trapst_scheme) outcome" where
  "devintr s =
     (let cause = scause s (tp s)
      in if cause AND 0x8000000000000000 \<noteq> 0 \<and> cause AND 0xff = 9
      then let (irq, s) = plic_claim s
      in obind (if irq = UART0_IRQ then uartintr s
                else if irq = VIRTIO0_IRQ then virtio_disk_intr s
                else if irq \<noteq> 0 then printf (''unexpected interrupt irq=%d'' @ [CHR 0x0A]) [VInt irq] s
                else Done () s) (\<lambda>_ s.
         let s = (if irq \<noteq> 0 then plic_complete irq s else s)
         in Done 1 s)
      else if cause = 0x8000000000000001
      then obind (if cpuid s = 0 then clockintr s else Done () s) (\<lambda>_ s.
           let s = s\<lparr>sip := (sip s)(tp s := sip s (tp s) AND NOT 2)\<rparr>
           in Done 2 s)
      else Done 0 s)"

text \<open>
  The result of \<open>usertrapret\<close> is what it passes to \<open>userret\<close> in the trampoline: the function called and
  its two arguments. Offsets in the trapframe: \<open>kernel_satp\<close> 0, \<open>kernel_sp\<close> 8, \<open>kernel_trap\<close> 16,
  \<open>epc\<close> 24, \<open>kernel_hartid\<close> 32.
\<close>

definition usertrapret :: "('a) trapst_scheme \<Rightarrow> (uint64 \<times> uint64 \<times> uint64, ('a) trapst_scheme) outcome" where
  "usertrapret s =
     obind (myproc s) (\<lambda>p s.
     let s = intr_off s;
         s = s\<lparr>stvec := (stvec s)(tp s := TRAMPOLINE + (a_uservec s - trampoline s))\<rparr>
     in deref p (\<lambda>p s.
        let tf = p_trapframe (procs s p);
            s = s\<lparr>mem := store64 (mem s) tf (satp s (tp s))\<rparr>;
            s = s\<lparr>mem := store64 (mem s) (tf + 8) (p_kstack (procs s p) + PGSIZE)\<rparr>;
            s = s\<lparr>mem := store64 (mem s) (tf + 16) (a_usertrap s)\<rparr>;
            s = s\<lparr>mem := store64 (mem s) (tf + 32) (of_nat (tp s))\<rparr>;
            x = sstatus s (tp s);
            x = x AND NOT SSTATUS_SPP;
            x = x OR SSTATUS_SPIE;
            s = s\<lparr>sstatus := (sstatus s)(tp s := x)\<rparr>;
            s = s\<lparr>sepc := (sepc s)(tp s := load64 (mem s) (tf + 24))\<rparr>
        in Done (TRAMPOLINE + (a_userret s - trampoline s), TRAPFRAME, MAKE_SATP (p_pagetable (procs s p))) s) s)"

definition usertrap :: "junk \<Rightarrow> ('a) trapst_scheme \<Rightarrow> (uint64 \<times> uint64 \<times> uint64, ('a) trapst_scheme) outcome" where
  "usertrap j s =
     (if sstatus s (tp s) AND SSTATUS_SPP \<noteq> 0 then Panic ''usertrap: not from user mode''
      else let s = s\<lparr>stvec := (stvec s)(tp s := a_kernelvec s)\<rparr>
      in obind (myproc s) (\<lambda>p. deref p (\<lambda>p s.
      let tf = p_trapframe (procs s p);
          s = s\<lparr>mem := store64 (mem s) (tf + 24) (sepc s (tp s))\<rparr>
      in obind (if scause s (tp s) = 8
           then obind (if p_killed (procs s p) \<noteq> 0 then exit (-1) s else Done () s) (\<lambda>_ s.
                let s = s\<lparr>mem := store64 (mem s) (tf + 24) (load64 (mem s) (tf + 24) + 4)\<rparr>;
                    s = intr_on s
                in obind (syscall j s) (\<lambda>_ s. Done 0 s))
           else obind (devintr s) (\<lambda>which_dev s.
                if which_dev \<noteq> 0 then Done which_dev s
                else obind (printf (''usertrap(): unexpected scause %p pid=%d'' @ [CHR 0x0A])
                       [VPtr (scause s (tp s)), VInt (p_pid (procs s p))] s) (\<lambda>_ s.
                     obind (printf (''            sepc=%p stval=%p'' @ [CHR 0x0A])
                       [VPtr (sepc s (tp s)), VPtr (stval s (tp s))] s) (\<lambda>_ s.
                     Done 0 (upd_proc p (\<lambda>q. q\<lparr>p_killed := 1\<rparr>) s))))) (\<lambda>which_dev s.
         obind (if p_killed (procs s p) \<noteq> 0 then exit (-1) s else Done () s) (\<lambda>_ s.
         obind (if which_dev = 2 then yield s else Done () s) (\<lambda>_ s.
         usertrapret s))))))"

text \<open>The first call of \<open>forkret\<close> initialises the file system.\<close>

definition forkret :: "('a) trapst_scheme \<Rightarrow> (uint64 \<times> uint64 \<times> uint64, ('a) trapst_scheme) outcome" where
  "forkret s =
     obind (myproc s) (\<lambda>p. deref p (\<lambda>p s.
     obind (release (ProcLock p) s) (\<lambda>_ s.
     obind (if forkret_first s then fsinit ROOTDEV (s\<lparr>forkret_first := False\<rparr>) else Done () s) (\<lambda>_ s.
     usertrapret s))))"

definition kerneltrap :: "('a) trapst_scheme \<Rightarrow> (unit, ('a) trapst_scheme) outcome" where
  "kerneltrap s =
     (let epc = sepc s (tp s);
          st = sstatus s (tp s);
          cause = scause s (tp s)
      in if st AND SSTATUS_SPP = 0 then Panic ''kerneltrap: not from supervisor mode''
      else if intr_get s then Panic ''kerneltrap: interrupts enabled''
      else obind (devintr s) (\<lambda>which_dev s.
           if which_dev = 0
           then obind (printf (''scause %p'' @ [CHR 0x0A]) [VPtr cause] s) (\<lambda>_ s.
                obind (printf (''sepc=%p stval=%p'' @ [CHR 0x0A]) [VPtr (sepc s (tp s)), VPtr (stval s (tp s))] s) (\<lambda>_ s.
                Panic ''kerneltrap''))
           else obind (if which_dev = 2
                  then obind (myproc s) (\<lambda>p s.
                       case p of
                         None \<Rightarrow> Done () s
                       | Some _ \<Rightarrow>
                           obind (myproc s) (\<lambda>p. deref p (\<lambda>p s.
                           if p_state (procs s p) = RUNNING then yield s else Done () s)))
                  else Done () s) (\<lambda>_ s.
                let s = s\<lparr>sepc := (sepc s)(tp s := epc)\<rparr>
                in Done () (s\<lparr>sstatus := (sstatus s)(tp s := st)\<rparr>))))"

section \<open>Booting\<close>

text \<open>
  \<open>main\<close> up to the call of \<open>scheduler\<close>. \<open>pages_pfn\<close> is the page number of the disk driver's
  memory. A hart other than 0 waits until \<open>started\<close> is set.
\<close>

definition main :: "uint32 \<Rightarrow> ('a) trapst_scheme \<Rightarrow> (unit, ('a) trapst_scheme) outcome" where
  "main pages_pfn s =
     (if cpuid s = 0
      then obind (consoleinit s) (\<lambda>_ s.
           obind (printfinit s) (\<lambda>_ s.
           obind (printf [CHR 0x0A] [] s) (\<lambda>_ s.
           obind (printf (''xv6 kernel is booting'' @ [CHR 0x0A]) [] s) (\<lambda>_ s.
           obind (printf [CHR 0x0A] [] s) (\<lambda>_ s.
           obind (kinit s) (\<lambda>_ s.
           obind (kvminit s) (\<lambda>_ s.
           obind (kvminithart s) (\<lambda>_ s.
           obind (procinit s) (\<lambda>_ s.
           obind (trapinit s) (\<lambda>_ s.
           let s = trapinithart s;
               s = plicinit s;
               s = plicinithart s
           in obind (binit s) (\<lambda>_ s.
              obind (iinit s) (\<lambda>_ s.
              obind (fileinit s) (\<lambda>_ s.
              obind (virtio_disk_init pages_pfn s) (\<lambda>_ s.
              obind (userinit s) (\<lambda>_ s.
              Done () (s\<lparr>started := True\<rparr>))))))))))))))))
      else if \<not> started s then Spins
      else obind (printf (''hart %d starting'' @ [CHR 0x0A]) [VInt (of_nat (cpuid s))] s) (\<lambda>_ s.
           obind (kvminithart s) (\<lambda>_ s.
           let s = trapinithart s
           in Done () (plicinithart s))))"

text \<open>Machine mode: the registers \<open>start\<close> and \<open>timerinit\<close> set before \<open>mret\<close> enters \<open>main\<close>.\<close>

record mhart =
  m_mhartid :: nat
  m_mstatus :: uint64
  m_mepc :: uint64
  m_satp :: uint64
  m_medeleg :: uint64
  m_mideleg :: uint64
  m_sie :: uint64
  m_mie :: uint64
  m_pmpaddr0 :: uint64
  m_pmpcfg0 :: uint64
  m_mscratch :: uint64
  m_mtvec :: uint64
  m_tp :: nat
  m_mtime :: uint64
  m_mtimecmp :: "nat \<Rightarrow> uint64"
  m_timer_scratch :: "nat \<Rightarrow> nat \<Rightarrow> uint64"

definition CLINT_MTIMECMP :: "nat \<Rightarrow> uint64" where
  "CLINT_MTIMECMP hartid = 0x2000000 + 0x4000 + 8 * of_nat hartid"

definition timerinit :: "uint64 \<Rightarrow> uint64 \<Rightarrow> mhart \<Rightarrow> mhart" where
  "timerinit a_scratch a_timervec s =
     (let i = m_mhartid s;
          interval = 1000000;
          s = s\<lparr>m_mtimecmp := (m_mtimecmp s)(i := m_mtime s + interval)\<rparr>;
          s = s\<lparr>m_timer_scratch := (m_timer_scratch s)(i := (m_timer_scratch s i)(3 := CLINT_MTIMECMP i, 4 := interval))\<rparr>;
          s = s\<lparr>m_mscratch := a_scratch + 40 * of_nat i\<rparr>;
          s = s\<lparr>m_mtvec := a_timervec\<rparr>;
          s = s\<lparr>m_mstatus := m_mstatus s OR 8\<rparr>
      in s\<lparr>m_mie := m_mie s OR 128\<rparr>)"

definition start :: "uint64 \<Rightarrow> uint64 \<Rightarrow> uint64 \<Rightarrow> mhart \<Rightarrow> mhart" where
  "start a_main a_scratch a_timervec s =
     (let x = m_mstatus s;
          x = x AND NOT 0x1800;
          x = x OR 0x800;
          s = s\<lparr>m_mstatus := x\<rparr>;
          s = s\<lparr>m_mepc := a_main, m_satp := 0, m_medeleg := 0xffff, m_mideleg := 0xffff\<rparr>;
          s = s\<lparr>m_sie := m_sie s OR 0x200 OR 0x20 OR 2\<rparr>;
          s = s\<lparr>m_pmpaddr0 := 0x3fffffffffffff, m_pmpcfg0 := 0xf\<rparr>;
          s = timerinit a_scratch a_timervec s
      in s\<lparr>m_tp := m_mhartid s\<rparr>)"

end
