(* ===== verification/Bss.thy ===== *)
theory Bss
  imports Trap
begin

text \<open>
  A concrete kernel state to evaluate the definitions on: the kernel's static storage before
  initialisation, where every object is zero, on hart 0, with idle devices, an empty disk and the
  free memory of the kernel starting at \<open>KERNBASE\<close>; and the same state as seen by a process.
\<close>

definition zero_context :: kcontext where
  "zero_context = \<lparr>ctx_ra = 0, ctx_sp = 0, ctx_s0 = 0, ctx_s1 = 0, ctx_s2 = 0, ctx_s3 = 0, ctx_s4 = 0, ctx_s5 = 0,
     ctx_s6 = 0, ctx_s7 = 0, ctx_s8 = 0, ctx_s9 = 0, ctx_s10 = 0, ctx_s11 = 0\<rparr>"

definition zero_cpu :: cpu where
  "zero_cpu = \<lparr>cpu_proc = None, cpu_context = zero_context, noff = 0, intena = False\<rparr>"

definition zero_proc :: proc where
  "zero_proc = \<lparr>p_state = UNUSED, p_chan = None, p_killed = 0, p_xstate = 0, p_pid = 0, p_parent = None, p_kstack = 0,
     p_sz = 0, p_pagetable = 0, p_trapframe = 0, p_context = zero_context, p_ofile = (\<lambda>_. None), p_cwd = None,
     p_name = replicate 16 0\<rparr>"

definition zero_buf :: buf where
  "zero_buf = \<lparr>b_valid = False, b_disk = False, b_dev = 0, b_blockno = 0, b_refcnt = 0, b_prev = 0, b_next = 0,
     b_data = replicate BSIZE 0\<rparr>"

definition zero_inode :: inode where
  "zero_inode = \<lparr>i_dev = 0, i_inum = 0, i_ref = 0, i_valid = False, i_type = 0, i_major = 0, i_minor = 0, i_nlink = 0,
     i_size = 0, i_addrs = replicate 13 0\<rparr>"

definition bss :: trapst where
  "bss = \<lparr>tp = 0, cpus = (\<lambda>_. zero_cpu), sstatus = (\<lambda>_. 0), lks = (\<lambda>_. \<lparr>lk_locked = 0, lk_name = '''', lk_cpu = None\<rparr>),
     mem = (\<lambda>_. 0), freelist = 0, kend = KERNBASE,
     etext = 0, trampoline = 0, kernel_pagetable = 0, satp = (\<lambda>_. 0),
     procs = (\<lambda>_. zero_proc), nextpid = 1, initproc = None, ticks = 0, forkret_addr = 0,
     uart_tx_buf = (\<lambda>_. 0), uart_tx_w = 0, uart_tx_r = 0, panicked = False, uart_lsr = [], uart_rhr = [], uart_out = [],
     pr_locking = False,
     cons_buf = (\<lambda>_. 0), cons_r = 0, cons_w = 0, cons_e = 0, devsw_read = (\<lambda>_. None), devsw_write = (\<lambda>_. None),
     slks = (\<lambda>_. \<lparr>sl_locked = False, sl_name = '''', sl_pid = 0\<rparr>),
     bufs = (\<lambda>_. zero_buf), disk = (\<lambda>_. replicate BSIZE 0), disk_writes = [],
     vq_desc = (\<lambda>_. \<lparr>vd_addr = DmaNone, vd_len = 0, vd_flags = 0, vd_next = 0\<rparr>), avail_idx = 0, avail_ring = (\<lambda>_. 0),
     used_idx = 0, used_ring = (\<lambda>_. 0), vd_free = (\<lambda>_. False), vd_used_idx = 0, info_b = (\<lambda>_. None), info_status = (\<lambda>_. 0),
     vd_ops = (\<lambda>_. \<lparr>rq_type = 0, rq_reserved = 0, rq_sector = 0\<rparr>), mmio_in = (\<lambda>_. 0), mmio_out = [],
     log_start = 0, log_size = 0, log_outstanding = 0, log_committing = False, log_dev = 0, lh_n = 0, lh_block = (\<lambda>_. 0),
     sb = \<lparr>sb_magic = 0, sb_size = 0, sb_nblocks = 0, sb_ninodes = 0, sb_nlog = 0, sb_logstart = 0, sb_inodestart = 0, sb_bmapstart = 0\<rparr>,
     inodes = (\<lambda>_. zero_inode),
     pipes = (\<lambda>_. \<lparr>pi_data = (\<lambda>_. 0), pi_nread = 0, pi_nwrite = 0, pi_readopen = False, pi_writeopen = False\<rparr>),
     files = (\<lambda>_. \<lparr>f_type = FD_NONE, f_ref = 0, f_readable = False, f_writable = False, f_pipe = 0, f_ip = None, f_off = 0, f_major = 0\<rparr>),
     stvec = (\<lambda>_. 0), sepc = (\<lambda>_. 0), scause = (\<lambda>_. 0), stval = (\<lambda>_. 0), sip = (\<lambda>_. 0),
     a_kernelvec = 0, a_uservec = 0, a_userret = 0, a_usertrap = 0, forkret_first = True, plic_in = (\<lambda>_. []), plic_out = [],
     started = False\<rparr>"

text \<open>Process 0, with pid 1, runs on hart 0.\<close>

definition bss1 :: trapst where
  "bss1 = bss\<lparr>cpus := (\<lambda>_. zero_cpu)(0 := zero_cpu\<lparr>cpu_proc := Some 0\<rparr>),
     procs := (\<lambda>_. zero_proc)(0 := zero_proc\<lparr>p_state := RUNNING, p_pid := 1\<rparr>)\<rparr>"

lemma hart_bss [simp]: "hart_ok bss" "hart_ok bss1" "lock_free l bss" "lock_free l bss1"
  by (simp_all add: hart_ok_def lock_free_def mycpu_def intr_get_def bss_def bss1_def zero_cpu_def)

lemma calm_bss1 [simp]: "calm bss1"
  by (simp add: calm_def) (simp add: mycpu_def bss_def bss1_def zero_cpu_def)

lemma mypid_bss1 [simp]: "mypid bss1 = 1"
  by (simp add: mypid_def mycpu_def bss_def bss1_def zero_cpu_def)

end
