(* ===== verification/Bio_Init.thy ===== *)
theory Bio_Init
  imports Bio_Cache Bss
begin

text \<open>The buffer cache after \<open>binit\<close> (\<open>kernel/bio.c\<close>), and concrete caches.\<close>

section \<open>Initialisation\<close>

lemma binit_list:
  "yields (binit s) (\<lambda>_ t. dll (bufs t) (rev [0..<NBUF]) \<and> disk t = disk s \<and>
    (\<forall>b < NBUF. same_buf (bufs t b) (bufs s b) \<and> \<not> sl_locked (slks t (BufLk b))))"
proof -
  let ?s = "upd_buf bhead (\<lambda>q. q\<lparr>b_prev := bhead, b_next := bhead\<rparr>)
    (s\<lparr>lks := (lks s)(BcacheLock := \<lparr>lk_locked = 0, lk_name = ''bcache'', lk_cpu = None\<rparr>)\<rparr>)"
  let ?P = "\<lambda>i t. chain (bufs t) bhead (rev [0..<i]) bhead \<and> disk t = disk s \<and>
    (\<forall>b < NBUF. same_buf (bufs t b) (bufs s b)) \<and> (\<forall>b < i. \<not> sl_locked (slks t (BufLk b)))"
  have "yields (ofor [0..<NBUF] (\<lambda>b s. obind (initsleeplock (BufLk b) ''buffer'' s) (\<lambda>_ s.
      Done () (s\<lparr>bufs := blist_push b (bufs s)\<rparr>))) ?s) (\<lambda>_. ?P NBUF)"
  proof (rule ofor_upt [where P = ?P])
    show "?P 0 ?s" by (simp add: upd_buf_def)
  next
    fix i t assume i: "i < NBUF" and t: "?P i t"
    have c: "chain (blist_push i (bufs t)) bhead (i # rev [0..<i]) bhead"
      using t i by (intro blist_push_chain) auto
    have f: "\<forall>b < NBUF. same_buf (blist_push i (bufs t) b) (bufs s b)" using t by (simp add: same_buf_def)
    from c f t show "yields (obind (initsleeplock (BufLk i) ''buffer'' t) (\<lambda>_ s. Done () (s\<lparr>bufs := blist_push i (bufs s)\<rparr>))) (\<lambda>_. ?P (Suc i))"
      by (simp add: initsleeplock_def initlock_def less_Suc_eq del: chain.simps)
  qed simp
  then have "yields (ofor [0..<NBUF] (\<lambda>b s. obind (initsleeplock (BufLk b) ''buffer'' s) (\<lambda>_ s.
      Done () (s\<lparr>bufs := blist_push b (bufs s)\<rparr>))) ?s) (\<lambda>_ t. dll (bufs t) (rev [0..<NBUF]) \<and> disk t = disk s \<and>
    (\<forall>b < NBUF. same_buf (bufs t b) (bufs s b) \<and> \<not> sl_locked (slks t (BufLk b))))"
    by (rule yields_mono) (auto simp: dll_def)
  then show ?thesis by (simp add: binit_def initlock_def Let_def)
qed

text \<open>C7. \<open>binit\<close> establishes the invariant of the buffer cache: the buffers are on one circular list, no block
  is cached, referenced or held, and every block has the content it has on disk.\<close>

theorem binit_establishes_cache:
  assumes "\<forall>b < NBUF. b_dev (bufs s b) \<noteq> dev \<and> \<not> b_valid (bufs s b) \<and> b_refcnt (bufs s b) = 0"
  shows "yields (binit s) (\<lambda>_ t. bc_inv dev t \<and> content dev t = disk s \<and> refs dev t = (\<lambda>_. 0) \<and> held dev t = {})"
proof (rule yields_mono [OF binit_list])
  fix x t assume "dll (bufs t) (rev [0..<NBUF]) \<and> disk t = disk s \<and>
    (\<forall>b < NBUF. same_buf (bufs t b) (bufs s b) \<and> \<not> sl_locked (slks t (BufLk b)))"
  then have d: "dll (bufs t) (rev [0..<NBUF])" "disk t = disk s"
    and b: "\<And>b. b < NBUF \<Longrightarrow> b_dev (bufs t b) \<noteq> dev \<and> \<not> b_valid (bufs t b) \<and> b_refcnt (bufs t b) = 0 \<and> \<not> sl_locked (slks t (BufLk b))"
    using assms by (simp_all add: same_buf_def)
  have "cached dev (bufs t) n = None" for n using b by (simp add: cached_None)
  moreover have "bc_inv dev t" unfolding bc_inv_def using b d(1) by blast
  moreover have "held dev t = {}" using b by (auto simp: held_def)
  ultimately show "bc_inv dev t \<and> content dev t = disk s \<and> refs dev t = (\<lambda>_. 0) \<and> held dev t = {}"
    by (simp add: content_def refs_def fun_eq_iff d(2))
qed

theorem binit_establishes_cache_witness:
  "yields (binit bss) (\<lambda>_ t. bc_inv 1 t \<and> content 1 t = disk bss \<and> refs 1 t = (\<lambda>_. 0) \<and> held 1 t = {})"
  by (rule binit_establishes_cache) (simp add: bss_def zero_buf_def)

section \<open>Concrete caches\<close>

definition ring_buf :: "nat \<Rightarrow> buf" where
  "ring_buf i = zero_buf\<lparr>b_prev := if i = NBUF then 0 else i + 1, b_next := if i = 0 then NBUF else i - 1\<rparr>"

lemma chain_ring: "n \<le> NBUF \<Longrightarrow> chain ring_buf n (rev [0..<n]) bhead"
  by (induction n) (simp_all add: ring_buf_def)

lemma dll_ring: "dll ring_buf (rev [0..<NBUF])"
  unfolding dll_def using chain_ring [of NBUF] by (auto simp: lessThan_atLeast0)

text \<open>An empty cache over the disk \<open>D\<close>, with the log at block \<open>st\<close> of device 1.\<close>

definition fresh :: "uint32 \<Rightarrow> (uint32 \<Rightarrow> uint8 list) \<Rightarrow> trapst" where
  "fresh st D = bss1\<lparr>bufs := ring_buf, disk := D, log_start := st, log_dev := 1\<rparr>"

lemma calm_cong: "hart_ok t = hart_ok s \<Longrightarrow> lks t = lks s \<Longrightarrow> mycpu t = mycpu s \<Longrightarrow> calm t = calm s"
  by (simp add: calm_def lock_free_def)

lemma calm_log_fields [simp]:
  "calm (log_start_update f s) = calm s" "calm (log_dev_update g s) = calm s" "calm (lh_n_update h s) = calm s"
  "calm (lh_block_update k s) = calm s"
  by (rule calm_cong; simp add: hart_ok_def mycpu_def intr_get_def)+

lemma cache_fresh: "cache 1 (fresh st D) D (\<lambda>_. 0) {} D []"
proof -
  have b: "b_dev (ring_buf b) = 0" "\<not> b_valid (ring_buf b)" "b_refcnt (ring_buf b) = 0" for b
    by (simp_all add: ring_buf_def zero_buf_def)
  have s: "bufs (fresh st D) = ring_buf" "disk (fresh st D) = D" "disk_writes (fresh st D) = []" "\<not> sl_locked (slks (fresh st D) l)" for l
    by (simp_all add: fresh_def bss1_def bss_def)
  have "cached 1 ring_buf n = None" for n by (simp add: cached_None b)
  moreover have "bc_inv 1 (fresh st D)" unfolding bc_inv_def s using dll_ring b s(4) by auto
  moreover have "held 1 (fresh st D) = {}" by (simp add: held_def s)
  moreover have "calm (fresh st D)" by (simp add: fresh_def)
  ultimately show ?thesis by (simp add: cache_def content_def refs_def fun_eq_iff s)
qed

end
