(* ===== verification/Log_Crash.thy ===== *)
theory Log_Crash
  imports Log_View Bio_Init
begin

text \<open>
  Commit and recovery (\<open>kernel/log.c\<close>) on the buffer cache: the functions return, they write the blocks
  that the theory of log views lists, and a crash between any two writes loses or keeps the whole
  transaction.
\<close>

section \<open>Frame\<close>

lemma yields_bind: "yields m P \<Longrightarrow> (\<And>x t. P x t \<Longrightarrow> yields (f x t) Q) \<Longrightarrow> yields (obind m f) Q"
  by (cases m) simp_all

lemma log_settle [simp]:
  "lh_n (settle s) = lh_n s" "lh_block (settle s) = lh_block s" "log_start (settle s) = log_start s"
  "log_dev (settle s) = log_dev s" "log_size (settle s) = log_size s"
  "log_outstanding (settle s) = log_outstanding s" "log_committing (settle s) = log_committing s"
  by (simp_all add: settle_def)

lemma cache_step_log:
  assumes "cache_step s t"
  shows "lh_n t = lh_n s" and "lh_block t = lh_block s" and "log_start t = log_start s" and "log_dev t = log_dev s"
    and "log_size t = log_size s" and "log_outstanding t = log_outstanding s" and "log_committing t = log_committing s"
proof -
  obtain P L B D W where t: "settle t = settle (s\<lparr>procs := P, slks := L, bufs := B, disk := D, disk_writes := W\<rparr>)"
    using assms by (auto simp: cache_step_def)
  show "lh_n t = lh_n s" using arg_cong [OF t, of lh_n] by simp
  show "lh_block t = lh_block s" using arg_cong [OF t, of lh_block] by simp
  show "log_start t = log_start s" using arg_cong [OF t, of log_start] by simp
  show "log_dev t = log_dev s" using arg_cong [OF t, of log_dev] by simp
  show "log_size t = log_size s" using arg_cong [OF t, of log_size] by simp
  show "log_outstanding t = log_outstanding s" using arg_cong [OF t, of log_outstanding] by simp
  show "log_committing t = log_committing s" using arg_cong [OF t, of log_committing] by simp
qed

lemma mypid_log [simp]: "mypid (lh_n_update f s) = mypid s" "mypid (lh_block_update g s) = mypid s"
  by (simp_all add: mypid_def mycpu_def)

lemma cache_log [simp]:
  "cache dev (lh_n_update f s) = cache dev s" "cache dev (lh_block_update g s) = cache dev s"
  "holds_buf dev (lh_n_update f s) = holds_buf dev s" "holds_buf dev (lh_block_update g s) = holds_buf dev s"
  by (rule cache_cong holds_buf_cong; simp)+

lemma cache_step_refl [simp]: "cache_step s s"
  by (rule cache_step_plain) simp_all

lemma cache_disk: "cache dev s C R H D W \<Longrightarrow> disk s = D \<and> disk_writes s = W"
  by (simp add: cache_def)

lemma step_trans: "cache_step s t \<Longrightarrow> block_step dev n t u \<Longrightarrow> cache_step s u"
  by (blast intro: cache_step_trans block_stepD(1))

section \<open>Copying to the log\<close>

lemma write_log_step:
  assumes "cache dev s C R H D W" and "log_dev s = dev" and "log_copy (log_start s) i = a" and "lh_block s i = x"
    and "a \<noteq> x" and "a \<notin> H" and "x \<notin> H" and "R a = 0" and "R x = 1" and "card {n. R n \<noteq> 0} < NBUF"
  shows "yields (write_log_block i s)
    (\<lambda>_ t. cache dev t (C(a := C x)) R H (D(a := C x)) (W @ [(a, C x)]) \<and> cache_step s t)"
proof -
  obtain to t1 fr t2 where e1: "bread dev a s = Done to t1" and e2: "bread dev x t1 = Done fr t2" and s1: "cache_step s t1"
    and s2: "cache_step s t2" and c2: "cache dev t2 C (R(a := 1, x := R x + 1)) (insert x (insert a H)) D W"
    and to2: "holds_buf dev t2 to a" and h2: "holds_buf dev t2 fr x"
    by (rule bc.read_two [OF assms(1,5-8)]) (use assms(9,10) in simp_all)
  have "R x + 1 = 2" using assms(9) by simp
  note c2 = c2 [unfolded this]
  define t3 where "t3 = upd_buf to (\<lambda>q. q\<lparr>b_data := C x\<rparr>) t2"
  have c3: "cache dev t3 (C(a := C x)) (R(a := 1, x := 2)) (insert x (insert a H)) D W"
    and to3: "holds_buf dev t3 to a" and s3: "block_step dev a t2 t3"
    using store_spec [OF c2 to2, of "C x"] by (simp_all add: t3_def)
  note from3 = block_stepD(2) [OF s3 assms(5) [symmetric] h2]
  from bwrite_spec [OF c3 to3] obtain t4 where e4: "bwrite to t3 = Done () t4"
    and c4: "cache dev t4 (C(a := C x)) (R(a := 1, x := 2)) (insert x (insert a H)) (D(a := C x)) (W @ [(a, C x)])"
    and to4: "holds_buf dev t4 to a" and s4: "block_step dev a t3 t4" by (auto elim: yieldsE)
  note from4 = block_stepD(2) [OF s4 assms(5) [symmetric] from3]
  from brelse_spec [OF c4 from4] assms(5) obtain t5 where e5: "brelse fr t4 = Done () t5"
    and c5: "cache dev t5 (C(a := C x)) (R(a := 1, x := 1)) (insert x (insert a H) - {x}) (D(a := C x)) (W @ [(a, C x)])"
    and s5: "block_step dev x t4 t5" by (auto elim: yieldsE)
  note to5 = block_stepD(2) [OF s5 assms(5) to4]
  have R: "R(a := 1, x := 1, a := 0) = R" using assms(8,9) by auto
  have H: "insert x (insert a H) - {x} - {a} = H" using assms(6,7) by auto
  from brelse_spec [OF c5 to5] assms(5) obtain t6 where e6: "brelse to t5 = Done () t6"
    and c6: "cache dev t6 (C(a := C x)) (R(a := 1, x := 1, a := 0)) (insert x (insert a H) - {x} - {a}) (D(a := C x)) (W @ [(a, C x)])"
    and s6: "block_step dev a t5 t6" by (auto elim: yieldsE)
  have "cache_step s t6"
    by (rule s2 [THEN step_trans, OF s3, THEN step_trans, OF s4, THEN step_trans, OF s5, THEN step_trans, OF s6])
  moreover note l1 = cache_step_log [OF s1]
  ultimately show ?thesis
    using e1 e2 e4 e5 e6 c6 [unfolded R H] assms(2-4) held_buf(4) [OF c2 h2] by (simp add: write_log_block_def log_copy_def t3_def)
qed

text \<open>
  The log's own blocks are unused; \<open>r\<close> is the number of references to each block of the transaction
  (one pin during a commit, none during recovery), and nobody holds them.
\<close>

definition log_quiet :: "uint32 \<Rightarrow> nat \<Rightarrow> (nat \<Rightarrow> uint32) \<Rightarrow> uint32 \<Rightarrow> (uint32 \<Rightarrow> uint32) \<Rightarrow> uint32 set \<Rightarrow> bool" where
  "log_quiet st n blk r R H \<longleftrightarrow> (\<forall>x. in_log st x \<longrightarrow> R x = 0 \<and> x \<notin> H) \<and> (\<forall>i < n. R (blk i) = r \<and> blk i \<notin> H)"

lemma log_quietD:
  assumes "log_quiet st n blk r R H" and "txn st n blk" and "i < n"
  shows "R (log_copy st i) = 0" and "log_copy st i \<notin> H" and "R (blk i) = r" and "blk i \<notin> H" and "log_copy st i \<noteq> blk i"
    and "\<not> in_log st (blk i)"
proof -
  have i: "i < 29" "n < 30" "\<not> in_log st (blk i)" using assms(2,3) by (auto simp: txn_def)
  then show "R (log_copy st i) = 0" "log_copy st i \<notin> H" "R (blk i) = r" "blk i \<notin> H" "\<not> in_log st (blk i)"
    using assms(1,3) by (simp_all add: log_quiet_def)
  show "log_copy st i \<noteq> blk i" using not_in_log(2) [OF i(3) i(1)] .
qed

lemma copy_writes_Suc: "copy_writes st (Suc i) blk C = copy_writes st i blk C @ [(log_copy st i, C (blk i))]"
  by (simp add: copy_writes_def)

lemma home_writes_Suc: "home_writes (Suc i) blk f = home_writes i blk f @ [(blk i, f i)]"
  by (simp add: home_writes_def)

lemma write_log_spec:
  assumes "cache dev s C R H D W" and "log_dev s = dev" and "log_start s = st" and "lh_n s = int n" and "lh_block s = blk"
    and "txn st n blk" and "log_quiet st n blk 1 R H" and "card {n. R n \<noteq> 0} < NBUF"
  defines "ws \<equiv> copy_writes st n blk C"
  shows "yields (write_log s) (\<lambda>_ t. cache dev t (writes ws C) R H (writes ws D) (W @ ws) \<and> cache_step s t)"
proof -
  let ?w = "\<lambda>i. copy_writes st i blk C"
  let ?P = "\<lambda>i t. cache dev t (writes (?w i) C) R H (writes (?w i) D) (W @ ?w i) \<and> cache_step s t"
  have n: "n < 30" using assms(6) by (simp add: txn_def)
  have "yields (ofor [0..<n] write_log_block s) (\<lambda>_. ?P n)"
  proof (rule ofor_upt [where P = ?P])
    show "?P 0 s" using assms(1) by (simp add: copy_writes_def cache_step_refl)
    fix i t assume i: "i < n" and t: "?P i t"
    note l = cache_step_log [OF conjunct2 [OF t]] and q = log_quietD [OF assms(7,6) i]
    have "writes (?w i) C (blk i) = C (blk i)" using n i q(6) by simp
    with write_log_step [OF conjunct1 [OF t], where i = i and a = "log_copy st i" and x = "blk i"] l q assms(2,3,5,8)
    have "yields (write_log_block i t)
      (\<lambda>_ u. cache dev u (writes (?w (Suc i)) C) R H (writes (?w (Suc i)) D) (W @ ?w (Suc i)) \<and> cache_step t u)"
      by (simp add: copy_writes_Suc)
    then show "yields (write_log_block i t) (\<lambda>_. ?P (Suc i))"
      using t by (elim yields_mono) (blast intro: cache_step_trans)
  qed simp
  then show ?thesis by (simp add: write_log_def assms(4) ws_def)
qed

section \<open>Installing\<close>

text \<open>\<open>r\<close> is 1 during a commit, when the block is pinned and unpinned here, and 0 during recovery.\<close>

lemma install_step:
  assumes "cache dev s C R H D W" and "log_dev s = dev" and "log_copy (log_start s) i = a" and "lh_block s i = x"
    and "a \<noteq> x" and "a \<notin> H" and "x \<notin> H" and "R a = 0" and "R x = (if recovering then 0 else 1)"
    and "card {n. R n \<noteq> 0} + 1 < NBUF \<or> \<not> recovering \<and> card {n. R n \<noteq> 0} < NBUF"
  shows "yields (install_block recovering i s)
    (\<lambda>_ t. cache dev t (C(x := C a)) (R(x := 0)) H (D(x := C a)) (W @ [(x, C a)]) \<and> cache_step s t)"
proof -
  obtain lb t1 db t2 where e1: "bread dev a s = Done lb t1" and e2: "bread dev x t1 = Done db t2" and s1: "cache_step s t1"
    and s2: "cache_step s t2" and c2: "cache dev t2 C (R(a := 1, x := R x + 1)) (insert x (insert a H)) D W"
    and lb2: "holds_buf dev t2 lb a" and h2: "holds_buf dev t2 db x"
    by (rule bc.read_two [OF assms(1,5-8)]) (use assms(9,10) in \<open>simp_all split: if_splits\<close>)
  define t3 where "t3 = upd_buf db (\<lambda>q. q\<lparr>b_data := C a\<rparr>) t2"
  have c3: "cache dev t3 (C(x := C a)) (R(a := 1, x := R x + 1)) (insert x (insert a H)) D W"
    and db3: "holds_buf dev t3 db x" and s3: "block_step dev x t2 t3"
    using store_spec [OF c2 h2, of "C a"] by (simp_all add: t3_def)
  from bwrite_spec [OF c3 db3] obtain t4 where e4: "bwrite db t3 = Done () t4"
    and c4: "cache dev t4 (C(x := C a)) (R(a := 1, x := R x + 1)) (insert x (insert a H)) (D(x := C a)) (W @ [(x, C a)])"
    and db4: "holds_buf dev t4 db x" and s4: "block_step dev x t3 t4" by (auto elim: yieldsE)
  have "yields (if \<not> recovering then bunpin db t4 else Done () t4)
    (\<lambda>_ t. cache dev t (C(x := C a)) (R(a := 1, x := 1)) (insert x (insert a H)) (D(x := C a)) (W @ [(x, C a)]) \<and>
      holds_buf dev t db x \<and> block_step dev x t4 t)"
    using c4 db4 bunpin_spec [OF c4 db4] assms(9) by (auto simp: block_step_def)
  then obtain t5 where e5: "(if \<not> recovering then bunpin db t4 else Done () t4) = Done () t5"
    and c5: "cache dev t5 (C(x := C a)) (R(a := 1, x := 1)) (insert x (insert a H)) (D(x := C a)) (W @ [(x, C a)])"
    and db5: "holds_buf dev t5 db x" and s5: "block_step dev x t4 t5" by (rule yieldsE) auto
  note lb5 = block_stepD(2) [OF s5 assms(5) block_stepD(2) [OF s4 assms(5) block_stepD(2) [OF s3 assms(5) lb2]]]
  have "C a = D a" by (rule bc.unreferenced [OF assms(1,8)])
  with brelse_spec [OF c5 lb5] assms(5) obtain t6 where e6: "brelse lb t5 = Done () t6"
    and c6: "cache dev t6 (C(x := C a)) (R(a := 1, x := 1, a := 0)) (insert x (insert a H) - {a}) (D(x := C a)) (W @ [(x, C a)])"
    and s6: "block_step dev a t5 t6" by (auto elim: yieldsE)
  note db6 = block_stepD(2) [OF s6 assms(5) [symmetric] db5]
  have R: "R(a := 1, x := 1, a := 0, x := 0) = R(x := 0)" using assms(8) by auto
  have H: "insert x (insert a H) - {a} - {x} = H" using assms(6,7) by auto
  from brelse_spec [OF c6 db6] assms(5) obtain t7 where e7: "brelse db t6 = Done () t7"
    and c7: "cache dev t7 (C(x := C a)) (R(a := 1, x := 1, a := 0, x := 0)) (insert x (insert a H) - {a} - {x}) (D(x := C a)) (W @ [(x, C a)])"
    and s7: "block_step dev x t6 t7" by (auto elim: yieldsE)
  have "cache_step s t7"
    by (rule s2 [THEN step_trans, OF s3, THEN step_trans, OF s4, THEN step_trans, OF s5, THEN step_trans, OF s6, THEN step_trans, OF s7])
  moreover note l1 = cache_step_log [OF s1]
  ultimately show ?thesis
    using e1 e2 e4 e5 e6 e7 c7 [unfolded R H] assms(2-4) held_buf(4) [OF c2 lb2] by (simp add: install_block_def log_copy_def t3_def)
qed

definition unref :: "nat \<Rightarrow> (nat \<Rightarrow> uint32) \<Rightarrow> (uint32 \<Rightarrow> uint32) \<Rightarrow> uint32 \<Rightarrow> uint32" where
  "unref n blk R x = (if \<exists>i < n. x = blk i then 0 else R x)"

lemma unref_0 [simp]: "unref 0 blk R = R"
  and unref_Suc: "unref (Suc i) blk R = (unref i blk R)(blk i := 0)"
  by (auto simp: unref_def fun_eq_iff less_Suc_eq)

lemma card_unref: "card {x. unref i blk R x \<noteq> 0} \<le> card {x. R x \<noteq> 0}"
  by (rule card_mono) (auto simp: unref_def)

lemma install_trans_spec:
  assumes "cache dev s C R H D W" and "log_dev s = dev" and "log_start s = st" and "lh_n s = int n"
    and "txn st n (lh_block s)" and "log_quiet st n (lh_block s) (if recovering then 0 else 1) R H"
    and "card {n. R n \<noteq> 0} + 1 < NBUF \<or> \<not> recovering \<and> card {n. R n \<noteq> 0} < NBUF"
  defines "ws \<equiv> home_writes n (lh_block s) (\<lambda>i. C (log_copy st i))"
  shows "yields (install_trans recovering s) (\<lambda>_ t. cache dev t (writes ws C) (unref n (lh_block s) R) H (writes ws D) (W @ ws) \<and> cache_step s t)"
proof -
  define blk where "blk = lh_block s"
  let ?w = "\<lambda>i. home_writes i blk (\<lambda>i. C (log_copy st i))"
  let ?P = "\<lambda>i t. cache dev t (writes (?w i) C) (unref i blk R) H (writes (?w i) D) (W @ ?w i) \<and> cache_step s t"
  have "yields (ofor [0..<n] (install_block recovering) s) (\<lambda>_. ?P n)"
  proof (rule ofor_upt [where P = ?P])
    show "?P 0 s" using assms(1) by (simp add: home_writes_def)
    fix i t assume i: "i < n" and t: "?P i t"
    note l = cache_step_log [OF conjunct2 [OF t]] and q = log_quietD [OF assms(6,5) i, folded blk_def]
    have "i < 29" and txn: "\<And>j. j < n \<Longrightarrow> \<not> in_log st (blk j)" "\<And>j. j < n \<Longrightarrow> blk j = blk i \<Longrightarrow> j = i"
      using assms(5) i by (auto simp: txn_def blk_def)
    then have ne: "blk j \<noteq> log_copy st i" if "j < n" for j using not_in_log(2) [OF txn(1) [OF that]] by metis
    then have c: "writes (?w i) C (log_copy st i) = C (log_copy st i)" using i by simp
    have u: "unref i blk R (blk i) = R (blk i)" "unref i blk R (log_copy st i) = R (log_copy st i)"
      using txn(2) i ne unfolding unref_def by (metis less_trans nat_neq_iff)+
    have "yields (install_block recovering i t)
      (\<lambda>_ u. cache dev u (writes (?w (Suc i)) C) (unref (Suc i) blk R) H (writes (?w (Suc i)) D) (W @ ?w (Suc i)) \<and> cache_step t u)"
      using install_step [OF conjunct1 [OF t], where i = i and a = "log_copy st i" and x = "blk i" and recovering = recovering]
        l q u c assms(2,3,7) card_unref [of i blk R] by (auto simp: home_writes_Suc unref_Suc blk_def)
    then show "yields (install_block recovering i t) (\<lambda>_. ?P (Suc i))"
      using t by (elim yields_mono) (blast intro: cache_step_trans)
  qed simp
  then show ?thesis by (simp add: install_trans_def assms(4) ws_def blk_def)
qed

section \<open>The header\<close>

lemma write_head_spec:
  assumes "cache dev s C R H D W" and "log_dev s = dev" and "log_start s = st" and "R st = 0" and "st \<notin> H" and "card {n. R n \<noteq> 0} < NBUF"
  defines "h \<equiv> put_head (lh_n s) (lh_block s) (C st)"
  shows "yields (write_head s) (\<lambda>_ t. cache dev t (C(st := h)) R H (D(st := h)) (W @ [(st, h)]) \<and> cache_step s t)"
proof -
  obtain b t where e: "bread dev st s = Done b t" and d: "buf_data t b = C st"
    and t: "cache dev t C (R(st := 1)) (insert st H) D W" "holds_buf dev t b st" and st: "cache_step s t"
    by (rule bc.read_only [OF assms(1,5,4,6)])
  obtain u v where w: "bwrite b (store_data b h t) = Done () u" "brelse b u = Done () v"
    "cache dev v (C(st := h)) R H (D(st := h)) (W @ [(st, h)])" "cache_step t v"
    by (rule bc.replace [OF t assms(5,4)])
  have "upd_buf b (\<lambda>q. q\<lparr>b_data := put_head (lh_n t) (lh_block t) (b_data q)\<rparr>) t = store_data b h t"
    unfolding store_data_def using d cache_step_log [OF st] by (intro upd_buf_cong) (simp add: h_def buf_data_def)
  with e w cache_step_trans [OF st w(4)] assms(2,3) show ?thesis by (simp add: write_head_def)
qed

lemma read_head_spec:
  assumes "cache dev s C R H D W" and "log_dev s = dev" and "log_start s = st" and "R st = 0" and "st \<notin> H" and "card {n. R n \<noteq> 0} < NBUF"
  shows "yields (read_head s) (\<lambda>_ t. cache dev t C R H D W \<and> lh_n t = head_n (C st) \<and>
    (\<forall>i. int i < head_n (C st) \<longrightarrow> lh_block t i = head_block i (C st)) \<and> log_dev t = dev \<and> log_start t = st)"
proof -
  obtain b t where e: "bread dev st s = Done b t" and d: "buf_data t b = C st"
    and t: "cache dev t C (R(st := 1)) (insert st H) D W" "holds_buf dev t b st" and st: "cache_step s t"
    by (rule bc.read_only [OF assms(1,5,4,6)])
  define t' where "t' = (t\<lparr>lh_n := head_n (C st),
    lh_block := (\<lambda>i. if int i < head_n (C st) then head_block i (C st) else lh_block t i)\<rparr>)"
  have t': "cache dev t' C (R(st := 1)) (insert st H) D W" "holds_buf dev t' b st" using t by (simp_all add: t'_def)
  obtain u where u: "brelse b t' = Done () u" "cache dev u C R H D W" "cache_step t' u"
    by (rule bc.give_back [OF t' assms(5,4) bc.unreferenced [OF assms(1,4)]])
  show ?thesis
    using e d u(1,2) assms(2,3) cache_step_log(3,4) [OF st] cache_step_log [OF u(3)]
    by (simp add: read_head_def buf_data_def t'_def Let_def cong: if_cong)
qed

section \<open>Commit and recovery\<close>

lemma log_quiet_start: "log_quiet st n blk r R H \<Longrightarrow> R st = 0 \<and> st \<notin> H"
  by (simp add: log_quiet_def)

lemma home_writes_log:
  assumes "txn st n blk"
  shows "writes (home_writes n blk f) C st = C st"
  using assms not_in_log(1) by (intro home_writes_off) (metis txn_def)

lemma commit_spec:
  assumes "cache dev s C R H D W" and "log_dev s = dev" and "log_start s = st" and "lh_n s = int n" and "0 < n"
    and "txn st n (lh_block s)" and "log_quiet st n (lh_block s) 1 R H" and "card {n. R n \<noteq> 0} < NBUF"
  defines "ws \<equiv> commit_writes st n (lh_block s) C (D st)"
  shows "yields (commit s) (\<lambda>_ t. cache dev t (writes ws C) (unref n (lh_block s) R) H (writes ws D) (W @ ws) \<and>
    lh_n t = 0 \<and> log_dev t = dev \<and> log_start t = st)"
proof -
  define blk where "blk = lh_block s"
  note q = log_quiet_start [OF assms(7)]
  have n: "n < 30" using assms(6) by (simp add: txn_def)
  let ?w1 = "copy_writes st n blk C"
  define h where "h = put_head (int n) blk (D st)"
  define C2 where "C2 = (writes ?w1 C)(st := h)"
  define D2 where "D2 = (writes ?w1 D)(st := h)"
  let ?w2 = "home_writes n blk (\<lambda>i. C2 (log_copy st i))"
  have st: "C st = D st" using bc.unreferenced [OF assms(1)] q by simp
  from write_log_spec [OF assms(1-4) refl assms(6-8)] obtain t1 where e1: "write_log s = Done () t1"
    and c1: "cache dev t1 (writes ?w1 C) R H (writes ?w1 D) (W @ ?w1)" and s1: "cache_step s t1"
    by (auto simp: blk_def elim: yieldsE)
  note l1 = cache_step_log [OF s1]
  have "yields (write_head t1) (\<lambda>_ t. cache dev t C2 R H D2 (W @ ?w1 @ [(st, h)]) \<and> cache_step t1 t)"
    using write_head_spec [OF c1, where st = st] q l1 assms(2-4,8) n by (simp add: h_def C2_def D2_def st blk_def)
  then obtain t2 where e2: "write_head t1 = Done () t2"
    and c2: "cache dev t2 C2 R H D2 (W @ ?w1 @ [(st, h)])" and s2: "cache_step s t2"
    by (rule yieldsE) (use cache_step_trans [OF s1] in auto)
  note l2 = cache_step_log [OF s2]
  have i2: "yields (install_trans False t2)
    (\<lambda>_ t. cache dev t (writes ?w2 C2) (unref n blk R) H (writes ?w2 D2) ((W @ ?w1 @ [(st, h)]) @ ?w2) \<and> cache_step t2 t)"
    using install_trans_spec [OF c2, where st = st and n = n and recovering = False] l2 assms(2-4,6-8) by (simp add: blk_def)
  then obtain t3 where e3: "install_trans False t2 = Done () t3"
    and c3: "cache dev t3 (writes ?w2 C2) (unref n blk R) H (writes ?w2 D2) ((W @ ?w1 @ [(st, h)]) @ ?w2)" and s3: "cache_step s t3"
    by (rule yieldsE) (use cache_step_trans [OF s2] in auto)
  note l3 = cache_step_log [OF s3]
  have u: "unref n blk R st = 0" "card {x. unref n blk R x \<noteq> 0} < NBUF" using q card_unref [of n blk R] assms(8) by (auto simp: unref_def)
  have c3': "cache dev (t3\<lparr>lh_n := 0\<rparr>) (writes ?w2 C2) (unref n blk R) H (writes ?w2 D2) ((W @ ?w1 @ [(st, h)]) @ ?w2)"
    using c3 by simp
  have hd: "writes ?w2 C2 st = h" using home_writes_log [OF assms(6)] by (simp add: blk_def C2_def)
  have b3: "lh_block t3 = blk" using l3(2) by (simp add: blk_def)
  have "yields (write_head (t3\<lparr>lh_n := 0\<rparr>)) (\<lambda>_ t. cache dev t ((writes ?w2 C2)(st := put_head 0 blk h)) (unref n blk R) H
      ((writes ?w2 D2)(st := put_head 0 blk h)) (((W @ ?w1 @ [(st, h)]) @ ?w2) @ [(st, put_head 0 blk h)]) \<and> cache_step (t3\<lparr>lh_n := 0\<rparr>) t)"
    using write_head_spec [OF c3', of st] u q l3(3,4) assms(2,3) by (simp add: hd b3)
  then obtain t4 where e4: "write_head (t3\<lparr>lh_n := 0\<rparr>) = Done () t4"
    and c4: "cache dev t4 ((writes ?w2 C2)(st := put_head 0 blk h)) (unref n blk R) H
      ((writes ?w2 D2)(st := put_head 0 blk h)) (((W @ ?w1 @ [(st, h)]) @ ?w2) @ [(st, put_head 0 blk h)])"
    and s4: "cache_step (t3\<lparr>lh_n := 0\<rparr>) t4" by (rule yieldsE) auto
  have "?w2 = home_writes n blk (\<lambda>i. C (blk i))" using n by (simp add: home_writes_def C2_def)
  then have "ws = ?w1 @ [(st, h)] @ ?w2 @ [(st, put_head 0 blk h)]" by (simp add: ws_def commit_writes_def blk_def h_def)
  with c4 have "cache dev t4 (writes ws C) (unref n blk R) H (writes ws D) (W @ ws)" by (simp add: writes_append C2_def D2_def)
  with e1 e2 e3 e4 cache_step_log [OF s4] l3 assms(2-5) show ?thesis by (simp add: commit_def blk_def)
qed

definition recover_writes :: "uint32 \<Rightarrow> (uint32 \<Rightarrow> uint8 list) \<Rightarrow> (uint32 \<times> uint8 list) list" where
  "recover_writes st D = install_writes st (nat (head_n (D st))) D @ [(st, put_head 0 (\<lambda>_. 0) (D st))]"

lemma put_head_0: "put_head 0 blk d = put_head 0 (\<lambda>_. 0) d"
  by (simp add: put_head_def)

lemma recover_spec:
  assumes "cache dev s D (\<lambda>_. 0) {} D W" and "log_dev s = dev" and "log_start s = st" and "log_sound st D"
  defines "ws \<equiv> recover_writes st D"
  shows "yields (recover_from_log s) (\<lambda>_ t. cache dev t (writes ws D) (\<lambda>_. 0) {} (writes ws D) (W @ ws) \<and>
    lh_n t = 0 \<and> log_dev t = dev \<and> log_start t = st)"
proof -
  define n where "n = nat (head_n (D st))"
  have hn: "head_n (D st) = int n" using assms(4) by (simp add: n_def log_sound_def)
  let ?w = "install_writes st n D"
  have "yields (read_head s) (\<lambda>_ t. cache dev t D (\<lambda>_. 0) {} D W \<and> lh_n t = head_n (D st) \<and>
    (\<forall>i. int i < head_n (D st) \<longrightarrow> lh_block t i = head_block i (D st)) \<and> log_dev t = dev \<and> log_start t = st)"
    by (rule read_head_spec [OF assms(1-3)]) simp_all
  then obtain t1 where e1: "read_head s = Done () t1" and c1: "cache dev t1 D (\<lambda>_. 0) {} D W"
    and l1: "lh_n t1 = int n" "\<And>i. i < n \<Longrightarrow> lh_block t1 i = head_block i (D st)" "log_dev t1 = dev" "log_start t1 = st"
    unfolding hn by (rule yieldsE) simp
  have w: "home_writes n (lh_block t1) (\<lambda>i. D (log_copy st i)) = ?w"
    by (simp add: home_writes_def install_writes_def l1(2))
  have txn: "txn st n (lh_block t1)" using assms(4) by (auto simp: txn_def log_sound_def hn l1(2))
  have u: "unref n (lh_block t1) (\<lambda>_. 0) = (\<lambda>_. 0)" by (simp add: unref_def fun_eq_iff)
  have "yields (install_trans True t1) (\<lambda>_ t. cache dev t (writes ?w D) (\<lambda>_. 0) {} (writes ?w D) (W @ ?w) \<and> cache_step t1 t)"
    using install_trans_spec [OF c1 l1(3,4,1) txn, of True] by (simp add: w u log_quiet_def)
  then obtain t2 where e2: "install_trans True t1 = Done () t2" and c2: "cache dev t2 (writes ?w D) (\<lambda>_. 0) {} (writes ?w D) (W @ ?w)"
    and s2: "cache_step t1 t2" by (rule yieldsE) auto
  note l2 = cache_step_log [OF s2]
  have hd: "writes ?w D st = D st" by (rule install_prefix(2) [OF assms(4)]) (simp add: n_def)
  have ws: "ws = ?w @ [(st, put_head 0 (\<lambda>_. 0) (D st))]" by (simp add: ws_def recover_writes_def n_def)
  have c2': "cache dev (t2\<lparr>lh_n := 0\<rparr>) (writes ?w D) (\<lambda>_. 0) {} (writes ?w D) (W @ ?w)" using c2 by simp
  have "yields (write_head (t2\<lparr>lh_n := 0\<rparr>)) (\<lambda>_ t. cache dev t (writes ws D) (\<lambda>_. 0) {} (writes ws D) (W @ ws) \<and> cache_step (t2\<lparr>lh_n := 0\<rparr>) t)"
    using write_head_spec [OF c2', of st] l1 l2(3,4) put_head_0 [of "lh_block t2" "D st"] by (simp add: hd ws)
  then obtain t3 where e3: "write_head (t2\<lparr>lh_n := 0\<rparr>) = Done () t3" and c3: "cache dev t3 (writes ws D) (\<lambda>_. 0) {} (writes ws D) (W @ ws)"
    and s3: "cache_step (t2\<lparr>lh_n := 0\<rparr>) t3" by (rule yieldsE) auto
  show ?thesis using e1 e2 e3 c3 cache_step_log [OF s3] l1(3,4) l2(3,4) by (simp add: recover_from_log_def)
qed

lemma recover_prefix:
  assumes "log_sound st D" and "k \<le> length (recover_writes st D)"
  defines "D' \<equiv> writes (take k (recover_writes st D)) D"
  shows "log_sound st D' \<and> same_off_log st (log_view st D') (log_view st D)"
    and "k = length (recover_writes st D) \<Longrightarrow> head_n (D' st) = 0 \<and> same_off_log st D' (log_view st D)"
proof -
  define n where "n = nat (head_n (D st))"
  have len: "length (recover_writes st D) = Suc n" by (simp add: recover_writes_def install_writes_def n_def)
  have pre: "D' = writes (install_writes st k D) D" if "k \<le> n"
    using that by (simp add: D'_def recover_writes_def install_writes_def n_def)
  have "writes (install_writes st n D) D st = D st" by (rule install_prefix(2) [OF assms(1)]) (simp add: n_def)
  then have fin: "D' = (writes (install_writes st n D) D)(st := put_head 0 (\<lambda>_. 0) (D st))" if "k = Suc n"
    using that len by (simp add: D'_def) (simp add: recover_writes_def n_def)
  show cleared: "head_n (D' st) = 0 \<and> same_off_log st D' (log_view st D)" if "k = length (recover_writes st D)"
    using install_done [OF assms(1) n_def fin] that len by simp
  show "log_sound st D' \<and> same_off_log st (log_view st D') (log_view st D)"
  proof (cases "k \<le> n")
    case True
    with install_prefix(1) [OF assms(1), of k] pre show ?thesis by (simp add: n_def)
  next
    case False
    with assms(2) len have "k = Suc n" by simp
    with cleared len install_done(1) [OF assms(1) n_def fin] show ?thesis by (simp add: log_view_empty)
  qed
qed

text \<open>A transaction of one block: block 100 of an empty disk is to be filled with sevens; the log starts at block 2.\<close>

definition blank :: "uint32 \<Rightarrow> uint8 list" where
  "blank = (\<lambda>_. replicate BSIZE 0)"

definition txn1 :: trapst where
  "txn1 = upd_buf 0 (\<lambda>q. q\<lparr>b_valid := True, b_dev := 1, b_blockno := 100, b_refcnt := 1, b_data := replicate BSIZE 7\<rparr>)
     ((fresh 2 blank)\<lparr>lh_n := 1, lh_block := (\<lambda>_. 100)\<rparr>)"

lemma fresh_fields [simp]:
  "bufs (fresh st D) = ring_buf" "disk (fresh st D) = D" "disk_writes (fresh st D) = []" "\<not> sl_locked (slks (fresh st D) l)"
  "log_dev (fresh st D) = 1" "log_start (fresh st D) = st"
  by (simp_all add: fresh_def bss1_def bss_def)

lemma cache_txn1: "cache 1 txn1 (blank(100 := replicate BSIZE 7)) ((\<lambda>_. 0)(100 := 1)) {} blank []"
proof -
  let ?s = "(fresh 2 blank)\<lparr>lh_n := 1, lh_block := (\<lambda>_. 100)\<rparr>"
  have c: "cache 1 ?s blank (\<lambda>_. 0) {} blank []" using cache_fresh by simp
  then have inv: "bc_inv 1 ?s" unfolding cache_def by blast
  have b: "b_dev (ring_buf b) = 0" "b_refcnt (ring_buf b) = 0" for b by (simp_all add: ring_buf_def zero_buf_def)
  have "cached 1 ring_buf 100 = None" by (simp add: cached_None b)
  moreover have "dll (bufs txn1) (rev [0..<NBUF])" using dll_ring by (simp add: txn1_def dll_upd_buf)
  ultimately have cs: "cache_set 1 ?s txn1 0 100"
    using inv b by (auto simp: cache_set_def txn1_def same_buf_def)
  have "cache_step ?s txn1" unfolding txn1_def by (rule cache_step_plain) (simp_all add: upd_buf_def)
  from cache_set_step(1) [OF c cs this] show ?thesis by (simp add: txn1_def)
qed

lemma log_sound_blank: "log_sound 2 blank" "head_n (blank 2) = 0"
proof -
  have "replicate 4 (0 :: uint8) = [0, 0, 0, 0]" by (simp add: numeral_eq_Suc)
  then show h: "head_n (blank 2) = 0" by (simp add: blank_def head_n_def get_le_def)
  then show "log_sound 2 blank" by (simp add: log_sound_def) (simp add: blank_def)
qed

text \<open>C1. A commit is atomic under crashes: it returns with the transaction on disk and an empty log;
  and if the machine stops after any number of its disk writes and the log is recovered on a fresh buffer
  cache, the disk outside of the log area holds the old contents throughout or the new contents throughout,
  the new ones from the write of the log header on.\<close>

theorem commit_crash_atomic:
  assumes "cache dev s C R H D W" and "log_dev s = dev" and "log_start s = st" and "lh_n s = int n" and "0 < n"
    and "txn st n (lh_block s)" and "log_quiet st n (lh_block s) 1 R H" and "card {n. R n \<noteq> 0} < NBUF"
    and "log_sound st D" and "head_n (D st) = 0" and "\<forall>x. \<not> in_log st x \<and> (\<forall>i < n. x \<noteq> lh_block s i) \<longrightarrow> C x = D x"
  shows "yields (commit s) (\<lambda>_ t. \<exists>ws. disk_writes t = W @ ws \<and> disk t = writes ws D \<and> lh_n t = 0 \<and>
    head_n (disk t st) = 0 \<and> same_off_log st (disk t) C \<and>
    (\<forall>k \<le> length ws. \<forall>r W'. cache dev r (writes (take k ws) D) (\<lambda>_. 0) {} (writes (take k ws) D) W' \<and> log_dev r = dev \<and> log_start r = st \<longrightarrow>
       yields (recover_from_log r) (\<lambda>_ u. same_off_log st (disk u) (if k \<le> n then D else C))))"
proof -
  let ?ws = "commit_writes st n (lh_block s) C (D st)"
  note p = commit_prefix [OF assms(9,10,6) _ assms(11)]
  have rec: "yields (recover_from_log r) (\<lambda>_ u. same_off_log st (disk u) (if k \<le> n then D else C))"
    if "k \<le> length ?ws" and "cache dev r (writes (take k ?ws) D) (\<lambda>_. 0) {} (writes (take k ?ws) D) W'" "log_dev r = dev" "log_start r = st"
    for k r W'
  proof -
    let ?E = "writes (take k ?ws) D"
    have s: "log_sound st ?E" and v: "same_off_log st (log_view st ?E) (if k \<le> n then D else C)" using p [of k] that(1) by simp_all
    have f: "same_off_log st (writes (recover_writes st ?E) ?E) (log_view st ?E)"
      using recover_prefix(2) [OF s order_refl refl] by simp
    show ?thesis
      by (rule yields_mono [OF recover_spec [OF that(2-4) s]]) (simp add: cache_def same_off_log_trans [OF f v] del: if_split)
  qed
  then have all: "\<forall>k \<le> length ?ws. \<forall>r W'. cache dev r (writes (take k ?ws) D) (\<lambda>_. 0) {} (writes (take k ?ws) D) W' \<and>
      log_dev r = dev \<and> log_start r = st \<longrightarrow>
      yields (recover_from_log r) (\<lambda>_ u. same_off_log st (disk u) (if k \<le> n then D else C))" by blast
  have "writes ?ws D st = put_head 0 (lh_block s) (put_head (int n) (lh_block s) (D st))"
    by (simp add: commit_writes_def writes_append)
  then have h: "head_n (writes ?ws D st) = 0"
    using head_put_head(1) [of 0 "put_head (int n) (lh_block s) (D st)" "lh_block s"] assms(6,9) by (simp add: log_sound_def txn_def)
  then have o: "same_off_log st (writes ?ws D) C" using p [of "2 * n + 2"] by (simp add: log_view_empty)
  show ?thesis
    by (intro yields_mono [OF commit_spec [OF assms(1-8)]] exI [of _ ?ws] conjI; (rule all | use h o in \<open>simp add: cache_def\<close>))
qed

theorem commit_crash_atomic_witness:
  "yields (commit txn1) (\<lambda>_ t. same_off_log 2 (disk t) (blank(100 := replicate BSIZE 7)) \<and>
     (\<exists>ws. disk_writes t = ws \<and> (\<forall>k \<le> length ws. yields (recover_from_log (fresh 2 (writes (take k ws) blank)))
        (\<lambda>_ u. same_off_log 2 (disk u) (if k \<le> 1 then blank else blank(100 := replicate BSIZE 7))))))"
proof -
  have l: "log_dev txn1 = 1" "log_start txn1 = 2" "lh_n txn1 = int 1" "lh_block txn1 = (\<lambda>_. 100)"
    by (simp_all add: txn1_def fresh_def bss1_def bss_def upd_buf_def)
  have h: "0 < (1 :: nat)" "txn 2 1 (lh_block txn1)" "log_quiet 2 1 (lh_block txn1) 1 ((\<lambda>_. 0)(100 := 1)) {}"
    by (auto simp: txn_def log_quiet_def in_log_def l(4))
  have "{n. ((\<lambda>_. 0)(100 := 1 :: uint32)) n \<noteq> 0} = {100 :: uint32}" by auto
  then have c: "card {n. ((\<lambda>_. 0)(100 := 1 :: uint32)) n \<noteq> (0 :: uint32)} < NBUF" by simp
  have o: "\<forall>x. \<not> in_log 2 x \<and> (\<forall>i < 1. x \<noteq> lh_block txn1 i) \<longrightarrow> (blank(100 := replicate BSIZE 7)) x = blank x" by (simp add: l(4))
  note w = commit_crash_atomic [OF cache_txn1 l(1-3) h c log_sound_blank o]
  show ?thesis
    by (rule yields_mono [OF w]) (use cache_fresh [of 2] fresh_fields(5,6) in fastforce)
qed

text \<open>C4. Recovery always completes and can be restarted: it installs what the log stands for and empties the
  log; if it is itself interrupted after any of its disk writes, the log on disk is still sound and stands
  for the same contents.\<close>

theorem recovery_restartable:
  assumes "cache dev s D (\<lambda>_. 0) {} D W" and "log_dev s = dev" and "log_start s = st" and "log_sound st D"
  shows "yields (recover_from_log s) (\<lambda>_ t. \<exists>ws. disk_writes t = W @ ws \<and> disk t = writes ws D \<and>
    head_n (disk t st) = 0 \<and> same_off_log st (disk t) (log_view st D) \<and>
    (\<forall>k \<le> length ws. log_sound st (writes (take k ws) D) \<and>
       same_off_log st (log_view st (writes (take k ws) D)) (log_view st D)))"
proof -
  let ?ws = "recover_writes st D"
  have "head_n (writes ?ws D st) = 0 \<and> same_off_log st (writes ?ws D) (log_view st D)"
    using recover_prefix(2) [OF assms(4) order_refl refl] by simp
  then show ?thesis
    using recover_prefix(1) [OF assms(4)]
    by (intro yields_mono [OF recover_spec [OF assms]]) (auto simp: cache_def intro!: exI [of _ ?ws])
qed

theorem recovery_restartable_witness:
  "yields (recover_from_log (fresh 2 blank)) (\<lambda>_ t. head_n (disk t 2) = 0 \<and> same_off_log 2 (disk t) (log_view 2 blank))"
  by (rule yields_mono [OF recovery_restartable [OF cache_fresh, of 2]]) (auto simp: log_sound_blank)

end
