(* ===== verification/Fs_View.thy ===== *)
theory Fs_View
  imports Log_Crash
begin

unbundle bit_operations_syntax

text \<open>
  Transactions as the file system (\<open>kernel/fs.c\<close>) sees them. Between \<open>begin_op\<close> and \<open>end_op\<close> the blocks of the
  device have contents \<open>C\<close>, the blocks in \<open>L\<close> are in the log, and the process holds the buffers of the
  blocks in \<open>H\<close>. \<open>bread\<close>, \<open>log_write\<close> and \<open>brelse\<close> are given on this view; the operations of the file system are
  then functions on block contents.
\<close>

section \<open>The view\<close>

text \<open>Every logged block is pinned once, every held block is referenced once more.\<close>

definition txn_refs :: "uint32 set \<Rightarrow> uint32 set \<Rightarrow> uint32 \<Rightarrow> uint32" where
  "txn_refs L H n = (if n \<in> L then 1 else 0) + (if n \<in> H then 1 else 0)"

text \<open>The log header lists exactly the blocks in \<open>L\<close>, and an operation is in progress.\<close>

definition logged :: "('a) logst_scheme \<Rightarrow> uint32 set \<Rightarrow> bool" where
  "logged s L \<longleftrightarrow> 1 \<le> log_outstanding s \<and>
     (\<exists>ns. distinct ns \<and> set ns = L \<and> lh_n s = int (length ns) \<and> map (lh_block s) [0..<length ns] = ns)"

definition tx :: "uint32 \<Rightarrow> ('a) logst_scheme \<Rightarrow> (uint32 \<Rightarrow> uint8 list) \<Rightarrow> uint32 set \<Rightarrow> uint32 set \<Rightarrow> (uint32 \<Rightarrow> uint8 list) \<Rightarrow> bool" where
  "tx dev s C L H D \<longleftrightarrow> (\<exists>W. cache dev s C (txn_refs L H) H D W) \<and> logged s L"

text \<open>What an operation on blocks leaves alone: only the cache, the log header and sleeping processes change.\<close>

definition fs_step :: "('a) logst_scheme \<Rightarrow> ('a) logst_scheme \<Rightarrow> bool" where
  "fs_step s t \<longleftrightarrow> (\<exists>P L B D W N K. settle t = settle (s\<lparr>procs := P, slks := L, bufs := B, disk := D, disk_writes := W,
     lh_n := N, lh_block := K\<rparr>) \<and> wakes (procs s) P)"

lemma log_upd_settle [simp]:
  "lh_n_update f (settle s) = settle (lh_n_update f s)" "lh_block_update g (settle s) = settle (lh_block_update g s)"
  by (simp_all add: settle_def mycpu_def intr_get_def)

lemma fs_step_trans:
  assumes "fs_step s t" and "fs_step t u"
  shows "fs_step s u"
proof -
  obtain P L B D W N K where t: "settle t = settle (s\<lparr>procs := P, slks := L, bufs := B, disk := D, disk_writes := W, lh_n := N, lh_block := K\<rparr>)"
    "wakes (procs s) P" using assms(1) by (auto simp: fs_step_def)
  obtain P' L' B' D' W' N' K' where u: "settle u = settle (t\<lparr>procs := P', slks := L', bufs := B', disk := D', disk_writes := W', lh_n := N', lh_block := K'\<rparr>)"
    "wakes (procs t) P'" using assms(2) by (auto simp: fs_step_def)
  have "procs t = P" using arg_cong [OF t(1), of procs] by simp
  moreover have "settle (t\<lparr>procs := P', slks := L', bufs := B', disk := D', disk_writes := W', lh_n := N', lh_block := K'\<rparr>) =
      settle (s\<lparr>procs := P', slks := L', bufs := B', disk := D', disk_writes := W', lh_n := N', lh_block := K'\<rparr>)"
    using arg_cong [OF t(1), of "\<lambda>u. u\<lparr>procs := P', slks := L', bufs := B', disk := D', disk_writes := W', lh_n := N', lh_block := K'\<rparr>"] by simp
  ultimately have "settle u = settle (s\<lparr>procs := P', slks := L', bufs := B', disk := D', disk_writes := W', lh_n := N', lh_block := K'\<rparr>)"
    "wakes (procs s) P'" using u wakes_trans [OF t(2)] by simp_all
  then show ?thesis unfolding fs_step_def by blast
qed

lemma fs_step_keeps:
  assumes "fs_step s t"
  shows "calm t = calm s" and "mypid t = mypid s" and "wakes (procs s) (procs t)" and "cpu_proc (mycpu t) = cpu_proc (mycpu s)"
    and "log_size t = log_size s" and "log_outstanding t = log_outstanding s" and "mem t = mem s" and "logst.more t = logst.more s"
proof -
  obtain P L B D W N K where t: "settle t = settle (s\<lparr>procs := P, slks := L, bufs := B, disk := D, disk_writes := W, lh_n := N, lh_block := K\<rparr>)"
    "wakes (procs s) P" using assms by (auto simp: fs_step_def)
  have "calm (settle t) = calm s" "cpu_proc (mycpu (settle t)) = cpu_proc (mycpu s)" by (simp_all add: t(1)) (simp add: mycpu_def)
  then show "calm t = calm s" and c: "cpu_proc (mycpu t) = cpu_proc (mycpu s)" by simp_all
  show w: "wakes (procs s) (procs t)" using t(2) arg_cong [OF t(1), of procs] by simp
  show "mypid t = mypid s" by (simp add: mypid_def c wakes_keeps [OF w])
  have "log_size (settle t) = log_size s" "log_outstanding (settle t) = log_outstanding s" "mem (settle t) = mem s"
    "logst.more (settle t) = logst.more s" unfolding t(1) by (simp_all add: settle_def)
  then show "log_size t = log_size s" "log_outstanding t = log_outstanding s" "mem t = mem s" "logst.more t = logst.more s"
    by (simp_all add: settle_def)
qed

lemma fs_step_cache: "cache_step s t \<Longrightarrow> fs_step s t"
proof -
  assume "cache_step s t"
  then obtain P L B D W where "settle t = settle (s\<lparr>procs := P, slks := L, bufs := B, disk := D, disk_writes := W\<rparr>)" "wakes (procs s) P"
    by (auto simp: cache_step_def)
  then show ?thesis unfolding fs_step_def
    by (intro exI [of _ P] exI [of _ L] exI [of _ B] exI [of _ D] exI [of _ W] exI [of _ "lh_n s"] exI [of _ "lh_block s"]) simp
qed

text \<open>\<open>fs_step\<close> that also keeps the buffers held of blocks other than \<open>n\<close>.\<close>

definition tx_step :: "uint32 \<Rightarrow> uint32 \<Rightarrow> ('a) logst_scheme \<Rightarrow> ('a) logst_scheme \<Rightarrow> bool" where
  "tx_step dev n s t \<longleftrightarrow> fs_step s t \<and> (\<forall>c m. m \<noteq> n \<longrightarrow> holds_buf dev s c m \<longrightarrow> holds_buf dev t c m)"

lemma tx_step_block: "block_step dev n s t \<Longrightarrow> tx_step dev n s t"
  by (auto simp: tx_step_def block_step_def intro: fs_step_cache)

lemma logged_cache: "block_step dev n s t \<Longrightarrow> logged t L = logged s L"
  using cache_step_log [of s t] by (simp add: logged_def block_step_def)

section \<open>Blocks in a transaction\<close>

lemma txn_refs_simps:
  "n \<notin> H \<Longrightarrow> (txn_refs L H)(n := txn_refs L H n + 1) = txn_refs L (insert n H)"
  "n \<in> H \<Longrightarrow> (txn_refs L H)(n := txn_refs L H n - 1) = txn_refs L (H - {n})"
  "n \<notin> L \<Longrightarrow> (txn_refs L H)(n := txn_refs L H n + 1) = txn_refs (insert n L) H"
  "{n. txn_refs L H n \<noteq> 0} = L \<union> H"
  by (auto simp: txn_refs_def fun_eq_iff)

text \<open>There is room for \<open>k\<close> more blocks in the log, and for \<open>k\<close> more blocks in the cache.\<close>

definition log_room :: "('a) logst_scheme \<Rightarrow> uint32 set \<Rightarrow> nat \<Rightarrow> bool" where
  "log_room s L k \<longleftrightarrow> card L + k \<le> LOGSIZE \<and> int (card L + k) \<le> log_size s - 1"

definition buf_room :: "uint32 set \<Rightarrow> uint32 set \<Rightarrow> nat \<Rightarrow> bool" where
  "buf_room L H k \<longleftrightarrow> card (L \<union> H) + k \<le> NBUF"

lemma finite_blocks [simp]: "finite (L :: uint32 set)"
  by (rule finite_subset [OF subset_UNIV]) simp

lemma log_room_insert: "log_room s L (Suc k) \<Longrightarrow> log_room s (insert n L) k"
  using card_insert_le_m1 [of "Suc (card L)" L n] by (auto simp: log_room_def card_insert_if)

lemma log_room_less: "log_room s L k \<Longrightarrow> j \<le> k \<Longrightarrow> log_room s L j"
  by (auto simp: log_room_def)

lemma log_room_step: "tx_step dev n s t \<Longrightarrow> log_room t L k = log_room s L k"
  using fs_step_keeps(5) [of s t] by (simp add: tx_step_def log_room_def)

lemma buf_room_insert: "buf_room L H (Suc k) \<Longrightarrow> buf_room (insert n L) (insert n H) k"
  "buf_room L H (Suc k) \<Longrightarrow> buf_room L (insert n H) k" "buf_room L H (Suc k) \<Longrightarrow> buf_room (insert n L) H k"
  "buf_room L H k \<Longrightarrow> buf_room L (H - {n}) k" "buf_room L (insert n H) k \<Longrightarrow> buf_room (insert n L) H k"
proof -
  have "card (L \<union> (H - {n})) \<le> card (L \<union> H)" by (rule card_mono) auto
  then show "buf_room L H k \<Longrightarrow> buf_room L (H - {n}) k" by (simp add: buf_room_def)
qed (auto simp: buf_room_def card_insert_if)

lemma buf_room_less: "buf_room L H k \<Longrightarrow> j \<le> k \<Longrightarrow> buf_room L H j"
  by (auto simp: buf_room_def)

lemma tx_bread:
  assumes "tx dev s C L H D" and "n \<notin> H" and "buf_room L H 1"
  shows "yields (bread dev n s) (\<lambda>b t. tx dev t C L (insert n H) D \<and> holds_buf dev t b n \<and> b_data (bufs t b) = C n \<and> tx_step dev n s t)"
proof -
  obtain W where c: "cache dev s C (txn_refs L H) H D W" and l: "logged s L" using assms(1) by (auto simp: tx_def)
  have "txn_refs L H n \<noteq> - 1" "txn_refs L H n \<noteq> 0 \<or> card {n. txn_refs L H n \<noteq> 0} < NBUF"
    using assms(2,3) unfolding txn_refs_simps(4) by (auto simp: txn_refs_def buf_room_def)
  from bread_spec [OF c assms(2) this] show ?thesis
    unfolding txn_refs_simps(1) [OF assms(2)]
  proof (rule yields_mono)
    fix b t
    assume "cache dev t C (txn_refs L (insert n H)) (insert n H) D W \<and> holds_buf dev t b n \<and> block_step dev n s t"
    then show "tx dev t C L (insert n H) D \<and> holds_buf dev t b n \<and> b_data (bufs t b) = C n \<and> tx_step dev n s t"
      using l logged_cache [of dev n s t L] held_buf(4) [of dev t C _ _ D W b n] by (auto simp: tx_def tx_step_block)
  qed
qed

lemma tx_brelse:
  assumes "tx dev s C L H D" and "n \<in> H" and "holds_buf dev s b n" and "n \<in> L \<or> C n = D n"
  shows "yields (brelse b s) (\<lambda>_ t. tx dev t C L (H - {n}) D \<and> tx_step dev n s t)"
proof -
  obtain W where c: "cache dev s C (txn_refs L H) H D W" and l: "logged s L" using assms(1) by (auto simp: tx_def)
  have "txn_refs L H n = 1 \<longrightarrow> C n = D n" using assms(2,4) by (auto simp: txn_refs_def)
  from brelse_spec [OF c assms(3) this] show ?thesis
    unfolding txn_refs_simps(2) [OF assms(2)]
    by (rule yields_mono) (use l in \<open>auto simp: tx_def tx_step_block logged_cache\<close>)
qed

lemma log_acq [simp]:
  "lh_n (acq l s) = lh_n s" "lh_block (acq l s) = lh_block s" "log_size (acq l s) = log_size s" "log_outstanding (acq l s) = log_outstanding s"
  "lh_n_update f (acq l s) = acq l (lh_n_update f s)" "lh_block_update g (acq l s) = acq l (lh_block_update g s)"
  by (simp_all add: acq_def pushed_def mycpu_def intr_get_def)

lemma log_machine [simp]:
  "hart_ok (lh_n_update f s) = hart_ok s" "hart_ok (lh_block_update g s) = hart_ok s"
  "lock_free l (lh_n_update f s) = lock_free l s" "lock_free l (lh_block_update g s) = lock_free l s"
  by (simp_all add: hart_ok_def lock_free_def mycpu_def intr_get_def)

lemma bpin_acq:
  assumes "hart_ok s" and "lock_free BcacheLock s"
  shows "bpin b (acq LogLock s) = Done () (acq LogLock (upd_buf b (\<lambda>q. q\<lparr>b_refcnt := b_refcnt q + 1\<rparr>) s))"
  using assms by (simp add: bpin_def acquire_free release_acq)

lemma log_slot_hit: "x \<in> k ` {..<n} \<Longrightarrow> log_slot n k x < n \<and> k (log_slot n k x) = x"
proof -
  assume x: "x \<in> k ` {..<n}"
  then have "find (\<lambda>i. k i = x) [0..<n] \<noteq> None" unfolding find_None_iff by auto
  then obtain i where i: "find (\<lambda>i. k i = x) [0..<n] = Some i" by blast
  then have "log_slot n k x = i" by (simp add: log_slot_def)
  with find_Some_iff [THEN iffD1, OF i] show ?thesis by auto
qed

lemma log_slot_miss: "x \<notin> k ` {..<n} \<Longrightarrow> log_slot n k x = n"
  unfolding log_slot_def by (auto split: option.split dest!: find_Some_iff [THEN iffD1])

lemma log_write_eq:
  assumes "calm s" and "lh_n s < int LOGSIZE" and "lh_n s < log_size s - 1" and "1 \<le> log_outstanding s" and "0 \<le> lh_n s"
  shows "log_write b s = (let bno = b_blockno (bufs s b); i = log_slot (nat (lh_n s)) (lh_block s) bno
     in if int i = lh_n s
        then Done () (settle ((upd_buf b (\<lambda>q. q\<lparr>b_refcnt := b_refcnt q + 1\<rparr>) s)\<lparr>lh_block := (lh_block s)(i := bno), lh_n := lh_n s + 1\<rparr>))
        else Done () (settle (s\<lparr>lh_block := (lh_block s)(i := bno)\<rparr>)))"
proof -
  note c = calmD [OF assms(1)]
  let ?i = "log_slot (nat (lh_n s)) (lh_block s) (b_blockno (bufs s b))"
  let ?u = "s\<lparr>lh_block := (lh_block s)(?i := b_blockno (bufs s b))\<rparr>"
  have "bpin b (acq LogLock ?u) = Done () (acq LogLock (upd_buf b (\<lambda>q. q\<lparr>b_refcnt := b_refcnt q + 1\<rparr>) ?u))"
    using c by (intro bpin_acq) simp_all
  moreover have "upd_buf b (\<lambda>q. q\<lparr>b_refcnt := b_refcnt q + 1\<rparr>) ?u = (upd_buf b (\<lambda>q. q\<lparr>b_refcnt := b_refcnt q + 1\<rparr>) s)\<lparr>lh_block := (lh_block s)(?i := b_blockno (bufs s b))\<rparr>"
    by (simp add: upd_buf_def)
  moreover have "lh_n (upd_buf b f t) = lh_n t" for f and t :: "'a logst_scheme" by (simp add: upd_buf_def)
  ultimately show ?thesis
    using assms(2-5) c by (simp add: log_write_def acquire_free release_acq Let_def)
qed

lemma fs_step_plain:
  assumes "u = s\<lparr>procs := procs u, slks := slks u, bufs := bufs u, disk := disk u, disk_writes := disk_writes u, lh_n := lh_n u, lh_block := lh_block u\<rparr>"
    and "wakes (procs s) (procs u)"
  shows "fs_step s (settle u)"
  unfolding fs_step_def using arg_cong [OF assms(1), of settle] assms(2) by (simp only: settle_settle) blast

lemma log_write_spec:
  assumes "tx dev s C L H D" and "n \<in> H" and "holds_buf dev s b n" and "log_room s L 1"
  shows "yields (log_write b s) (\<lambda>_ t. tx dev t C (insert n L) H D \<and> holds_buf dev t b n \<and> tx_step dev n s t)"
proof -
  obtain W where c: "cache dev s C (txn_refs L H) H D W" and l: "logged s L" using assms(1) by (auto simp: tx_def)
  then obtain ns where ns: "distinct ns" "set ns = L" "lh_n s = int (length ns)" "map (lh_block s) [0..<length ns] = ns" "1 \<le> log_outstanding s"
    by (auto simp: logged_def)
  have len: "length ns = card L" using ns(1,2) distinct_card by metis
  have img: "lh_block s ` {..<length ns} = L"
    using arg_cong [OF ns(4), of set] ns(2) by (simp add: atLeast0LessThan)
  have calm: "calm s" and bno: "b_blockno (bufs s b) = n" using held_buf(3,11) [OF c assms(3)] by simp_all
  have w: "log_write b s = (let i = log_slot (length ns) (lh_block s) n in if int i = lh_n s
      then Done () (settle ((upd_buf b (\<lambda>q. q\<lparr>b_refcnt := b_refcnt q + 1\<rparr>) s)\<lparr>lh_block := (lh_block s)(i := n), lh_n := lh_n s + 1\<rparr>))
      else Done () (settle (s\<lparr>lh_block := (lh_block s)(i := n)\<rparr>)))"
    using log_write_eq [OF calm, of b] assms(4) ns(3,5) len by (simp add: log_room_def bno Let_def)
  show ?thesis
  proof (cases "n \<in> L")
    case True
    then have i: "log_slot (length ns) (lh_block s) n < length ns" "lh_block s (log_slot (length ns) (lh_block s) n) = n"
      using log_slot_hit [of n "lh_block s" "length ns"] img by simp_all
    have "(lh_block s)(log_slot (length ns) (lh_block s) n := n) = lh_block s" using i(2) by (simp add: fun_upd_idem)
    with w i(1) ns(3) have "log_write b s = Done () (settle s)" by (simp add: Let_def)
    moreover have "logged (settle s) L" using ns by (auto simp: logged_def)
    moreover have "tx_step dev n s (settle s)" unfolding tx_step_def by (auto intro!: fs_step_plain)
    ultimately show ?thesis using c assms(3) True by (auto simp: tx_def insert_absorb)
  next
    case False
    then have i: "log_slot (length ns) (lh_block s) n = length ns" using img by (intro log_slot_miss) simp
    let ?p = "upd_buf b (\<lambda>q. q\<lparr>b_refcnt := b_refcnt q + 1\<rparr>) s"
    let ?t = "?p\<lparr>lh_block := (lh_block s)(length ns := n), lh_n := lh_n s + 1\<rparr>"
    have wt: "log_write b s = Done () (settle ?t)" using w ns(3) by (simp add: Let_def i)
    have "txn_refs L H n + 1 \<noteq> 0" by (simp add: txn_refs_def)
    from refcnt_spec [OF c assms(3) this] have p: "cache dev ?p C (txn_refs (insert n L) H) H D W" "holds_buf dev ?p b n" "block_step dev n s ?p"
      unfolding txn_refs_simps(3) [OF False] by simp_all
    have "logged (settle ?t) (insert n L)"
      unfolding logged_def using ns False
      by (intro conjI exI [of _ "ns @ [n]"]) (auto simp: upd_buf_def)
    moreover have "fs_step s (settle ?t)" by (rule fs_step_plain) (simp_all add: upd_buf_def)
    moreover have "holds_buf dev (settle ?t) c m" if "m \<noteq> n" "holds_buf dev s c m" for c m
      using block_stepD(2) [OF p(3) that] by simp
    ultimately show ?thesis using p(1,2) unfolding wt by (auto simp: tx_def tx_step_def)
  qed
qed

lemma tx_step_trans: "tx_step dev n s t \<Longrightarrow> tx_step dev n t u \<Longrightarrow> tx_step dev n s u"
  unfolding tx_step_def using fs_step_trans by blast

lemma tx_log_write:
  assumes "tx dev s C L H D" and "n \<in> H" and "holds_buf dev s b n" and "log_room s L 1"
  shows "yields (log_write b (upd_buf b (\<lambda>q. q\<lparr>b_data := x\<rparr>) s)) (\<lambda>_ t. tx dev t (C(n := x)) (insert n L) H D \<and> holds_buf dev t b n \<and>
    tx_step dev n s t)"
proof -
  let ?s = "upd_buf b (\<lambda>q. q\<lparr>b_data := x\<rparr>) s"
  obtain W where c: "cache dev s C (txn_refs L H) H D W" and l: "logged s L" using assms(1) by (auto simp: tx_def)
  note st = store_spec [OF c assms(3), of x]
  then have "tx dev ?s (C(n := x)) L H D" using l logged_cache [of dev n s ?s L] by (auto simp: tx_def)
  moreover have "log_room ?s L 1" using assms(4) by (simp add: log_room_def upd_buf_def)
  ultimately have "yields (log_write b ?s) (\<lambda>_ t. tx dev t (C(n := x)) (insert n L) H D \<and> holds_buf dev t b n \<and> tx_step dev n ?s t)"
    using st assms(2) by (intro log_write_spec) simp_all
  then show ?thesis using tx_step_trans [OF tx_step_block, of dev n s ?s] st by (elim yields_mono) blast
qed

text \<open>Replacing the content of a held block and giving it back, and giving back a block that was only read.\<close>

lemma tx_put:
  assumes "tx dev s C L H D" and "n \<in> H" and "holds_buf dev s b n" and "log_room s L 1"
  shows "yields (obind (log_write b (upd_buf b (\<lambda>q. q\<lparr>b_data := x\<rparr>) s)) (\<lambda>_ s. brelse b s))
    (\<lambda>_ t. tx dev t (C(n := x)) (insert n L) (H - {n}) D \<and> tx_step dev n s t)"
proof (rule yields_bind [OF tx_log_write [OF assms]])
  fix t
  assume t: "tx dev t (C(n := x)) (insert n L) H D \<and> holds_buf dev t b n \<and> tx_step dev n s t"
  then have "yields (brelse b t) (\<lambda>_ u. tx dev u (C(n := x)) (insert n L) (H - {n}) D \<and> tx_step dev n t u)"
    using assms(2) by (intro tx_brelse) simp_all
  then show "yields (brelse b t) (\<lambda>_ u. tx dev u (C(n := x)) (insert n L) (H - {n}) D \<and> tx_step dev n s u)"
    using t tx_step_trans by (elim yields_mono) blast
qed

lemma tx_clean: "tx dev s C L H D \<Longrightarrow> n \<notin> L \<Longrightarrow> n \<notin> H \<Longrightarrow> C n = D n"
  by (auto simp: tx_def txn_refs_def elim!: cache_unreferenced)

text \<open>What an operation that neither takes nor gives back the blocks in \<open>H\<close> leaves alone.\<close>

definition hstep :: "uint32 \<Rightarrow> uint32 set \<Rightarrow> ('a) logst_scheme \<Rightarrow> ('a) logst_scheme \<Rightarrow> bool" where
  "hstep dev H s t \<longleftrightarrow> fs_step s t \<and> (\<forall>c. \<forall>m \<in> H. holds_buf dev s c m \<longrightarrow> holds_buf dev t c m)"

lemma hstep_tx: "tx_step dev n s t \<Longrightarrow> n \<notin> H \<Longrightarrow> hstep dev H s t"
  unfolding tx_step_def hstep_def by auto

lemma hstep_trans: "hstep dev H s t \<Longrightarrow> hstep dev H t u \<Longrightarrow> hstep dev H s u"
  unfolding hstep_def using fs_step_trans by blast

lemma log_room_hstep: "hstep dev H s t \<Longrightarrow> log_room t L k = log_room s L k"
  using fs_step_keeps(5) [of s t] by (simp add: hstep_def log_room_def)

text \<open>Giving back a block that was only read.\<close>

lemma tx_done:
  assumes "tx dev s C L (insert n H) D" and "n \<notin> H" and "holds_buf dev s b n" and "n \<in> L \<or> C n = D n"
  shows "yields (brelse b s) (\<lambda>_ t. tx dev t C L H D \<and> hstep dev H s t)"
proof -
  have "insert n H - {n} = H" using assms(2) by simp
  with tx_brelse [OF assms(1) _ assms(3,4)] have "yields (brelse b s) (\<lambda>_ t. tx dev t C L H D \<and> tx_step dev n s t)" by simp
  then show ?thesis by (rule yields_mono) (auto intro: hstep_tx [OF _ assms(2)])
qed

text \<open>A block that is replaced as a whole: \<open>bread\<close>, an assignment to the data, \<open>log_write\<close> and \<open>brelse\<close>.\<close>

lemma tx_replace:
  assumes "tx dev s C L H D" and "n \<notin> H" and "log_room s L 1" and "buf_room L H 1"
    and "\<And>bp t. bread dev n s = Done bp t \<Longrightarrow> b_data (bufs t bp) = C n \<Longrightarrow> logst.more t = logst.more s \<Longrightarrow>
      f bp t = obind (log_write bp (upd_buf bp (\<lambda>q. q\<lparr>b_data := x\<rparr>) t)) (\<lambda>_ s. brelse bp s)"
  shows "yields (obind (bread dev n s) f) (\<lambda>_ t. tx dev t (C(n := x)) (insert n L) H D \<and> hstep dev H s t)"
proof -
  from tx_bread [OF assms(1,2,4)] obtain bp t where t: "bread dev n s = Done bp t" "tx dev t C L (insert n H) D" "holds_buf dev t bp n"
    "b_data (bufs t bp) = C n" "tx_step dev n s t" by (auto simp: yields_iff)
  have m: "logst.more t = logst.more s" using t(5) fs_step_keeps(8) [of s t] by (simp add: tx_step_def)
  have "yields (f bp t) (\<lambda>_ u. tx dev u (C(n := x)) (insert n L) (insert n H - {n}) D \<and> tx_step dev n t u)"
    unfolding assms(5) [OF t(1,4) m] using t assms(3) log_room_step [OF t(5)] by (intro tx_put) simp_all
  then have "yields (f bp t) (\<lambda>_ u. tx dev u (C(n := x)) (insert n L) H D \<and> hstep dev H s u)"
    by (rule yields_mono) (use assms(2) t(5) in \<open>auto intro: hstep_tx hstep_trans\<close>)
  with t(1) show ?thesis by simp
qed

end
