(* ===== verification/Fs_Alloc.thy ===== *)
theory Fs_Alloc
  imports Fs_View
begin

unbundle bit_operations_syntax

text \<open>
  Allocation of disk blocks (\<open>balloc\<close>, \<open>bfree\<close> and \<open>bzero\<close> of \<open>kernel/fs.c\<close>) on the blocks of a transaction: the
  bitmap as a set of used blocks.
\<close>

section \<open>Bitmaps\<close>

lemma bitmap_used_bit: "bitmap_used data bi \<longleftrightarrow> bit (data ! (bi div 8)) (bi mod 8)"
proof -
  have "(x AND push_bit k 1 \<noteq> 0) = bit x k" if "k < 8" for x :: uint8 and k
  proof -
    have "x AND push_bit k 1 = (if bit x k then push_bit k 1 else 0)"
      by (rule bit_word_eqI) (use that in \<open>auto simp: bit_simps\<close>)
    moreover have "bit (push_bit k (1 :: uint8)) k" using that by (simp add: bit_simps)
    ultimately show ?thesis using that by auto
  qed
  then show ?thesis by (simp add: bitmap_used_def)
qed

lemma div_mod_8: "j div 8 = i div 8 \<Longrightarrow> j mod 8 = i mod 8 \<Longrightarrow> j = (i :: nat)"
  by (metis div_mult_mod_eq)

lemma bitmap_used_set:
  assumes "i div 8 < length data" and "j div 8 < length data"
  shows "bitmap_used (bitmap_set i data) j \<longleftrightarrow> j = i \<or> bitmap_used data j"
  using assms div_mod_8 [of j i] by (auto simp: bitmap_used_bit bitmap_set_def nth_list_update bit_simps)

lemma bitmap_used_clear:
  assumes "i div 8 < length data" and "j div 8 < length data"
  shows "bitmap_used (bitmap_clear i data) j \<longleftrightarrow> j \<noteq> i \<and> bitmap_used data j"
  using assms div_mod_8 [of j i] by (auto simp: bitmap_used_bit bitmap_clear_def nth_list_update bit_simps)

lemma length_bitmap [simp]: "length (bitmap_set i data) = length data" "length (bitmap_clear i data) = length data"
  by (simp_all add: bitmap_set_def bitmap_clear_def)

text \<open>Block \<open>b\<close> is marked as used in the bitmap.\<close>

definition block_used :: "superblock \<Rightarrow> (uint32 \<Rightarrow> uint8 list) \<Rightarrow> uint32 \<Rightarrow> bool" where
  "block_used S C b \<longleftrightarrow> bitmap_used (C (BBLOCK b S)) (unat (b mod 8192))"

text \<open>All blocks have their size, and the bitmap marks its own blocks as used.\<close>

definition bitmap_ok :: "superblock \<Rightarrow> (uint32 \<Rightarrow> uint8 list) \<Rightarrow> bool" where
  "bitmap_ok S C \<longleftrightarrow> (\<forall>n. length (C n) = BSIZE) \<and> (\<forall>b < sb_size S. block_used S C (BBLOCK b S))"

lemma unat_mod_8192: "unat (b mod 8192 :: uint32) = unat b mod 8192"
  by (simp add: unat_mod)

lemma same_bitmap_block:
  assumes "BBLOCK b S = BBLOCK c S" and "unat (b mod 8192) = unat (c mod 8192)"
  shows "b = c"
proof -
  have "b div 8192 = c div 8192" using assms(1) by (simp add: BBLOCK_def)
  then have "unat (b div 8192) = unat (c div 8192)" by simp
  then have "unat b div 8192 = unat c div 8192" by (simp add: unat_div)
  moreover have "unat b mod 8192 = unat c mod 8192" using assms(2) by (simp add: unat_mod_8192)
  ultimately have "unat b = unat c" by (metis div_mult_mod_eq)
  then show ?thesis by (simp add: word_unat_eq_iff)
qed

lemma block_used_set:
  assumes "\<forall>n. length (C n) = BSIZE" and "n = BBLOCK b S"
  shows "block_used S (C(n := bitmap_set (unat (b mod 8192)) (C n))) c \<longleftrightarrow> c = b \<or> block_used S C c"
    and "block_used S (C(n := bitmap_clear (unat (b mod 8192)) (C n))) c \<longleftrightarrow> c \<noteq> b \<and> block_used S C c"
proof -
  have lt: "unat (x mod 8192) div 8 < length (C m)" for x :: uint32 and m using assms(1) by (simp add: unat_mod_8192 less_mult_imp_div_less)
  show "block_used S (C(n := bitmap_set (unat (b mod 8192)) (C n))) c \<longleftrightarrow> c = b \<or> block_used S C c"
    using same_bitmap_block [of c S b] bitmap_used_set [OF lt lt] by (auto simp: block_used_def assms(2))
  show "block_used S (C(n := bitmap_clear (unat (b mod 8192)) (C n))) c \<longleftrightarrow> c \<noteq> b \<and> block_used S C c"
    using same_bitmap_block [of c S b] bitmap_used_clear [OF lt lt] by (auto simp: block_used_def assms(2))
qed

section \<open>Allocation and release\<close>

text \<open>The superblock and the inodes in memory are not touched.\<close>

lemma itable_more: "logst.more t = logst.more s \<Longrightarrow> sb t = sb s" "logst.more t = logst.more s \<Longrightarrow> inodes t = inodes s"
  by (cases s; cases t; simp)+

lemma itable_step:
  assumes "hstep dev H s t"
  shows "sb t = sb s" and "inodes t = inodes s"
  using fs_step_keeps(8) [of s t] assms itable_more [of t s] by (simp_all add: hstep_def)

lemma bzero_spec:
  assumes "tx dev s C L H D" and "n \<notin> H" and "log_room s L 1" and "buf_room L H 1"
  shows "yields (bzero dev n s) (\<lambda>_ t. tx dev t (C(n := replicate BSIZE 0)) (insert n L) H D \<and> hstep dev H s t)"
  unfolding bzero_def by (rule tx_replace [OF assms]) simp

lemma bfree_spec:
  assumes "tx dev s C L H D" and "BBLOCK b (sb s) \<notin> H" and "block_used (sb s) C b" and "log_room s L 1" and "buf_room L H 1"
  defines "n \<equiv> BBLOCK b (sb s)"
  shows "yields (bfree dev b s) (\<lambda>_ t. tx dev t (C(n := bitmap_clear (unat (b mod 8192)) (C n))) (insert n L) H D \<and> hstep dev H s t)"
  unfolding bfree_def n_def [symmetric]
proof (rule tx_replace [OF assms(1) assms(2) [folded n_def] assms(4,5)], goal_cases)
  case (1 bp t)
  then have "upd_buf bp (\<lambda>q. q\<lparr>b_data := bitmap_clear (unat (b mod 8192)) (b_data q)\<rparr>) t = upd_buf bp (\<lambda>q. q\<lparr>b_data := bitmap_clear (unat (b mod 8192)) (C n)\<rparr>) t"
    by (simp add: upd_buf_def)
  moreover have "bitmap_used (b_data (bufs t bp)) (unat (b mod 8192))" using 1 assms(3) by (simp add: block_used_def n_def)
  ultimately show ?case by (simp add: Let_def)
qed

lemma bfree_free_block:
  assumes "tx dev s C L H D" and "BBLOCK b (sb s) \<notin> H" and "\<not> block_used (sb s) C b" and "buf_room L H 1"
  shows "bfree dev b s = Panic ''freeing free block''"
proof -
  from tx_bread [OF assms(1,2,4)] obtain bp t where "bread dev (BBLOCK b (sb s)) s = Done bp t" "b_data (bufs t bp) = C (BBLOCK b (sb s))"
    by (auto simp: yields_iff)
  with assms(3) show ?thesis by (simp add: bfree_def block_used_def)
qed

text \<open>The blocks of one bitmap block.\<close>

lemma balloc_block:
  assumes "i < 8192" and "8192 * j + i < 4294967296"
  shows "unat ((of_nat (8192 * j + i) :: uint32) mod 8192) = i" and "BBLOCK (of_nat (8192 * j + i)) S = BBLOCK (of_nat (8192 * j)) S"
    and "unat (of_nat (8192 * j + i) :: uint32) = 8192 * j + i"
proof -
  show u: "unat (of_nat (8192 * j + i) :: uint32) = 8192 * j + i" using assms(2) by (simp only: unat_of_nat) simp
  show "unat ((of_nat (8192 * j + i) :: uint32) mod 8192) = i" using assms(1) unfolding unat_mod_8192 u by simp
  have v: "unat (of_nat (8192 * j) :: uint32) = 8192 * j" using assms(2) by (simp only: unat_of_nat) simp
  have "unat ((of_nat (8192 * j + i) :: uint32) div 8192) = j" "unat ((of_nat (8192 * j) :: uint32) div 8192) = j"
    using assms(1) u v by (simp_all only: unat_div) simp_all
  then show "BBLOCK (of_nat (8192 * j + i)) S = BBLOCK (of_nat (8192 * j)) S" unfolding BBLOCK_def by (metis word_unat_eq_iff)
qed

lemma block_used_nat:
  assumes "i < 8192" and "8192 * j + i < unat (sb_size S)"
  shows "block_used S C (of_nat (8192 * j + i)) \<longleftrightarrow> bitmap_used (C (BBLOCK (of_nat (8192 * j)) S)) i"
proof -
  have "8192 * j + i < 4294967296" using assms(2) unsigned_less [of "sb_size S", where 'a = nat] by simp
  from balloc_block(1) [OF assms(1) this] balloc_block(2) [OF assms(1) this, of S] show ?thesis by (simp add: block_used_def)
qed

lemma of_nat_unat32: "of_nat (unat c) = (c :: uint32)"
  by simp

lemma bitmap_find_Some:
  assumes "bitmap_find (C (BBLOCK (of_nat (8192 * j)) S)) (8192 * j) (unat (sb_size S)) = Some i"
  shows "i < 8192" and "8192 * j + i < unat (sb_size S)" and "\<not> block_used S C (of_nat (8192 * j + i))"
    and "\<And>c. 8192 * j \<le> unat c \<Longrightarrow> unat c < 8192 * j + i \<Longrightarrow> block_used S C c"
proof -
  have f: "i < 8192" "8192 * j + i < unat (sb_size S)" "\<not> bitmap_used (C (BBLOCK (of_nat (8192 * j)) S)) i"
    "\<And>k. k < i \<Longrightarrow> \<not> (8192 * j + k < unat (sb_size S) \<and> \<not> bitmap_used (C (BBLOCK (of_nat (8192 * j)) S)) k)"
    using assms unfolding bitmap_find_def find_Some_iff by auto
  then show "i < 8192" "8192 * j + i < unat (sb_size S)" by simp_all
  show "\<not> block_used S C (of_nat (8192 * j + i))" using f by (simp only: block_used_nat) simp
  fix c :: uint32
  assume c: "8192 * j \<le> unat c" "unat c < 8192 * j + i"
  let ?k = "unat c - 8192 * j"
  have k: "?k < i" "unat c = 8192 * j + ?k" "?k < 8192" "8192 * j + ?k < unat (sb_size S)" using c f(1,2) by auto
  have "block_used S C (of_nat (8192 * j + ?k))" using f(4) [OF k(1)] k(3,4) by (simp only: block_used_nat) simp
  then show "block_used S C c" using k(2) of_nat_unat32 [of c] by metis
qed

lemma bitmap_find_None:
  assumes "bitmap_find (C (BBLOCK (of_nat (8192 * j)) S)) (8192 * j) (unat (sb_size S)) = None"
    and "8192 * j \<le> unat c" and "unat c < 8192 * Suc j" and "c < sb_size S"
  shows "block_used S C c"
proof -
  let ?k = "unat c - 8192 * j"
  have k: "unat c = 8192 * j + ?k" "?k < 8192" "8192 * j + ?k < unat (sb_size S)" using assms(2-4) by (auto simp: word_less_nat_alt)
  have "bitmap_used (C (BBLOCK (of_nat (8192 * j)) S)) ?k"
    using assms(1) k unfolding bitmap_find_def find_None_iff by auto
  then have "block_used S C (of_nat (8192 * j + ?k))" using k(2,3) by (simp only: block_used_nat)
  then show ?thesis using k(1) of_nat_unat32 [of c] by metis
qed

definition first_free :: "superblock \<Rightarrow> (uint32 \<Rightarrow> uint8 list) \<Rightarrow> uint32 \<Rightarrow> bool" where
  "first_free S C b \<longleftrightarrow> b < sb_size S \<and> \<not> block_used S C b \<and> (\<forall>c < b. block_used S C c)"

definition alloc_block :: "superblock \<Rightarrow> uint32 \<Rightarrow> (uint32 \<Rightarrow> uint8 list) \<Rightarrow> uint32 \<Rightarrow> uint8 list" where
  "alloc_block S b C = C(BBLOCK b S := bitmap_set (unat (b mod 8192)) (C (BBLOCK b S)), b := replicate BSIZE 0)"

text \<open>The process holds no free block and no block of the bitmap.\<close>

definition alloc_ok :: "superblock \<Rightarrow> (uint32 \<Rightarrow> uint8 list) \<Rightarrow> uint32 set \<Rightarrow> bool" where
  "alloc_ok S C H \<longleftrightarrow> bitmap_ok S C \<and> (\<forall>n \<in> H. block_used S C n \<and> (\<forall>b < sb_size S. n \<noteq> BBLOCK b S))"

lemma balloc_skip:
  assumes "tx dev s C L H D" and "BBLOCK (of_nat (8192 * j)) (sb s) \<notin> H" and "buf_room L H 1"
    and "bitmap_find (C (BBLOCK (of_nat (8192 * j)) (sb s))) (8192 * j) (unat (sb_size (sb s))) = None"
  shows "\<exists>t. balloc_loop dev (8192 * j # bs) s = balloc_loop dev bs t \<and> tx dev t C L H D \<and> hstep dev H s t"
proof -
  let ?n = "BBLOCK (of_nat (8192 * j)) (sb s)"
  from tx_bread [OF assms(1,2,3)] obtain bp t where t: "bread dev ?n s = Done bp t" "tx dev t C L (insert ?n H) D" "holds_buf dev t bp ?n"
    "b_data (bufs t bp) = C ?n" "tx_step dev ?n s t" by (auto simp: yields_iff)
  have h: "hstep dev H s t" using t(5) assms(2) by (rule hstep_tx)
  have "?n \<in> L \<or> C ?n = D ?n" using tx_clean [OF assms(1) _ assms(2)] by blast
  from tx_done [OF t(2) assms(2) t(3) this] obtain u where u: "brelse bp t = Done () u" "tx dev u C L H D" "hstep dev H t u" by (auto simp: yields_iff)
  have "balloc_loop dev (8192 * j # bs) s = balloc_loop dev bs u" using t(1,4) u(1) assms(4) itable_step(1) [OF h] by simp
  with u h show ?thesis by (blast intro: hstep_trans)
qed

lemma balloc_take:
  assumes "tx dev s C L H D" and "n = BBLOCK (of_nat (8192 * j)) (sb s)" and "n \<notin> H" and "log_room s L 2" and "buf_room L H 2"
    and "bitmap_find (C n) (8192 * j) (unat (sb_size (sb s))) = Some i" and "of_nat (8192 * j + i) \<notin> H"
  shows "yields (balloc_loop dev (8192 * j # bs) s) (\<lambda>b t. b = of_nat (8192 * j + i) \<and>
    tx dev t (C(n := bitmap_set i (C n), b := replicate BSIZE 0)) (insert b (insert n L)) H D \<and> hstep dev H s t)"
proof -
  let ?b = "of_nat (8192 * j + i) :: uint32" and ?x = "bitmap_set i (C n)"
  have room: "log_room s L 1" "buf_room L H 1" "log_room s (insert n L) 1" "buf_room (insert n L) H 1"
    using log_room_less [OF assms(4)] buf_room_less [OF assms(5)] log_room_insert [of s L 1 n] buf_room_insert(3) [of L H 1 n] assms(4,5)
    by (simp_all add: numeral_2_eq_2)
  from tx_bread [OF assms(1,3) room(2)] obtain bp t where t: "bread dev n s = Done bp t" "tx dev t C L (insert n H) D" "holds_buf dev t bp n"
    "b_data (bufs t bp) = C n" "tx_step dev n s t" by (auto simp: yields_iff)
  have h: "hstep dev H s t" using t(5) assms(3) by (rule hstep_tx)
  have up: "upd_buf bp (\<lambda>q. q\<lparr>b_data := bitmap_set i (b_data q)\<rparr>) t = upd_buf bp (\<lambda>q. q\<lparr>b_data := ?x\<rparr>) t"
    using t(4) by (simp add: upd_buf_def)
  have "yields (obind (log_write bp (upd_buf bp (\<lambda>q. q\<lparr>b_data := ?x\<rparr>) t)) (\<lambda>_ s. brelse bp s))
      (\<lambda>_ u. tx dev u (C(n := ?x)) (insert n L) (insert n H - {n}) D \<and> tx_step dev n t u)"
    using t(2,3) room(1) log_room_step [OF t(5)] by (intro tx_put) simp_all
  then obtain v u where v: "log_write bp (upd_buf bp (\<lambda>q. q\<lparr>b_data := ?x\<rparr>) t) = Done () v" "brelse bp v = Done () u"
    "tx dev u (C(n := ?x)) (insert n L) H D" "tx_step dev n t u" using assms(3) by (auto simp: yields_iff obind_Done_iff)
  have hu: "hstep dev H s u" using h hstep_tx [OF v(4) assms(3)] by (rule hstep_trans)
  have "yields (bzero dev ?b u) (\<lambda>_ w. tx dev w (C(n := ?x, ?b := replicate BSIZE 0)) (insert ?b (insert n L)) H D \<and> hstep dev H u w)"
    using room(3,4) log_room_hstep [OF hu] by (intro bzero_spec [OF v(3) assms(7)]) simp_all
  then obtain w where w: "bzero dev ?b u = Done () w" "tx dev w (C(n := ?x, ?b := replicate BSIZE 0)) (insert ?b (insert n L)) H D" "hstep dev H u w"
    by (auto simp: yields_iff)
  have "balloc_loop dev (8192 * j # bs) s = Done ?b w"
    using t(1,4) v(1,2) w(1) up assms(2,6) itable_step(1) [OF h] by simp
  with w hstep_trans [OF hu w(3)] show ?thesis by simp
qed

lemma balloc_loop_spec:
  assumes "tx dev s C L H D" and "alloc_ok (sb s) C H" and "log_room s L 2" and "buf_room L H 2"
    and "\<exists>b < sb_size (sb s). \<not> block_used (sb s) C b" and "\<forall>b < sb_size (sb s). unat b < 8192 * k \<longrightarrow> block_used (sb s) C b"
    and "m = (unat (sb_size (sb s)) + 8191) div 8192" and "k \<le> m"
  shows "yields (balloc_loop dev (map ((*) 8192) [k..<m]) s) (\<lambda>b t. first_free (sb s) C b \<and>
    tx dev t (alloc_block (sb s) b C) (insert b (insert (BBLOCK b (sb s)) L)) H D \<and> hstep dev H s t)"
  using assms(1,3,6,8) assms(2,4,5,7)
proof (induction "m - k" arbitrary: k s)
  case 0
  then have "unat b < 8192 * k" if "b < sb_size (sb s)" for b using that by (auto simp: word_less_nat_alt)
  with 0 show ?case by blast
next
  case (Suc d)
  let ?S = "sb s"
  let ?n = "BBLOCK (of_nat (8192 * k)) ?S"
  have k: "k < m" "8192 * k < unat (sb_size ?S)" using Suc.hyps(2) Suc.prems by auto
  have up: "map ((*) 8192) [k..<m] = 8192 * k # map ((*) 8192) [Suc k..<m]" using k(1) by (simp add: upt_conv_Cons)
  have "8192 * k < 4294967296" using k(2) unsigned_less [of "sb_size ?S", where 'a = nat] by simp
  then have "of_nat (8192 * k) < sb_size ?S" using k(2) balloc_block(3) [of 0 k] by (simp add: word_less_nat_alt)
  then have n: "?n \<notin> H" using Suc.prems(5) by (auto simp: alloc_ok_def)
  show ?case
  proof (cases "bitmap_find (C ?n) (8192 * k) (unat (sb_size ?S))")
    case None
    from balloc_skip [OF Suc.prems(1) n buf_room_less [OF Suc.prems(6)] None] obtain t where
      t: "balloc_loop dev (map ((*) 8192) [k..<m]) s = balloc_loop dev (map ((*) 8192) [Suc k..<m]) t" "tx dev t C L H D" "hstep dev H s t"
      unfolding up by auto
    have sb: "sb t = ?S" using itable_step(1) [OF t(3)] by simp
    have "block_used ?S C b" if "b < sb_size ?S" "unat b < 8192 * Suc k" for b
      using that Suc.prems(3) bitmap_find_None [where C = C and S = ?S and c = b and j = k] None by (cases "unat b < 8192 * k") auto
    with Suc.prems k(1) t(2) Suc.hyps(2) log_room_hstep [OF t(3)] have
      "yields (balloc_loop dev (map ((*) 8192) [Suc k..<m]) t) (\<lambda>b u. first_free (sb t) C b \<and>
        tx dev u (alloc_block (sb t) b C) (insert b (insert (BBLOCK b (sb t)) L)) H D \<and> hstep dev H t u)"
      by (intro Suc.hyps(1)) (simp_all add: sb)
    then show ?thesis unfolding t(1) sb by (rule yields_mono) (use hstep_trans [OF t(3)] in blast)
  next
    case (Some i)
    note f = bitmap_find_Some [where C = C and S = ?S, OF Some]
    let ?b = "of_nat (8192 * k + i) :: uint32"
    have lt: "8192 * k + i < 4294967296" using f(2) unsigned_less [of "sb_size ?S", where 'a = nat] by simp
    note b = balloc_block [OF f(1) lt]
    have bs: "?b < sb_size ?S" using f(2) b(3) by (simp add: word_less_nat_alt)
    have used: "block_used ?S C c" if "c < ?b" for c
    proof (cases "unat c < 8192 * k")
      case True
      then show ?thesis using Suc.prems(3) less_trans [OF that bs] by blast
    qed (use that b(3) f(4) in \<open>simp add: word_less_nat_alt\<close>)
    have nh: "?b \<notin> H" using Suc.prems(5) f(3) by (auto simp: alloc_ok_def)
    have ff: "first_free ?S C ?b" unfolding first_free_def using bs f(3) used by blast
    from balloc_take [OF Suc.prems(1) refl n Suc.prems(2,6) Some nh] show ?thesis unfolding up
      by (rule yields_mono) (use ff b in \<open>auto simp: alloc_block_def\<close>)
  qed
qed

lemma first_freeD:
  assumes "first_free S C b" and "bitmap_ok S C"
  shows "b < sb_size S" and "\<not> block_used S C b" and "c < sb_size S \<Longrightarrow> b \<noteq> BBLOCK c S"
  using assms by (auto simp: first_free_def bitmap_ok_def)

lemma alloc_block_used:
  assumes "first_free S C b" and "bitmap_ok S C" and "c < sb_size S"
  shows "block_used S (alloc_block S b C) c \<longleftrightarrow> c = b \<or> block_used S C c"
proof -
  let ?C = "C(BBLOCK b S := bitmap_set (unat (b mod 8192)) (C (BBLOCK b S)))"
  have "b \<noteq> BBLOCK c S" using assms by (rule first_freeD(3))
  then have "block_used S (alloc_block S b C) c = block_used S ?C c" by (simp add: block_used_def alloc_block_def)
  then show ?thesis using block_used_set(1) [where C = C and b = b and S = S and c = c, OF _ refl] assms(2) by (simp add: bitmap_ok_def)
qed

lemma alloc_block_length: "\<forall>n. length (C n) = BSIZE \<Longrightarrow> length (alloc_block S b C n) = BSIZE"
  by (simp add: alloc_block_def)

lemma balloc_spec:
  assumes "tx dev s C L H D" and "alloc_ok (sb s) C H" and "log_room s L 2" and "buf_room L H 2"
    and "\<exists>b < sb_size (sb s). \<not> block_used (sb s) C b"
  shows "yields (balloc dev s) (\<lambda>b t. first_free (sb s) C b \<and>
    tx dev t (alloc_block (sb s) b C) (insert b (insert (BBLOCK b (sb s)) L)) H D \<and> hstep dev H s t)"
  unfolding balloc_def by (rule balloc_loop_spec [OF assms _ refl]) simp_all

section \<open>The properties\<close>

text \<open>A small file system inside a transaction: 1000 blocks, of which the bitmap in block 45 marks the first 48.\<close>

definition sb1000 :: superblock where
  "sb1000 = \<lparr>sb_magic = 0, sb_size = 1000, sb_nblocks = 941, sb_ninodes = 200, sb_nlog = 30, sb_logstart = 2, sb_inodestart = 32, sb_bmapstart = 45\<rparr>"

definition disk48 :: "uint32 \<Rightarrow> uint8 list" where
  "disk48 = (\<lambda>_. replicate BSIZE 0)(45 := replicate 6 255 @ replicate 1018 0)"

definition op48 :: trapst where
  "op48 = (fresh 2 disk48)\<lparr>log_outstanding := 1, log_size := 30, sb := sb1000\<rparr>"

lemma txn_refs_empty: "txn_refs {} {} = (\<lambda>_. 0)"
  by (simp add: txn_refs_def fun_eq_iff)

lemma tx_op48: "tx 1 op48 disk48 {} {} disk48"
proof -
  have "calm op48 = calm (fresh 2 disk48)" by (rule calm_cong) (simp_all add: op48_def hart_ok_def mycpu_def intr_get_def)
  then have "cache 1 op48 = cache 1 (fresh 2 disk48)" by (intro cache_cong) (simp_all add: op48_def)
  then have "cache 1 op48 disk48 (txn_refs {} {}) {} disk48 []" using cache_fresh [of 2 disk48] txn_refs_empty by simp
  moreover have "logged op48 {}" by (simp add: logged_def op48_def fresh_def bss1_def bss_def)
  ultimately show ?thesis by (auto simp: tx_def)
qed

lemma BBLOCK_48: "b < 1000 \<Longrightarrow> BBLOCK b sb1000 = 45"
proof -
  assume "b < 1000"
  then have "unat (b div 8192) = unat (0 :: uint32)" by (simp add: unat_div word_less_nat_alt)
  then show ?thesis unfolding word_unat_eq_iff [symmetric] by (simp add: BBLOCK_def sb1000_def)
qed

lemma block_used_48:
  assumes "b < 1000"
  shows "block_used sb1000 disk48 b \<longleftrightarrow> b < 48"
proof -
  have u: "unat b < 1000" using assms by (simp add: word_less_nat_alt)
  have "BBLOCK b sb1000 = 45" using assms by (rule BBLOCK_48)
  moreover have "unat (b mod 8192) = unat b" using u by (simp add: unat_mod_8192)
  moreover have "bit ((replicate 6 255 @ replicate 1018 0 :: uint8 list) ! (unat b div 8)) (unat b mod 8) \<longleftrightarrow> unat b < 48"
  proof (cases "unat b < 48")
    case True
    then have "unat b div 8 < 6" by (simp add: less_mult_imp_div_less)
    moreover have "bit (255 :: uint8) k" if "k < 8" for k
    proof -
      have "(255 :: uint8) = mask 8" by (simp add: mask_eq_exp_minus_1)
      then show ?thesis using that by (simp only: bit_mask_iff) simp
    qed
    ultimately show ?thesis using True by (simp add: nth_append)
  next
    case False
    then have "6 \<le> unat b div 8" using div_le_mono [of 48 "unat b" 8] by simp
    moreover have "unat b div 8 - 6 < 1018" using u by simp
    ultimately show ?thesis using False by (simp add: nth_append)
  qed
  ultimately show ?thesis by (simp add: block_used_def bitmap_used_bit disk48_def word_less_nat_alt)
qed

lemma alloc_ok_48: "alloc_ok sb1000 disk48 {}"
  using BBLOCK_48 block_used_48 by (auto simp: alloc_ok_def bitmap_ok_def sb1000_def disk48_def)


lemma op48_ready: "alloc_ok (sb op48) disk48 {}" "log_room op48 {} 3" "buf_room {} {} 3" "\<exists>b < sb_size (sb op48). \<not> block_used (sb op48) disk48 b"
proof -
  have s: "sb op48 = sb1000" by (simp add: op48_def)
  show "alloc_ok (sb op48) disk48 {}" using alloc_ok_48 by (simp add: s)
  show "log_room op48 {} 3" "buf_room {} {} 3" by (simp_all add: log_room_def buf_room_def op48_def)
  show "\<exists>b < sb_size (sb op48). \<not> block_used (sb op48) disk48 b"
    unfolding s by (rule exI [of _ 48]) (simp add: block_used_48, simp add: sb1000_def)
qed




end
