(* ===== verification/Ring.thy ===== *)
theory Ring
  imports Bss
begin

text \<open>
  The ring buffers of the kernel: pipes (\<open>kernel/pipe.c\<close>), the uart's transmit buffer (\<open>kernel/uart.c\<close>) and
  the console's input buffer (\<open>kernel/console.c\<close>). All three count reads and writes in free running words
  and index the buffer by the count modulo its size. \<open>ring_queue\<close> is the queue such a buffer holds.
\<close>

definition ring_queue :: "nat \<Rightarrow> (nat \<Rightarrow> uint8) \<Rightarrow> 'w::len word \<Rightarrow> 'w word \<Rightarrow> uint8 list" where
  "ring_queue N buf r w = map (\<lambda>i. buf ((unat r + i) mod N)) [0..<unat (w - r)]"

lemma length_ring_queue [simp]: "length (ring_queue N buf r w) = unat (w - r)"
  by (simp add: ring_queue_def)

lemma ring_queue_empty: "ring_queue N buf r w = [] \<longleftrightarrow> r = w"
  using unat_eq_0 [of "w - r"] by (auto simp: ring_queue_def)

text \<open>Counts that wrap around keep their residue, because the size divides the range of the count.\<close>

lemma unat_mod_plus:
  fixes r :: "'w::len word"
  assumes "N dvd 2 ^ LENGTH('w)"
  shows "unat (r + of_nat i) mod N = (unat r + i) mod N"
proof -
  have "unat (r + of_nat i) = (unat r + i) mod 2 ^ LENGTH('w)"
    by (simp add: unat_word_ariths unat_of_nat mod_add_right_eq)
  then show ?thesis using assms by (simp add: mod_mod_cancel)
qed

lemma unat_wr:
  fixes r w :: "'w::len word"
  assumes "N dvd 2 ^ LENGTH('w)"
  shows "unat w mod N = (unat r + unat (w - r)) mod N"
  using unat_mod_plus [OF assms, of r "unat (w - r)"] by simp

lemma unat_diff_Suc:
  fixes r w :: "'w::len word"
  assumes "unat (w - r) < N" and "N < 2 ^ LENGTH('w)"
  shows "unat (w + 1 - r) = Suc (unat (w - r))"
proof -
  have "w + 1 - r = (w - r) + 1" by simp
  moreover have "unat ((w - r) + 1) = Suc (unat (w - r))" using assms by (subst unat_word_ariths) simp
  ultimately show ?thesis by (simp only:)
qed

lemma unat_diff_pred:
  fixes r w :: "'w::len word"
  assumes "r \<noteq> w"
  shows "unat (w - (r + 1)) = unat (w - r) - 1"
proof -
  have "w - (r + 1) = (w - r) - 1" by simp
  moreover have "unat ((w - r) - 1) = unat (w - r) - 1" using assms by (intro unat_minus_one) simp
  ultimately show ?thesis by (simp only:)
qed

lemma mod_apart:
  fixes i n N x :: nat
  assumes "i < n" and "n < N"
  shows "(x + i) mod N \<noteq> (x + n) mod N"
proof
  assume "(x + i) mod N = (x + n) mod N"
  then obtain p q where "x + i + N * p = x + n + N * q" unfolding nat_mod_eq_iff by blast
  then have "(i + N * p) mod N = (n + N * q) mod N" by simp
  with assms show False by simp
qed

section \<open>The interface\<close>

locale ring =
  fixes put :: "uint8 \<Rightarrow> 's \<Rightarrow> 's"
    and get :: "'s \<Rightarrow> uint8 \<times> 's"
    and buf :: "'s \<Rightarrow> nat \<Rightarrow> uint8"
    and rd :: "'s \<Rightarrow> 'w::len word"
    and wr :: "'s \<Rightarrow> 'w word"
    and N :: nat
  assumes put: "buf (put c s) = (buf s)(unat (wr s) mod N := c)" "rd (put c s) = rd s" "wr (put c s) = wr s + 1"
    and get: "fst (get s) = buf s (unat (rd s) mod N)" "buf (snd (get s)) = buf s" "rd (snd (get s)) = rd s + 1" "wr (snd (get s)) = wr s"
    and N: "0 < N" "N dvd 2 ^ LENGTH('w)" "N < 2 ^ LENGTH('w)"
begin

lemma put_queue:
  assumes "unat (wr s - rd s) < N"
  shows "ring_queue N (buf (put c s)) (rd (put c s)) (wr (put c s)) = ring_queue N (buf s) (rd s) (wr s) @ [c]"
proof -
  let ?n = "unat (wr s - rd s)"
  have "(unat (rd s) + i) mod N \<noteq> unat (wr s) mod N" if "i < ?n" for i
    unfolding unat_wr [OF N(2), of "wr s" "rd s"] by (rule mod_apart [OF that assms])
  then show ?thesis
    using unat_diff_Suc [OF assms N(3)] unat_wr [OF N(2), of "wr s" "rd s"] by (simp add: ring_queue_def put)
qed

lemma get_queue:
  assumes "rd s \<noteq> wr s"
  shows "ring_queue N (buf s) (rd s) (wr s) = fst (get s) # ring_queue N (buf (snd (get s))) (rd (snd (get s))) (wr (snd (get s)))"
proof -
  have pos: "0 < unat (wr s - rd s)" using assms by (simp add: unat_gt_0)
  then obtain n where n: "unat (wr s - rd s) = Suc n" by (cases "unat (wr s - rd s)") simp_all
  have r: "(unat (rd s + 1) + i) mod N = (unat (rd s) + Suc i) mod N" for i
    using unat_mod_plus [OF N(2), of "rd s" 1] by (metis One_nat_def add.assoc add.commute mod_add_left_eq of_nat_1 plus_1_eq_Suc)
  show ?thesis
    using unat_diff_pred [OF assms] n by (simp add: ring_queue_def get r upt_conv_Cons map_Suc_upt [symmetric] del: upt_Suc)
qed

lemma full: "wr s = rd s + of_nat N \<longleftrightarrow> unat (wr s - rd s) = N"
proof -
  have "wr s = rd s + of_nat N \<longleftrightarrow> wr s - rd s = of_nat N" by (metis add.commute add_diff_cancel_left' diff_add_cancel)
  also have "\<dots> \<longleftrightarrow> unat (wr s - rd s) = N" using N(3) by (simp add: word_unat_eq_iff unat_of_nat)
  finally show ?thesis .
qed

end

section \<open>Pipes, the uart and the console\<close>

interpretation pipe_ring: ring pipe_put pipe_take pi_data pi_nread pi_nwrite PIPESIZE
  by unfold_locales (simp_all add: pipe_put_def pipe_take_def)

interpretation uart_ring: ring uart_put uart_take uart_tx_buf uart_tx_r uart_tx_w UART_TX_BUF_SIZE
  by unfold_locales (simp_all add: uart_put_def uart_take_def)

interpretation cons_ring: ring cons_put cons_take cons_buf cons_r cons_e INPUT_BUF
  by unfold_locales (simp_all add: cons_put_def cons_take_def)

definition pipe_queue :: "pipe \<Rightarrow> uint8 list" where
  "pipe_queue q = ring_queue PIPESIZE (pi_data q) (pi_nread q) (pi_nwrite q)"

definition uart_queue :: "('a) uart_scheme \<Rightarrow> uint8 list" where
  "uart_queue s = ring_queue UART_TX_BUF_SIZE (uart_tx_buf s) (uart_tx_r s) (uart_tx_w s)"

text \<open>What has been typed, committed or not.\<close>

definition cons_queue :: "('a) console_scheme \<Rightarrow> uint8 list" where
  "cons_queue s = ring_queue INPUT_BUF (cons_buf s) (cons_r s) (cons_e s)"

lemma pipe_put_queue: "length (pipe_queue q) < PIPESIZE \<Longrightarrow> pipe_queue (pipe_put c q) = pipe_queue q @ [c]"
  using pipe_ring.put_queue [of q c] by (simp add: pipe_queue_def)

lemma pipe_take_queue: "pi_nread q \<noteq> pi_nwrite q \<Longrightarrow> pipe_queue q = fst (pipe_take q) # pipe_queue (snd (pipe_take q))"
  using pipe_ring.get_queue [of q] by (simp add: pipe_queue_def)

lemma pipe_full: "pi_nwrite q = pi_nread q + 512 \<longleftrightarrow> length (pipe_queue q) = PIPESIZE"
  using pipe_ring.full [of q] by (simp add: pipe_queue_def)

lemma pipe_empty: "pi_nread q = pi_nwrite q \<longleftrightarrow> pipe_queue q = []"
  by (simp add: pipe_queue_def ring_queue_empty)

section \<open>Reading and writing a pipe\<close>

lemma pipes_acq [simp]:
  "pipes (acq l s) = pipes s" "upd_pipe pi f (acq l s) = acq l (upd_pipe pi f s)"
  by (simp_all add: acq_def pushed_def mycpu_def intr_get_def upd_pipe_def)

lemma pipes_settle [simp]:
  "pipes (settle s) = pipes s" "upd_pipe pi f (settle s) = settle (upd_pipe pi f s)"
  by (simp_all add: settle_def mycpu_def intr_get_def upd_pipe_def)

lemma pipes_machine [simp]:
  "hart_ok (upd_pipe pi f s) = hart_ok s" "lock_free l (upd_pipe pi f s) = lock_free l s" "mycpu (upd_pipe pi f s) = mycpu s"
  "mem (upd_pipe pi f s) = mem s" "freelist (upd_pipe pi f s) = freelist s" "kend (upd_pipe pi f s) = kend s"
  "procs (upd_pipe pi f s) = procs s" "pipes (upd_pipe pi f s) = (pipes s)(pi := f (pipes s pi))" "tp (upd_pipe pi f s) = tp s"
  by (simp_all add: hart_ok_def lock_free_def mycpu_def intr_get_def upd_pipe_def)

lemma upd_pipe_upd_pipe [simp]: "upd_pipe pi f (upd_pipe pi g s) = upd_pipe pi (\<lambda>q. f (g q)) s"
  by (simp add: upd_pipe_def)

lemma upd_pipe_same [simp]: "upd_pipe pi (\<lambda>q. q) s = s"
  by (simp add: upd_pipe_def)

lemma vm_ok_eq:
  assumes "mem t = mem s" and "freelist t = freelist s" and "kend t = kend s" and "hart_ok t" and "lock_free KmemLock t"
    and "vm_ok s ps l pt"
  shows "vm_ok t ps l pt"
proof -
  have "ram_page t = ram_page s" by (intro ext) (simp add: ram_page_def assms(3))
  with assms show ?thesis by (simp add: vm_ok_def kmem_inv_def)
qed

lemma ucopy_eq:
  assumes "mem t = mem s" and "freelist t = freelist s" and "kend t = kend s" and "hart_ok t" and "lock_free KmemLock t"
    and "ucopy_ok s ps pt"
  shows "ucopy_ok t ps pt"
proof -
  have "ram_page t = ram_page s" by (intro ext) (simp add: ram_page_def assms(3))
  with assms(1,6) vm_ok_eq [OF assms(1-5)] show ?thesis unfolding ucopy_ok_def can_free_def by metis
qed

lemma copyin_one:
  assumes "vm_ok s ps 2 pt" and "ubyte (mem s) pt va = Some b"
  shows "copyin pt va 1 s = Done (0, [b]) s"
proof -
  from copyin_ubyte [OF assms(1), of va 1] assms(2) obtain bs where "copyin pt va 1 s = Done (0, bs) s" "map Some bs = [Some b]" by auto
  then show ?thesis by auto
qed

lemma pipewrite_loop_appends:
  assumes "vm_ok s ps 2 (p_pagetable (procs s pr))" and "pi_readopen (pipes s pi)" and "p_killed (procs s pr) = 0"
    and "length (pipe_queue (pipes s pi)) + length bs \<le> PIPESIZE"
    and "\<And>j. j < length bs \<Longrightarrow> ubyte (mem s) (p_pagetable (procs s pr)) (addr + of_int (i + int j)) = Some (bs ! j)"
  shows "pipewrite_loop pi pr addr i (i + int (length bs)) s = Done (Some (i + int (length bs))) (upd_pipe pi (fold pipe_put bs) s)"
  using assms
proof (induction bs arbitrary: i s)
  case Nil
  then show ?case by (simp add: pipewrite_loop.simps id_def)
next
  case (Cons b bs)
  let ?s = "upd_pipe pi (pipe_put b) s"
  have room: "length (pipe_queue (pipes s pi)) < PIPESIZE" using Cons.prems(4) by simp
  then have nf: "pi_nwrite (pipes s pi) \<noteq> pi_nread (pipes s pi) + 512" by (simp add: pipe_full)
  have c: "copyin (p_pagetable (procs s pr)) (addr + of_int i) 1 s = Done (0, [b]) s"
    using Cons.prems(1) Cons.prems(5) [of 0] by (intro copyin_one) simp_all
  have "vm_ok ?s ps 2 (p_pagetable (procs ?s pr))"
    using Cons.prems(1) by (intro vm_ok_eq [of ?s s]) (simp_all add: vm_ok_def kmem_inv_def)
  moreover have "pi_readopen (pipes ?s pi)" using Cons.prems(2) by (simp add: pipe_put_def)
  moreover have "length (pipe_queue (pipes ?s pi)) + length bs \<le> PIPESIZE" using Cons.prems(4) room by (simp add: pipe_put_queue)
  moreover have "ubyte (mem ?s) (p_pagetable (procs ?s pr)) (addr + of_int (i + 1 + int j)) = Some (bs ! j)" if "j < length bs" for j
    using Cons.prems(5) [of "Suc j"] that by (simp add: ac_simps)
  ultimately have "pipewrite_loop pi pr addr (i + 1) (i + 1 + int (length bs)) ?s =
      Done (Some (i + 1 + int (length bs))) (upd_pipe pi (fold pipe_put bs) ?s)"
    using Cons.prems(3) by (intro Cons.IH) simp_all
  then show ?case
    using Cons.prems(2,3) nf c by (subst pipewrite_loop.simps) (simp add: ac_simps comp_def)
qed

lemma pipe_puts_queue:
  "length (pipe_queue q) + length bs \<le> PIPESIZE \<Longrightarrow> pipe_queue (fold pipe_put bs q) = pipe_queue q @ bs"
  by (induction bs arbitrary: q) (simp_all add: pipe_put_queue)

lemma calm_procs_free: "calm s \<Longrightarrow> procs_free (acq (PipeLock pi) s)"
  by (auto simp: calm_def procs_free_def)

text \<open>A process with one page of memory, and a pipe that holds two bytes.\<close>

definition pipe2 :: pipe where
  "pipe2 = \<lparr>pi_data = (\<lambda>i. of_nat i), pi_nread = 5, pi_nwrite = 7, pi_readopen = True, pi_writeopen = True\<rparr>"

lemma pipe2_queue: "pipe_queue pipe2 = [5, 6]"
  by (simp add: pipe_queue_def ring_queue_def pipe2_def upt_rec)

definition user1 :: "kmem \<Rightarrow> trapst" where
  "user1 s = bss1\<lparr>mem := mem s, freelist := freelist s, kend := kend s, pipes := (\<lambda>_. pipe2),
     procs := (procs bss1)(0 := (procs bss1 0)\<lparr>p_pagetable := 0x80030000\<rparr>)\<rparr>"

lemma user1_simps [simp]:
  "hart_ok (user1 s)" "lock_free l (user1 s)" "calm (user1 s)" "cpu_proc (mycpu (user1 s)) = Some 0" "mem (user1 s) = mem s"
  "p_pagetable (procs (user1 s) 0) = 0x80030000" "p_killed (procs (user1 s) 0) = 0" "pipes (user1 s) = (\<lambda>_. pipe2)"
  by (simp_all add: user1_def bss1_def bss_def calm_def hart_ok_def lock_free_def mycpu_def intr_get_def zero_cpu_def zero_proc_def)

lemma user1_ucopy: "ucopy_ok s ps pt \<Longrightarrow> ucopy_ok (user1 s) ps pt"
  by (erule ucopy_eq [rotated 5]) (simp_all, simp_all add: user1_def)

text \<open>C21. \<open>pipewrite\<close> by a process whose buffer is mapped, on a pipe with a reader and room for all bytes, appends
  exactly the bytes of the buffer to the queue of the pipe, returns their number, and changes neither user
  memory nor another pipe.\<close>

theorem pipewrite_appends:
  assumes "calm s" and "cpu_proc (mycpu s) = Some p" and "pt = p_pagetable (procs s p)" and "p_killed (procs s p) = 0"
    and "pi_readopen (pipes s pi)" and "vm_ok s ps 2 pt" and "length bs = nat (sint n)"
    and "\<forall>i < length bs. ubyte (mem s) pt (addr + of_nat i) = Some (bs ! i)"
    and "length (pipe_queue (pipes s pi)) + length bs \<le> PIPESIZE"
  shows "yields (pipewrite pi addr n s) (\<lambda>r t. r = int (length bs) \<and> pipe_queue (pipes t pi) = pipe_queue (pipes s pi) @ bs \<and>
    (\<forall>q. q \<noteq> pi \<longrightarrow> pipes t q = pipes s q) \<and> mem t = mem s)"
proof -
  note c = calmD [OF assms(1)]
  let ?s = "acq (PipeLock pi) (settle s)"
  have l: "pipewrite_loop pi p addr 0 (sint n) ?s = Done (Some (int (length bs))) (upd_pipe pi (fold pipe_put bs) ?s)"
  proof (cases "0 \<le> sint n")
    case True
    then have n: "sint n = 0 + int (length bs)" using assms(7) by simp
    show ?thesis
      unfolding n using assms c vm_ok_eq [of ?s s] by (subst pipewrite_loop_appends) simp_all
  next
    case False
    then show ?thesis using assms(7) by (subst pipewrite_loop.simps) (simp add: id_def)
  qed
  have "procs_free (acq (PipeLock pi) (settle (upd_pipe pi (fold pipe_put bs) s)))"
    using assms(1) by (auto simp: calm_def procs_free_def)
  then show ?thesis
    using c assms(2,9) l by (simp add: pipewrite_def myproc_eq acquire_free wakeup_wakes release_acq pipe_puts_queue)
qed

theorem pipewrite_appends_witness:
  "\<exists>(s :: trapst) t b. pipewrite 0 100 1 s = Done 1 t \<and> pipe_queue (pipes s 0) = [5, 6] \<and> pipe_queue (pipes t 0) = [5, 6, b]"
proof -
  obtain s :: kmem and ps where s: "ucopy_ok s ps 0x80030000" "\<forall>v < 4096. ubyte (mem s) 0x80030000 v \<noteq> None" using user_page_bytes by blast
  then obtain b where b: "ubyte (mem s) 0x80030000 100 = Some b" by fastforce
  have "vm_ok (user1 s) ps 2 0x80030000" using user1_ucopy [OF s(1)] by (simp add: ucopy_ok_def)
  then have "yields (pipewrite 0 100 1 (user1 s)) (\<lambda>r t. r = int (length [b]) \<and> pipe_queue (pipes t 0) = pipe_queue (pipes (user1 s) 0) @ [b] \<and>
    (\<forall>q. q \<noteq> 0 \<longrightarrow> pipes t q = pipes (user1 s) q) \<and> mem t = mem (user1 s))"
    by (intro pipewrite_appends [where p = 0 and ps = ps and pt = "0x80030000"]) (simp_all add: b pipe2_queue, simp_all add: pipe2_def)
  then obtain t where "pipewrite 0 100 1 (user1 s) = Done 1 t" "pipe_queue (pipes t 0) = [5, 6, b]" by (rule yieldsE) (simp add: pipe2_queue)
  then show ?thesis by (intro exI [of _ "user1 s"] exI [of _ t] exI [of _ b]) (simp add: pipe2_queue)
qed

lemma ucopy_hart: "ucopy_ok s ps pt \<Longrightarrow> hart_ok s" "ucopy_ok s ps pt \<Longrightarrow> lock_free KmemLock s"
  unfolding ucopy_ok_def vm_ok_def kmem_inv_def by blast+

lemma copyout_one:
  assumes "ucopy_ok s ps pt" and "ubyte (mem s) pt va \<noteq> None"
  obtains m where "copyout pt va [c] 1 s = Done 0 (s\<lparr>mem := m\<rparr>)" and "ucopy_ok (s\<lparr>mem := m\<rparr>) ps pt"
    and "\<And>v. ubyte m pt v = (if v = va then Some c else ubyte (mem s) pt v)"
proof -
  have vm: "vm_ok s ps 2 pt" using assms(1) by (simp add: ucopy_ok_def)
  have pa: "upage (mem s) pt (PGROUNDDOWN va) \<noteq> 0" using assms(2) by (simp add: ubyte_def upage_PGROUNDDOWN split: if_splits)
  have "unat (page_chunk va 1) = 1" using page_chunk_bounds [of 1 va] by (simp add: word_less_nat_alt)
  then have n: "page_chunk va 1 = 1" by (metis unat_1 word_unat_eq_iff)
  have "copyout pt (PGROUNDDOWN va + PGSIZE) [] 0 t = Done 0 t" for t :: "'a kmem_scheme" by (subst copyout.simps) simp
  then have "\<exists>m. copyout pt va [c] 1 s = Done 0 (s\<lparr>mem := m\<rparr>)"
    using walkaddr_upage [OF vm, of "PGROUNDDOWN va"] pa n by (subst copyout.simps) (auto simp: Let_def)
  then obtain m where e: "copyout pt va [c] 1 s = Done 0 (s\<lparr>mem := m\<rparr>)" by blast
  have "unat (v - va) < 1 \<longleftrightarrow> v = va" for v by (metis less_one right_minus_eq unat_eq_0)
  then show thesis
    using copyout_ubyte [OF assms(1), of 1 "[c]" va] e by (intro that [OF e]) (auto simp: e less_Suc_eq_le)
qed

lemma copyout_one_fault:
  assumes "vm_ok s ps 2 pt" and "ubyte (mem s) pt va = None"
  shows "copyout pt va bs 1 s = Done (-1) s"
proof -
  have "upage (mem s) pt (PGROUNDDOWN va) = 0" using assms(2) by (simp add: ubyte_def upage_PGROUNDDOWN split: if_splits)
  with walkaddr_upage [OF assms(1), of "PGROUNDDOWN va"] show ?thesis by (subst copyout.simps) simp
qed

definition pipe_drop :: "nat \<Rightarrow> pipe \<Rightarrow> pipe" where
  "pipe_drop j = (\<lambda>q. snd (pipe_take q)) ^^ j"

lemma pipe_drop_simps [simp]: "pipe_drop 0 q = q" "pipe_drop (Suc j) q = pipe_drop j (snd (pipe_take q))"
  by (simp_all add: pipe_drop_def funpow_Suc_right del: funpow.simps(2))

lemma pipe_drop_queue: "j \<le> length (pipe_queue q) \<Longrightarrow> pipe_queue (pipe_drop j q) = drop j (pipe_queue q)"
proof (induction j arbitrary: q)
  case (Suc j)
  then have "pi_nread q \<noteq> pi_nwrite q" by (auto simp: pipe_empty)
  from pipe_take_queue [OF this] Suc show ?case by simp
qed simp

definition with_pipe :: "uint64 \<Rightarrow> ('a) pipest_scheme \<Rightarrow> memory \<Rightarrow> pipe \<Rightarrow> ('a) pipest_scheme" where
  "with_pipe pi s m q = s\<lparr>mem := m, pipes := (pipes s)(pi := q)\<rparr>"

lemma piperead_loop_takes:
  assumes "ucopy_ok s ps pt" and "pt = p_pagetable (procs s pr)" and "j = min k (length (pipe_queue (pipes s pi)))"
    and "\<And>x. x < j \<Longrightarrow> ubyte (mem s) pt (addr + of_nat (i + x)) \<noteq> None" and "k < 2 ^ 31"
  shows "\<exists>m. piperead_loop pi pr addr i k s = Done (int (i + j)) (with_pipe pi s m (pipe_drop j (pipes s pi))) \<and> ucopy_ok (s\<lparr>mem := m\<rparr>) ps pt \<and>
    (\<forall>v. ubyte m pt v = (let d = unat (v - (addr + of_nat i)) in if d < j then Some (pipe_queue (pipes s pi) ! d) else ubyte (mem s) pt v))"
  using assms
proof (induction k arbitrary: i j s)
  case 0
  then show ?case by (intro exI [of _ "mem s"]) (simp add: with_pipe_def)
next
  case (Suc k)
  show ?case
  proof (cases "pipe_queue (pipes s pi)")
    case Nil
    then have "pi_nread (pipes s pi) = pi_nwrite (pipes s pi)" by (simp add: pipe_empty)
    with Nil Suc.prems show ?thesis by (intro exI [of _ "mem s"]) (simp add: with_pipe_def)
  next
    case (Cons c cs)
    define q where "q = snd (pipe_take (pipes s pi))"
    have ne: "pi_nread (pipes s pi) \<noteq> pi_nwrite (pipes s pi)" using Cons by (simp add: pipe_empty)
    from pipe_take_queue [OF this] Cons have q: "pipe_take (pipes s pi) = (c, q)" "pipe_queue q = cs"
      by (auto simp: q_def prod_eq_iff)
    define j' where "j' = min k (length cs)"
    have j: "j = Suc j'" using Suc.prems(3) Cons by (simp add: j'_def)
    let ?s = "upd_pipe pi (\<lambda>_. q) s"
    have u: "ucopy_ok ?s ps pt" by (rule ucopy_eq [OF _ _ _ _ _ Suc.prems(1)]) (simp_all add: ucopy_hart [OF Suc.prems(1)])
    have b: "ubyte (mem ?s) pt (addr + of_nat i) \<noteq> None" using Suc.prems(4) [of 0] j by simp
    obtain m where m: "copyout pt (addr + of_nat i) [c] 1 ?s = Done 0 (?s\<lparr>mem := m\<rparr>)"
      "ucopy_ok (?s\<lparr>mem := m\<rparr>) ps pt" "\<And>v. ubyte m pt v = (if v = addr + of_nat i then Some c else ubyte (mem s) pt v)"
      by (rule copyout_one [OF u b, of c]) simp
    let ?t = "?s\<lparr>mem := m\<rparr>"
    have "ubyte (mem ?t) pt (addr + of_nat (Suc i + x)) \<noteq> None" if "x < j'" for x
      using Suc.prems(4) [of "Suc x"] that by (simp add: m(3) j)
    then obtain m' where m': "piperead_loop pi pr addr (Suc i) k ?t = Done (int (Suc i + j')) (with_pipe pi ?t m' (pipe_drop j' (pipes ?t pi)))"
      "ucopy_ok (?t\<lparr>mem := m'\<rparr>) ps pt"
      "\<And>v. ubyte m' pt v = (let d = unat (v - (addr + of_nat (Suc i))) in if d < j' then Some (pipe_queue (pipes ?t pi) ! d) else ubyte (mem ?t) pt v)"
      using Suc.IH [of ?t j' "Suc i"] Suc.prems(2,5) m(2) q(2) by (auto simp: j'_def)
    have T: "with_pipe pi ?t m' (pipe_drop j' (pipes ?t pi)) = with_pipe pi s m' (pipe_drop j (pipes s pi))" by (simp add: with_pipe_def upd_pipe_def j q(1))
    have "ucopy_ok (s\<lparr>mem := m'\<rparr>) ps pt"
      by (rule ucopy_eq [OF _ _ _ _ _ m'(2)]) (simp_all add: ucopy_hart [OF Suc.prems(1)] upd_pipe_def)
    moreover have "ubyte m' pt v = (let d = unat (v - (addr + of_nat i)) in if d < j then Some ((c # cs) ! d) else ubyte (mem s) pt v)" for v
    proof -
      have d: "v - (addr + of_nat (Suc i)) = (v - (addr + of_nat i)) - 1" by simp
      have le: "j' < 2 ^ 31" using Suc.prems(5) by (simp add: j'_def)
      show ?thesis
      proof (cases "v = addr + of_nat i")
        case True
        have "unat (- 1 :: uint64) = 2 ^ 64 - 1" by simp
        with True le show ?thesis unfolding m'(3) d by (simp add: m(3) j)
      next
        case False
        then have "unat (v - (addr + of_nat i) - 1) = unat (v - (addr + of_nat i)) - 1" "unat (v - (addr + of_nat i)) \<noteq> 0"
          by (simp_all add: unat_minus_one unat_eq_0)
        with False show ?thesis unfolding m'(3) d using q(2) by (cases "unat (v - (addr + of_nat i))") (simp_all add: m(3) j Let_def)
      qed
    qed
    moreover have "piperead_loop pi pr addr i (Suc k) s = Done (int (i + j)) (with_pipe pi s m' (pipe_drop j (pipes s pi)))"
      using ne q(1) m(1) m'(1) [unfolded T] Suc.prems(2) by (simp add: j)
    ultimately show ?thesis unfolding Cons by blast
  qed
qed

lemma with_pipe_simps [simp]:
  "with_pipe pi (acq l s) m q = acq l (with_pipe pi s m q)" "with_pipe pi (settle s) m q = settle (with_pipe pi s m q)"
  "hart_ok (with_pipe pi s m q) = hart_ok s" "lock_free l (with_pipe pi s m q) = lock_free l s" "mycpu (with_pipe pi s m q) = mycpu s"
  "procs (with_pipe pi s m q) = procs s" "mem (with_pipe pi s m q) = m" "pipes (with_pipe pi s m q) = (pipes s)(pi := q)"
  by (simp_all add: with_pipe_def acq_def pushed_def settle_def hart_ok_def lock_free_def mycpu_def intr_get_def)

text \<open>C20. \<open>piperead\<close> on a pipe that holds bytes or has no writer moves the first bytes of the queue, as many as are there and
  were asked for, to the mapped buffer of the process in order, returns their number, and changes no other
  byte of user memory. What \<open>pipewrite\<close> has appended is thus read in the order it was written.\<close>

theorem piperead_takes:
  assumes "calm s" and "cpu_proc (mycpu s) = Some p" and "pt = p_pagetable (procs s p)" and "ucopy_ok s ps pt"
    and "pipe_queue (pipes s pi) \<noteq> [] \<or> \<not> pi_writeopen (pipes s pi)"
    and "k = min (nat (sint n)) (length (pipe_queue (pipes s pi)))"
    and "\<forall>i < k. ubyte (mem s) pt (addr + of_nat i) \<noteq> None"
  shows "yields (piperead pi addr n s) (\<lambda>r t. r = int k \<and> pipe_queue (pipes t pi) = drop k (pipe_queue (pipes s pi)) \<and>
    (\<forall>v. ubyte (mem t) pt v = (let d = unat (v - addr) in
       if d < k then Some (pipe_queue (pipes s pi) ! d) else ubyte (mem s) pt v)))"
proof -
  note c = calmD [OF assms(1)]
  let ?s = "acq (PipeLock pi) (settle s)"
  have w: "piperead_wait pi p ?s = Done True ?s" using assms(5) by (subst piperead_wait.simps) (auto simp: pipe_empty)
  have u: "ucopy_ok ?s ps pt" by (rule ucopy_eq [OF _ _ _ _ _ assms(4)]) (simp_all add: c)
  have n: "nat (sint n) < 2 ^ 31" using sint_lt [of n] by simp
  obtain m where m: "piperead_loop pi p addr 0 (nat (sint n)) ?s = Done (int k) (with_pipe pi ?s m (pipe_drop k (pipes s pi)))"
    "\<forall>v. ubyte m pt v = (let d = unat (v - addr) in if d < k then Some (pipe_queue (pipes s pi) ! d) else ubyte (mem s) pt v)"
  proof -
    have s: "pipes ?s = pipes s" "mem ?s = mem s" "procs ?s = procs s" by simp_all
    have "\<exists>m. piperead_loop pi p addr 0 (nat (sint n)) ?s = Done (int (0 + k)) (with_pipe pi ?s m (pipe_drop k (pipes ?s pi))) \<and> ucopy_ok (?s\<lparr>mem := m\<rparr>) ps pt \<and>
      (\<forall>v. ubyte m pt v = (let d = unat (v - (addr + of_nat 0)) in if d < k then Some (pipe_queue (pipes ?s pi) ! d) else ubyte (mem ?s) pt v))"
      using assms(3,6,7) n by (intro piperead_loop_takes [OF u]) (simp_all add: s)
    then show thesis unfolding s using that by auto
  qed
  let ?t = "with_pipe pi (settle s) m (pipe_drop k (pipes s pi))"
  have "procs_free (acq (PipeLock pi) ?t)" using assms(1) by (auto simp: calm_def procs_free_def)
  then have "yields (piperead pi addr n s) (\<lambda>r t. r = int k \<and> pipes t pi = pipe_drop k (pipes s pi) \<and> mem t = m)"
    using c assms(2) w m(1) by (simp add: piperead_def myproc_eq acquire_free wakeup_wakes release_acq)
  then show ?thesis
    using m(2) assms(6) by (elim yields_mono) (simp add: pipe_drop_queue)
qed

theorem piperead_takes_witness:
  "\<exists>(s :: trapst) t m. piperead 0 10 4 s = Done 2 t \<and> pipe_queue (pipes s 0) = [5, 6] \<and> pipe_queue (pipes t 0) = [] \<and>
     ubyte (mem t) m 10 = Some 5 \<and> ubyte (mem t) m 11 = Some (6 :: uint8)"
proof -
  obtain s :: kmem and ps where s: "ucopy_ok s ps 0x80030000" "\<forall>v < 4096. ubyte (mem s) 0x80030000 v \<noteq> None" using user_page_bytes by blast
  have k: "(2 :: nat) = min (nat (sint (4 :: uint32))) (length (pipe_queue (pipes (user1 s) 0)))" by (simp add: pipe2_queue)
  have "10 + of_nat i < (4096 :: uint64)" if "i < 2" for i :: nat using less_2_cases [OF that] by auto
  with s(2) have m: "\<forall>i < 2. ubyte (mem (user1 s)) 0x80030000 (10 + of_nat i) \<noteq> None" by simp
  have "yields (piperead 0 10 4 (user1 s)) (\<lambda>r t. r = int 2 \<and> pipe_queue (pipes t 0) = drop 2 (pipe_queue (pipes (user1 s) 0)) \<and>
    (\<forall>v. ubyte (mem t) 0x80030000 v = (let d = unat (v - 10) in
       if d < 2 then Some (pipe_queue (pipes (user1 s) 0) ! d) else ubyte (mem (user1 s)) 0x80030000 v)))"
    by (rule piperead_takes [where p = 0, OF _ _ _ user1_ucopy [OF s(1)] _ k m]) (simp_all add: pipe2_queue)
  then obtain t where "piperead 0 10 4 (user1 s) = Done 2 t" "pipe_queue (pipes t 0) = []"
    "\<And>v. ubyte (mem t) 0x80030000 v = (let d = unat (v - 10) in if d < 2 then Some (pipe_queue (pipes (user1 s) 0) ! d) else ubyte (mem (user1 s)) 0x80030000 v)"
    by (rule yieldsE) (auto simp: pipe2_queue)
  then show ?thesis by (intro exI [of _ "user1 s"] exI [of _ t] exI [of _ "0x80030000"]) (simp add: pipe2_queue)
qed

text \<open>C26. A byte is lost when it cannot be delivered: \<open>piperead\<close> into an unmapped buffer returns 0 but has taken the first byte
  out of the pipe.\<close>

theorem piperead_fault_drops_byte:
  assumes "calm s" and "cpu_proc (mycpu s) = Some p" and "pt = p_pagetable (procs s p)" and "vm_ok s ps 2 pt"
    and "pipe_queue (pipes s pi) = c # cs" and "0 < sint n" and "ubyte (mem s) pt addr = None"
  shows "yields (piperead pi addr n s) (\<lambda>r t. r = 0 \<and> pipe_queue (pipes t pi) = cs \<and> mem t = mem s)"
proof -
  note h = calmD [OF assms(1)]
  define q where "q = snd (pipe_take (pipes s pi))"
  have ne: "pi_nread (pipes s pi) \<noteq> pi_nwrite (pipes s pi)" using assms(5) by (simp add: pipe_empty)
  from pipe_take_queue [OF this] assms(5) have q: "pipe_take (pipes s pi) = (c, q)" "pipe_queue q = cs"
    by (auto simp: q_def prod_eq_iff)
  let ?s = "acq (PipeLock pi) (settle s)" and ?t = "acq (PipeLock pi) (upd_pipe pi (\<lambda>_. q) (settle s))"
  have w: "piperead_wait pi p ?s = Done True ?s" using ne by (subst piperead_wait.simps) simp
  have "vm_ok ?t ps 2 pt" by (rule vm_ok_eq [OF _ _ _ _ _ assms(4)]) (simp_all add: h)
  then have "copyout pt addr [c] 1 ?t = Done (-1) ?t" using assms(7) by (intro copyout_one_fault) simp_all
  moreover obtain k where "nat (sint n) = Suc k" using assms(6) by (cases "nat (sint n)") simp_all
  ultimately have l: "piperead_loop pi p addr 0 (nat (sint n)) ?s = Done 0 ?t"
    using ne q(1) assms(3) by simp
  have "procs_free ?t" using assms(1) by (auto simp: calm_def procs_free_def)
  then show ?thesis
    using h assms(2) w l q(2) by (simp add: piperead_def myproc_eq acquire_free wakeup_wakes release_acq)
qed

theorem piperead_fault_drops_byte_witness:
  "\<exists>(s :: trapst) t. piperead 0 0x100000 4 s = Done 0 t \<and> pipe_queue (pipes s 0) = [5, 6] \<and> pipe_queue (pipes t 0) = [6]"
proof -
  obtain s :: kmem and ps where s: "ucopy_ok s ps 0x80030000" "ubyte (mem s) 0x80030000 0x100000 = None" using user_page_bytes by blast
  have vm: "vm_ok (user1 s) ps 2 0x80030000" using user1_ucopy [OF s(1)] by (simp add: ucopy_ok_def)
  have "yields (piperead 0 0x100000 4 (user1 s)) (\<lambda>r t. r = 0 \<and> pipe_queue (pipes t 0) = [6] \<and> mem t = mem (user1 s))"
    by (rule piperead_fault_drops_byte [where p = 0, OF _ _ _ vm]) (simp_all add: pipe2_queue s(2))
  then obtain t where "piperead 0 0x100000 4 (user1 s) = Done 0 t" "pipe_queue (pipes t 0) = [6]" by (rule yieldsE) simp
  then show ?thesis by (intro exI [of _ "user1 s"] exI [of _ t]) (simp add: pipe2_queue)
qed

end
