(* ===== verification/Proc_Frame.thy ===== *)
theory Proc_Frame
  imports Bss
begin

unbundle bit_operations_syntax

text \<open>
  What the operations of \<open>kernel/kalloc.c\<close>, \<open>kernel/vm.c\<close> and \<open>kernel/proc.c\<close> leave alone when they return: memory
  management keeps the process of every hart and everything beyond the memory, and the
  operations on processes other than those that switch neither start nor stop a running process.
\<close>

section \<open>What an operation leaves alone\<close>

text \<open>When the operation returns, the state it leaves is related to the one it found.\<close>

definition keeps :: "('s \<Rightarrow> 's \<Rightarrow> bool) \<Rightarrow> ('b, 's) outcome \<Rightarrow> 's \<Rightarrow> bool" where
  "keeps R m s \<longleftrightarrow> (\<forall>x t. m = Done x t \<longrightarrow> R s t)"

lemma keepsD: "keeps R m s \<Longrightarrow> m = Done x t \<Longrightarrow> R s t"
  by (simp add: keeps_def)

locale frame =
  fixes R :: "'s \<Rightarrow> 's \<Rightarrow> bool"
  assumes refl: "R s s"
    and trans: "R s t \<Longrightarrow> R t u \<Longrightarrow> R s u"
begin

lemma keeps_Done: "R s t \<Longrightarrow> keeps R (Done x t) s"
  by (simp add: keeps_def)

lemma keeps_Panic: "keeps R (Panic e) s"
  by (simp add: keeps_def)

lemma keeps_obind:
  assumes "keeps R m s" and "\<And>x t. m = Done x t \<Longrightarrow> keeps R (f x t) t"
  shows "keeps R (obind m f) s"
  using assms by (cases m) (auto simp: keeps_def intro: trans)

lemma keeps_if: "(b \<Longrightarrow> keeps R m s) \<Longrightarrow> (\<not> b \<Longrightarrow> keeps R n s) \<Longrightarrow> keeps R (if b then m else n) s"
  by simp

lemma keeps_from: "R s t \<Longrightarrow> keeps R m t \<Longrightarrow> keeps R m s"
  by (auto simp: keeps_def intro: trans)

lemma keeps_ofor: "R s t \<Longrightarrow> (\<And>i s. keeps R (body i s) s) \<Longrightarrow> keeps R (ofor js body t) s"
proof (induction js arbitrary: s t)
  case (Cons i js)
  show ?case
    by (rule keeps_from [OF Cons.prems(1)]) (simp, intro keeps_obind Cons.prems(2) Cons.IH refl)
qed (simp add: keeps_Done)

end

text \<open>Memory management keeps the process of every hart and everything beyond the memory.\<close>

definition kquiet :: "('a) kmem_scheme \<Rightarrow> ('a) kmem_scheme \<Rightarrow> bool" where
  "kquiet s t \<longleftrightarrow> tp t = tp s \<and> (\<forall>h. cpu_proc (cpus t h) = cpu_proc (cpus s h)) \<and> kmem.more t = kmem.more s"

interpretation kq: frame kquiet
  by unfold_locales (auto simp: kquiet_def)

named_theorems kquiet

lemma cpu_proc_acquire: "acquire l s = Done x t \<Longrightarrow> tp t = tp s \<and> (\<forall>h. cpu_proc (cpus t h) = cpu_proc (cpus s h))"
  by (drule acquire_Done) (auto simp: acq_def pushed_def mycpu_def)

lemma cpu_proc_release: "release l s = Done x t \<Longrightarrow> tp t = tp s \<and> (\<forall>h. cpu_proc (cpus t h) = cpu_proc (cpus s h))"
  by (auto simp: release_def pop_off_def machine_unfold split: if_splits)

lemma kmem_more_machine: "machine.more t = machine.more s \<Longrightarrow> kmem.more t = kmem.more s"
  by (cases s; cases t) simp

lemma kquiet_lock: "keeps kquiet (acquire l s) s" "keeps kquiet (release l s) s"
  unfolding keeps_def kquiet_def
  by (blast dest: cpu_proc_acquire acquire_more intro: kmem_more_machine) (blast dest: cpu_proc_release release_more intro: kmem_more_machine)

lemma kquiet_upd [simp]: "kquiet (s\<lparr>mem := m\<rparr>) t = kquiet s t" "kquiet s (t\<lparr>mem := m\<rparr>) = kquiet s t"
  "kquiet (s\<lparr>freelist := f\<rparr>) t = kquiet s t" "kquiet s (t\<lparr>freelist := f\<rparr>) = kquiet s t"
  by (simp_all add: kquiet_def)

text \<open>
  Each operation is stated to keep the relation from any earlier state, so that the assignments before
  a call are absorbed in the premise.
\<close>

lemma kquiet_acquire: "kquiet s t \<Longrightarrow> keeps kquiet (acquire l t) s"
  and kquiet_release: "kquiet s t \<Longrightarrow> keeps kquiet (release l t) s"
  by (erule kq.keeps_from, rule kquiet_lock)+

lemmas kq_intros [kquiet] = kq.keeps_Done kq.keeps_Panic kq.keeps_obind kq.keeps_if kquiet_acquire kquiet_release

lemma kquiet_kalloc [kquiet]: "kquiet s t \<Longrightarrow> keeps kquiet (kalloc t) s"
  by (erule kq.keeps_from) (unfold kalloc_def Let_def, intro kquiet, simp_all add: kq.refl)

lemma kquiet_kfree [kquiet]: "kquiet s t \<Longrightarrow> keeps kquiet (kfree pa t) s"
  by (erule kq.keeps_from) (unfold kfree_def Let_def, intro kquiet, simp_all add: kq.refl)

lemma kquiet_walk_levels [kquiet]: "kquiet s t \<Longrightarrow> keeps kquiet (walk_levels l pt va alloc t) s"
proof (induction l arbitrary: pt s t)
  case (Suc l)
  show ?case
    by (rule kq.keeps_from [OF Suc.prems]) (unfold walk_levels.simps Let_def, intro kquiet Suc.IH, simp_all add: kq.refl)
qed (simp add: kq.keeps_Done)

lemma kquiet_walk [kquiet]: "kquiet s t \<Longrightarrow> keeps kquiet (walk pt va alloc t) s"
  by (erule kq.keeps_from) (unfold walk_def, intro kquiet, simp_all add: kq.refl)

lemma kquiet_walkaddr [kquiet]: "kquiet s t \<Longrightarrow> keeps kquiet (walkaddr pt va t) s"
  by (erule kq.keeps_from) (unfold walkaddr_def, intro kquiet, simp_all add: kq.refl)

lemma kquiet_mappages_loop: "keeps kquiet (mappages_loop pt a l pa perm s) s"
proof (induction pt a l pa perm s rule: mappages_loop.induct)
  case (1 pt a l pa perm s)
  have "keeps kquiet (mappages_loop pt (a + PGSIZE) l (pa + PGSIZE) perm (t\<lparr>mem := m\<rparr>)) t"
    if "walk pt a True s = Done pte t" "pte \<noteq> 0" "\<not> load64 (mem t) pte AND PTE_V \<noteq> 0" "a \<noteq> l"
      "m = store64 (mem t) pte (PA2PTE pa OR perm OR PTE_V)" for pte t m
    by (rule kq.keeps_from [OF _ 1 [OF that(1-3) _ that(4)]]) (simp_all add: that(5) kq.refl)
  then show ?case
    by (subst mappages_loop.simps, unfold Let_def, intro kquiet) (simp_all add: kq.refl)
qed

lemma kquiet_mappages [kquiet]: "kquiet s t \<Longrightarrow> keeps kquiet (mappages pt va len pa perm t) s"
  by (erule kq.keeps_from) (unfold mappages_def, intro kquiet kquiet_mappages_loop)

lemma kquiet_uvmunmap_loop: "keeps kquiet (uvmunmap_loop pt a b f s) s"
proof (induction pt a b f s rule: uvmunmap_loop.induct)
  case (1 pt a b f s)
  have "keeps kquiet (uvmunmap_loop pt (a + PGSIZE) b f (u\<lparr>mem := m\<rparr>)) u"
    if "a < b" "walk pt a False s = Done pte t" "pte \<noteq> 0" "load64 (mem t) pte AND PTE_V \<noteq> 0" "PTE_FLAGS (load64 (mem t) pte) \<noteq> PTE_V"
      "(if f then kfree (PTE2PA (load64 (mem t) pte)) t else Done () t) = Done x u" "m = store64 (mem u) pte 0" for pte t u x m
    by (rule kq.keeps_from [OF _ 1 [OF that(1-6)]]) (simp_all add: that(7) kq.refl)
  then show ?case
    by (subst uvmunmap_loop.simps, unfold Let_def, intro kquiet) (simp_all add: kq.refl)
qed

lemma kquiet_uvmunmap [kquiet]: "kquiet s t \<Longrightarrow> keeps kquiet (uvmunmap pt va n f t) s"
  by (erule kq.keeps_from) (unfold uvmunmap_def, intro kquiet kquiet_uvmunmap_loop)

lemma kquiet_uvmcreate [kquiet]: "kquiet s t \<Longrightarrow> keeps kquiet (uvmcreate t) s"
  by (erule kq.keeps_from) (unfold uvmcreate_def, intro kquiet, simp_all add: kq.refl)

lemma kquiet_freewalk [kquiet]: "kquiet s t \<Longrightarrow> keeps kquiet (freewalk d pt t) s"
proof (induction d arbitrary: pt s t)
  case (Suc d)
  show ?case
    by (rule kq.keeps_from [OF Suc.prems]) (unfold freewalk.simps Let_def, intro kquiet kq.keeps_ofor Suc.IH, simp_all add: kq.refl)
qed (simp add: kq.keeps_Panic)

lemma kquiet_uvmfree [kquiet]: "kquiet s t \<Longrightarrow> keeps kquiet (uvmfree pt sz t) s"
  by (erule kq.keeps_from) (unfold uvmfree_def, intro kquiet, simp_all add: kq.refl)

lemma kquiet_uvmcopy_loop: "keeps kquiet (uvmcopy_loop old new i sz s) s"
proof (induction old new i sz s rule: uvmcopy_loop.induct)
  case (1 old new i sz s)
  show ?case
    by (subst uvmcopy_loop.simps, unfold Let_def, intro kquiet 1) (simp_all add: kq.refl)
qed

lemma kquiet_uvmcopy [kquiet]: "kquiet s t \<Longrightarrow> keeps kquiet (uvmcopy old new sz t) s"
  by (erule kq.keeps_from) (unfold uvmcopy_def split_def, intro kquiet kquiet_uvmcopy_loop, simp_all add: kq.refl)

lemma kquiet_copyout: "keeps kquiet (copyout pt va src len s) s"
proof (induction pt va src len s rule: copyout.induct)
  case (1 pt va src len s)
  let ?n = "page_chunk va len"
  have "keeps kquiet (copyout pt (PGROUNDDOWN va + PGSIZE) (drop (unat ?n) src) (len - ?n) (t\<lparr>mem := m\<rparr>)) t"
    if "len > 0" "walkaddr pt (PGROUNDDOWN va) s = Done pa t" "pa \<noteq> 0" "m = store_bytes (mem t) (pa + (va - PGROUNDDOWN va)) (take (unat ?n) src)" for pa t m
    by (rule kq.keeps_from [OF _ 1 [OF that(1) _ that(2,3)]]) (simp_all add: that(4) kq.refl)
  then show ?case
    by (subst copyout.simps, unfold Let_def, intro kquiet) (simp_all add: kq.refl)
qed

section \<open>Operations that neither start nor stop a process\<close>

definition stays :: "('a) pstate_scheme \<Rightarrow> ('a) pstate_scheme \<Rightarrow> bool" where
  "stays s t \<longleftrightarrow> tp t = tp s \<and> (\<forall>h. cpu_proc (cpus t h) = cpu_proc (cpus s h)) \<and>
     (\<forall>p. p_state (procs t p) = RUNNING \<longleftrightarrow> p_state (procs s p) = RUNNING)"

interpretation st: frame stays
  by unfold_locales (auto simp: stays_def)

named_theorems stays

lemma kquiet_stays: "kquiet s t \<Longrightarrow> stays s t"
  by (cases s; cases t) (simp add: kquiet_def stays_def)

lemma stays_of_kquiet: "(\<And>s. keeps kquiet (f s) s) \<Longrightarrow> stays s t \<Longrightarrow> keeps stays (f t) s"
  by (erule st.keeps_from) (auto simp: keeps_def intro: kquiet_stays)

lemmas st_intros [stays] = st.keeps_Done st.keeps_Panic st.keeps_obind st.keeps_if
  stays_of_kquiet [OF kquiet_lock(1)] stays_of_kquiet [OF kquiet_lock(2)] stays_of_kquiet [OF kquiet_kalloc [OF kq.refl]]
  stays_of_kquiet [OF kquiet_kfree [OF kq.refl]] stays_of_kquiet [OF kquiet_mappages [OF kq.refl]]
  stays_of_kquiet [OF kquiet_uvmunmap [OF kq.refl]] stays_of_kquiet [OF kquiet_uvmcreate [OF kq.refl]]
  stays_of_kquiet [OF kquiet_uvmfree [OF kq.refl]] stays_of_kquiet [OF kquiet_uvmcopy [OF kq.refl]] stays_of_kquiet [OF kquiet_copyout]

lemma stays_upd_proc:
  "(p_state (f (procs t p)) = RUNNING \<longleftrightarrow> p_state (procs t p) = RUNNING) \<Longrightarrow> stays s t \<Longrightarrow> stays s (upd_proc p f t)"
  by (auto simp: stays_def)

lemma stays_more:
  "stays s t \<Longrightarrow> stays s (t\<lparr>mem := m\<rparr>)" "stays s t \<Longrightarrow> stays s (t\<lparr>nextpid := n\<rparr>)" "stays s t \<Longrightarrow> stays s (t\<lparr>initproc := i\<rparr>)"
  by (simp_all add: stays_def)

lemma stays_myproc [stays]: "stays s t \<Longrightarrow> keeps stays (myproc t) s"
proof (erule st.keeps_from, unfold keeps_def, intro allI impI)
  fix x and t u :: "'a pstate_scheme"
  assume "myproc t = Done x u"
  then show "stays t u"
    by (auto simp: myproc_def push_off_eq pop_off_def pushed_def stays_def machine_unfold split: if_splits)
qed

lemma stays_deref [stays]: "(\<And>q. p = Some q \<Longrightarrow> keeps stays (f q s) t) \<Longrightarrow> keeps stays (deref p f s) t"
  by (cases p) (simp_all add: st.keeps_Panic)

lemma stays_allocpid [stays]: "stays s t \<Longrightarrow> keeps stays (allocpid t) s"
  by (erule st.keeps_from) (unfold allocpid_def Let_def, intro stays stays_more, simp_all add: st.refl)

lemma stays_proc_pagetable [stays]: "stays s t \<Longrightarrow> keeps stays (proc_pagetable p t) s"
  by (erule st.keeps_from) (unfold proc_pagetable_def, intro stays, simp_all add: st.refl)

lemma stays_proc_freepagetable [stays]: "stays s t \<Longrightarrow> keeps stays (proc_freepagetable pt sz t) s"
  by (erule st.keeps_from) (unfold proc_freepagetable_def, intro stays, simp_all add: st.refl)

text \<open>The same for an operation that is given a process which is not running.\<close>

definition stays_idle :: "nat \<Rightarrow> ('a) pstate_scheme \<Rightarrow> ('a) pstate_scheme \<Rightarrow> bool" where
  "stays_idle p s t \<longleftrightarrow> (p_state (procs s p) \<noteq> RUNNING \<longrightarrow> stays s t)"

interpretation si: frame "stays_idle p" for p
  by unfold_locales (auto simp: stays_idle_def stays_def)

named_theorems idle

lemma idle_of_stays: "(\<And>s. keeps stays (f s) s) \<Longrightarrow> stays_idle p s t \<Longrightarrow> keeps (stays_idle p) (f t) s"
  by (erule si.keeps_from) (auto simp: keeps_def stays_idle_def)

lemma idle_upd_proc: "p_state (f (procs t p)) \<noteq> RUNNING \<or> p_state (f (procs t p)) = p_state (procs t p) \<Longrightarrow>
    stays_idle p s t \<Longrightarrow> stays_idle p s (upd_proc p f t)"
  by (auto simp: stays_idle_def stays_def)

lemma idle_more: "stays_idle p s t \<Longrightarrow> stays_idle p s (t\<lparr>mem := m\<rparr>)"
  by (simp add: stays_idle_def stays_def)

lemmas si_intros [idle] = si.keeps_Done si.keeps_Panic si.keeps_obind si.keeps_if
  idle_of_stays [OF stays_of_kquiet [OF kquiet_lock(1) st.refl]] idle_of_stays [OF stays_of_kquiet [OF kquiet_lock(2) st.refl]]
  idle_of_stays [OF stays_of_kquiet [OF kquiet_kalloc [OF kq.refl] st.refl]] idle_of_stays [OF stays_of_kquiet [OF kquiet_kfree [OF kq.refl] st.refl]]
  idle_of_stays [OF stays_of_kquiet [OF kquiet_uvmcopy [OF kq.refl] st.refl]]
  idle_of_stays [OF stays_proc_pagetable [OF st.refl]] idle_of_stays [OF stays_proc_freepagetable [OF st.refl]]
  idle_of_stays [OF stays_allocpid [OF st.refl]]

lemma idle_freeproc [idle]: "stays_idle p s t \<Longrightarrow> keeps (stays_idle p) (freeproc p t) s"
  by (erule si.keeps_from) (unfold freeproc_def Let_def, intro idle idle_upd_proc, simp_all add: si.refl)

lemma stays_wakeup_slot: "keeps stays (wakeup_slot ch p s) s"
  unfolding wakeup_slot_def Let_def
  by (intro stays st.refl) (auto intro: stays_upd_proc st.refl)

lemma stays_wakeup [stays]: "stays s t \<Longrightarrow> keeps stays (wakeup ch t) s"
  by (erule st.keeps_from) (unfold wakeup_def, intro st.keeps_ofor stays_wakeup_slot st.refl)

lemma stays_kill_loop: "keeps stays (kill_loop ps pid s) s"
proof (induction ps arbitrary: s)
  case (Cons p ps)
  show ?case unfolding kill_loop.simps Let_def
    by (intro stays Cons st.refl) (auto intro!: stays_upd_proc st.refl)
qed (simp add: st.keeps_Done st.refl)

lemma stays_reparent: "keeps stays (reparent p s) s"
  unfolding reparent_def Let_def
  by (intro st.keeps_ofor stays st.refl) (simp add: stays_upd_proc st.refl)

lemma stays_scheduler_idle: "keeps stays (scheduler_slot p s) s"
  unfolding scheduler_slot_def Let_def swtch_def
  by (intro stays st.refl) (simp_all add: keeps_def)

lemma stays_allocproc_find: "keeps stays (allocproc_find ps s) s"
proof (induction ps arbitrary: s)
  case (Cons p ps)
  show ?case unfolding allocproc_find.simps by (intro stays Cons st.refl)
qed (simp add: st.keeps_Done st.refl)

lemma allocproc_find_unused: "allocproc_find ps s = Done (Some p) t \<Longrightarrow> p \<in> set ps \<and> p_state (procs t p) = UNUSED"
  by (induction ps arbitrary: s) (auto simp: obind_Done_iff split: if_splits)

text \<open>\<open>allocproc\<close> from \<open>found\<close> on.\<close>

definition allocproc_found :: "nat \<Rightarrow> ('a) pstate_scheme \<Rightarrow> (nat option, ('a) pstate_scheme) outcome" where
  "allocproc_found p s =
     obind (allocpid s) (\<lambda>pid s.
     let s = upd_proc p (\<lambda>q. q\<lparr>p_pid := pid, p_state := USED\<rparr>) s
     in obind (kalloc s) (\<lambda>pa s.
     let s = upd_proc p (\<lambda>q. q\<lparr>p_trapframe := pa\<rparr>) s
     in if pa = 0
        then obind (freeproc p s) (\<lambda>_ s. obind (release (ProcLock p) s) (\<lambda>_ s. Done None s))
        else obind (proc_pagetable p s) (\<lambda>pagetable s.
          let s = upd_proc p (\<lambda>q. q\<lparr>p_pagetable := pagetable\<rparr>) s
          in if pagetable = 0
             then obind (freeproc p s) (\<lambda>_ s. obind (release (ProcLock p) s) (\<lambda>_ s. Done None s))
             else let s = upd_proc p (\<lambda>q. q\<lparr>p_context := ctx0\<lparr>ctx_ra := forkret_addr s,
                              ctx_sp := p_kstack q + PGSIZE\<rparr>\<rparr>) s
                  in Done (Some p) s)))"

lemma allocproc_eq: "allocproc s = obind (allocproc_find [0..<NPROC] s) (\<lambda>r s. case r of None \<Rightarrow> Done None s | Some p \<Rightarrow> allocproc_found p s)"
  by (simp add: allocproc_def allocproc_found_def cong: option.case_cong)

lemma idle_allocproc_found: "keeps (stays_idle p) (allocproc_found p s) s"
  unfolding allocproc_found_def Let_def by (intro idle idle_upd_proc) (simp_all add: si.refl)

lemma allocproc_found_same: "allocproc_found p s = Done (Some q) t \<Longrightarrow> q = p"
  by (auto simp: allocproc_found_def obind_Done_iff Let_def split: if_splits)

lemma stays_allocproc_found:
  assumes "allocproc_find [0..<NPROC] s = Done (Some p) t" and "allocproc_found p t = Done x u"
  shows "stays t u" and "p_state (procs u p) \<noteq> RUNNING"
proof -
  have p: "p_state (procs t p) \<noteq> RUNNING" using allocproc_find_unused [OF assms(1)] by simp
  from keepsD [OF idle_allocproc_found assms(2)] p show "stays t u" by (simp add: stays_idle_def)
  with p show "p_state (procs u p) \<noteq> RUNNING" by (simp add: stays_def)
qed

lemma stays_allocproc [stays]: "stays r s \<Longrightarrow> keeps stays (allocproc s) r"
proof (erule st.keeps_from, unfold allocproc_eq, rule st.keeps_obind [OF stays_allocproc_find])
  fix x t
  assume "allocproc_find [0..<NPROC] s = Done x t"
  then show "keeps stays (case x of None \<Rightarrow> Done None t | Some p \<Rightarrow> allocproc_found p t) t"
    by (cases x) (auto simp: keeps_def st.refl dest: stays_allocproc_found)
qed

lemma allocproc_idle:
  assumes "allocproc s = Done (Some p) t"
  shows "p < NPROC" and "p_state (procs t p) \<noteq> RUNNING"
proof -
  from assms obtain u where u: "allocproc_find [0..<NPROC] s = Done (Some p) u" "allocproc_found p u = Done (Some p) t"
    by (auto simp: allocproc_eq obind_Done_iff split: option.splits dest: allocproc_found_same)
  from allocproc_find_unused [OF u(1)] show "p < NPROC" by simp
  from stays_allocproc_found [OF u] show "p_state (procs t p) \<noteq> RUNNING" by simp
qed

lemma stays_alloc_then:
  assumes "\<And>t. keeps stays (f None t) t" and "\<And>p t. keeps (stays_idle p) (f (Some p) t) t"
  shows "keeps stays (obind (allocproc s) f) s"
proof (rule st.keeps_obind [OF stays_allocproc [OF st.refl]])
  fix x t
  assume "allocproc s = Done x t"
  with assms allocproc_idle [of s _ t] show "keeps stays (f x t) t" by (cases x) (auto simp: keeps_def stays_idle_def)
qed

lemma idle_option: "(x = None \<Longrightarrow> keeps (stays_idle p) m s) \<Longrightarrow> (\<And>y. x = Some y \<Longrightarrow> keeps (stays_idle p) (f y) s) \<Longrightarrow>
    keeps (stays_idle p) (case x of None \<Rightarrow> m | Some y \<Rightarrow> f y) s"
  by (cases x) simp_all

lemma idle_deref: "(\<And>q. x = Some q \<Longrightarrow> keeps (stays_idle p) (f q s) t) \<Longrightarrow> keeps (stays_idle p) (deref x f s) t"
  by (cases x) (simp_all add: si.keeps_Panic)

lemma stays_filedup: "keeps stays (filedup f s) s"
  unfolding filedup_def Let_def by (intro stays) (simp_all add: stays_def upd_file_def)

lemma stays_idup: "keeps stays (idup i s) s"
  unfolding idup_def Let_def by (intro stays) (simp_all add: stays_def upd_inode_def)

lemma stays_fork: "keeps stays (fork s) s"
  unfolding fork_def Let_def
proof (rule st.keeps_obind [OF stays_myproc [OF st.refl]], rule stays_alloc_then, goal_cases)
  case (2 me t np u)
  show ?case
    unfolding option.case
    by (intro idle idle_option idle_deref si.keeps_ofor idle_of_stays [OF stays_filedup] idle_of_stays [OF stays_idup] idle_upd_proc idle_more)
      (simp_all add: si.refl)
qed (simp add: st.keeps_Done st.refl)

text \<open>A scan of \<open>wait\<close> frees only zombies.\<close>

lemma stays_if_zombie:
  "keeps (stays_idle p) m s \<Longrightarrow> keeps stays n s \<Longrightarrow> keeps stays (if p_state (procs s p) = ZOMBIE then m else n) s"
  by (auto simp: keeps_def stays_idle_def)

lemma stays_wait_scan: "keeps stays (wait_scan p addr nps k s) s"
proof (induction nps arbitrary: k s)
  case (Cons np nps)
  have "keeps stays (wait_scan p addr (np # nps) k s) s" if "p_parent (procs s np) = p"
    unfolding wait_scan.simps Let_def if_P [OF that]
  proof (intro st.keeps_obind [OF stays_of_kquiet [OF kquiet_lock(1) st.refl]] stays_if_zombie, goal_cases)
    case 1
    show ?case
      by (intro idle idle_deref idle_of_stays [OF stays_of_kquiet [OF kquiet_copyout st.refl]]) (simp_all add: si.refl)
  qed (intro stays Cons.IH st.refl)
  then show ?case using Cons.IH by simp
qed (simp add: st.keeps_Done st.refl)

lemma stays_wait: "keeps stays (wait addr s) s"
proof -
  have "keeps stays (wait_loop p addr t) t" for p and t :: "'a pstate_scheme"
    by (subst wait_loop.simps, intro st.keeps_obind [OF stays_wait_scan])
      (auto simp: keeps_def st.refl obind_Done_iff deref_def split: sum.splits option.splits dest: keepsD [OF kquiet_lock(2), THEN kquiet_stays])
  then show ?thesis unfolding wait_def by (intro stays st.refl)
qed

end
