(* ===== verification/Sched.thy ===== *)
theory Sched
  imports Proc_Frame
begin

unbundle bit_operations_syntax

text \<open>
  The scheduler (\<open>kernel/proc.c\<close>) seen from all harts. A thread gives up its hart in \<open>sched\<close>, the scheduler
  of that hart goes on behind its \<open>swtch\<close>, and later another hart's scheduler may switch to the thread.
  A step of the system is a piece of code of one hart between two points where it holds no
  process lock; any two harts can interleave their steps.
\<close>

section \<open>Giving up and getting a hart\<close>

lemma obind_Switch_iff: "obind m f = Switch t \<longleftrightarrow> m = Switch t \<or> (\<exists>x u. m = Done x u \<and> f x u = Switch t)"
  by (cases m) simp_all

lemma no_Switch [simp]: "acquire l s \<noteq> Switch t" "release l s \<noteq> Switch t" "myproc s \<noteq> Switch t"
  by (simp_all add: acquire_def release_def myproc_def push_off_eq pop_off_def Let_def)

text \<open>Process \<open>p\<close> has stopped running, its hart has not noticed yet.\<close>

definition parks :: "nat \<Rightarrow> ('a) pstate_scheme \<Rightarrow> ('a) pstate_scheme \<Rightarrow> bool" where
  "parks p s t \<longleftrightarrow> tp t = tp s \<and> (\<forall>h. cpu_proc (cpus t h) = cpu_proc (cpus s h)) \<and>
     (\<forall>q. p_state (procs t q) = RUNNING \<longleftrightarrow> p_state (procs s q) = RUNNING \<and> q \<noteq> p)"

lemma parksI: "stays s t \<Longrightarrow> p_state (f (procs t p)) \<noteq> RUNNING \<Longrightarrow> stays (upd_proc p f t) u \<Longrightarrow> parks p s u"
  by (auto simp: parks_def stays_def)

lemma stays_lock:
  "acquire l s = Done x t \<Longrightarrow> stays s t" "release l s = Done x t \<Longrightarrow> stays s t" "myproc s = Done y t \<Longrightarrow> stays s t"
  using keepsD [OF kquiet_lock(1), THEN kquiet_stays] keepsD [OF kquiet_lock(2), THEN kquiet_stays] keepsD [OF stays_myproc [OF st.refl]] by blast+

lemma myproc_result: "myproc s = Done p t \<Longrightarrow> p = cpu_proc (mycpu s)"
  by (auto simp: myproc_def push_off_eq obind_Done_iff Let_def pushed_def mycpu_def)

lemma sched_Switch: "sched s = Switch t \<Longrightarrow> stays s t"
  by (auto simp: sched_def swtch_def obind_Switch_iff deref_def Let_def split: option.splits if_splits dest: stays_lock)

lemma yield_parks:
  assumes "yield s = Switch t" and "cpu_proc (mycpu s) = Some p"
  shows "parks p s t"
proof -
  from assms obtain u v where u: "myproc s = Done (Some p) u" "acquire (ProcLock p) u = Done () v"
    "sched (upd_proc p (\<lambda>q. q\<lparr>p_state := RUNNABLE\<rparr>) v) = Switch t"
    by (auto simp: yield_def obind_Switch_iff deref_def Let_def yield_resumed_def split: option.splits dest!: myproc_result)
  from st.trans [OF stays_lock(3) [OF u(1)] stays_lock(1) [OF u(2)]] sched_Switch [OF u(3)] show ?thesis
    by (intro parksI [of s v "\<lambda>q. q\<lparr>p_state := RUNNABLE\<rparr>"]) simp_all
qed

lemma exit_zombie_parks:
  assumes "exit_zombie p status s = Switch t"
  shows "parks p s t"
proof -
  let ?f = "\<lambda>q. q\<lparr>p_xstate := status, p_state := ZOMBIE\<rparr>"
  from assms obtain u v where u: "acquire (ProcLock p) s = Done () u" "release WaitLock (upd_proc p ?f u) = Done () v" "sched v = Switch t"
    by (auto simp: exit_zombie_def obind_Switch_iff Let_def)
  from stays_lock(1) [OF u(1)] st.trans [OF stays_lock(2) [OF u(2)] sched_Switch [OF u(3)]] show ?thesis
    by (intro parksI [of s u ?f]) simp_all
qed

lemma sleep_parks:
  assumes "sleep ch lk s = Switch t" and "cpu_proc (mycpu s) = Some p"
  shows "parks p s t"
proof -
  let ?f = "\<lambda>q. q\<lparr>p_chan := Some ch, p_state := SLEEPING\<rparr>"
  from assms obtain u v w where u: "myproc s = Done (Some p) u" "acquire (ProcLock p) u = Done () v" "release lk v = Done () w"
    "sched (upd_proc p ?f w) = Switch t"
    by (auto simp: sleep_def obind_Switch_iff deref_def Let_def sleep_resumed_def split: option.splits dest!: myproc_result)
  have "stays s w" using st.trans [OF stays_lock(3) [OF u(1)] st.trans [OF stays_lock(1) [OF u(2)] stays_lock(2) [OF u(3)]]] .
  with sched_Switch [OF u(4)] show ?thesis
    by (intro parksI [of s w ?f]) simp_all
qed

section \<open>The processes that run\<close>

text \<open>
  \<open>run\<close>: the scheduler of an idle hart switches to a process, which goes on behind its \<open>swtch\<close>, in \<open>yield\<close>, in
  \<open>sleep\<close>, or, the first time, in \<open>forkret\<close>, and releases its lock there; \<open>idle\<close>: the scheduler finds an entry that
  is not runnable. \<open>yields\<close>, \<open>sleeps\<close>, \<open>exits\<close>: a process gives up its hart, and the scheduler of the hart goes
  on. The other steps are the operations of \<open>proc.c\<close> that change the state of processes, and any
  other code, which does not.
\<close>

inductive sched_step :: "('a) ftable_scheme \<Rightarrow> ('a) ftable_scheme \<Rightarrow> bool" where
  idle: "cpu_proc (cpus s h) = None \<Longrightarrow> p < NPROC \<Longrightarrow> scheduler_slot p (s\<lparr>tp := h\<rparr>) = Done () t \<Longrightarrow> sched_step s t"
| run_yield: "cpu_proc (cpus s h) = None \<Longrightarrow> p < NPROC \<Longrightarrow> scheduler_slot p (s\<lparr>tp := h\<rparr>) = Switch t \<Longrightarrow>
    sched_resumed en t = Done () u \<Longrightarrow> yield_resumed p u = Done () v \<Longrightarrow> sched_step s v"
| run_sleep: "cpu_proc (cpus s h) = None \<Longrightarrow> p < NPROC \<Longrightarrow> scheduler_slot p (s\<lparr>tp := h\<rparr>) = Switch t \<Longrightarrow>
    sched_resumed en t = Done () u \<Longrightarrow> sleep_resumed p lk u = Done () v \<Longrightarrow> sched_step s v"
| run_forkret: "cpu_proc (cpus s h) = None \<Longrightarrow> p < NPROC \<Longrightarrow> scheduler_slot p (s\<lparr>tp := h\<rparr>) = Switch t \<Longrightarrow>
    release (ProcLock p) t = Done () u \<Longrightarrow> sched_step s u"
| yields: "cpu_proc (cpus s h) = Some p \<Longrightarrow> yield (s\<lparr>tp := h\<rparr>) = Switch t \<Longrightarrow> scheduler_resumed p t = Done () u \<Longrightarrow> sched_step s u"
| sleeps: "cpu_proc (cpus s h) = Some p \<Longrightarrow> sleep ch lk (s\<lparr>tp := h\<rparr>) = Switch t \<Longrightarrow> scheduler_resumed p t = Done () u \<Longrightarrow> sched_step s u"
| exits: "cpu_proc (cpus s h) = Some p \<Longrightarrow> exit_zombie p status (s\<lparr>tp := h\<rparr>) = Switch t \<Longrightarrow> scheduler_resumed p t = Done () u \<Longrightarrow> sched_step s u"
| wakes: "wakeup ch (s\<lparr>tp := h\<rparr>) = Done () t \<Longrightarrow> sched_step s t"
| kills: "kill pid (s\<lparr>tp := h\<rparr>) = Done r t \<Longrightarrow> sched_step s t"
| forks: "fork (s\<lparr>tp := h\<rparr>) = Done r t \<Longrightarrow> sched_step s t"
| waits: "wait addr (s\<lparr>tp := h\<rparr>) = Done r t \<Longrightarrow> sched_step s t"
| reparents: "reparent p (s\<lparr>tp := h\<rparr>) = Done () t \<Longrightarrow> sched_step s t"
| other: "(\<forall>p. p_state (procs t p) = p_state (procs s p)) \<Longrightarrow> (\<forall>h. cpu_proc (cpus t h) = cpu_proc (cpus s h)) \<Longrightarrow> sched_step s t"

text \<open>A process is \<open>RUNNING\<close> when, and only when, exactly one hart runs it.\<close>

definition one_hart :: "('a) pstate_scheme \<Rightarrow> bool" where
  "one_hart s \<longleftrightarrow> (\<forall>p. p_state (procs s p) = RUNNING \<longleftrightarrow> (\<exists>h. cpu_proc (cpus s h) = Some p)) \<and>
     (\<forall>p h k. cpu_proc (cpus s h) = Some p \<and> cpu_proc (cpus s k) = Some p \<longrightarrow> h = k)"

definition runs_on :: "(nat \<Rightarrow> bool) \<Rightarrow> (nat \<Rightarrow> nat option) \<Rightarrow> bool" where
  "runs_on R c \<longleftrightarrow> (\<forall>p. R p \<longleftrightarrow> (\<exists>h. c h = Some p)) \<and> (\<forall>p h k. c h = Some p \<and> c k = Some p \<longrightarrow> h = k)"

lemma one_hart_runs_on: "one_hart s = runs_on (\<lambda>p. p_state (procs s p) = RUNNING) (\<lambda>h. cpu_proc (cpus s h))"
  by (simp add: one_hart_def runs_on_def)

lemma runs_on_remove: "runs_on R c \<Longrightarrow> c h = Some p \<Longrightarrow> runs_on (\<lambda>q. R q \<and> q \<noteq> p) (\<lambda>k. if k = h then None else c k)"
  unfolding runs_on_def by (simp split: if_splits) (metis option.inject)

lemma runs_on_add: "runs_on R c \<Longrightarrow> c h = None \<Longrightarrow> \<not> R p \<Longrightarrow> runs_on (\<lambda>q. R q \<or> q = p) (\<lambda>k. if k = h then Some p else c k)"
  unfolding runs_on_def by (metis option.distinct(1) option.inject)

lemma one_hart_stays: "one_hart s \<Longrightarrow> stays (s\<lparr>tp := h\<rparr>) t \<Longrightarrow> one_hart t"
  by (simp add: one_hart_def stays_def)

lemma one_hart_parks:
  assumes "one_hart s" and "cpu_proc (cpus s h) = Some p" and "parks p (s\<lparr>tp := h\<rparr>) t" and "scheduler_resumed p t = Done () u"
  shows "one_hart u"
proof -
  let ?v = "set_mycpu ((mycpu t)\<lparr>cpu_proc := None\<rparr>) t"
  have u: "stays ?v u" using assms(4) by (auto simp: scheduler_resumed_def Let_def dest: stays_lock)
  have c: "cpu_proc (cpus ?v k) = (if k = h then None else cpu_proc (cpus s k))" for k
    using assms(3) by (simp add: set_mycpu_def parks_def)
  have p: "p_state (procs ?v q) = RUNNING \<longleftrightarrow> p_state (procs s q) = RUNNING \<and> q \<noteq> p" for q
    using assms(3) by (simp add: set_mycpu_def parks_def)
  have "one_hart ?v" unfolding one_hart_runs_on c p using assms(1,2) by (intro runs_on_remove) (simp_all add: one_hart_runs_on)
  with u show ?thesis by (simp add: one_hart_def stays_def)
qed

lemma one_hart_runs:
  assumes "one_hart s" and "cpu_proc (cpus s h) = None" and "scheduler_slot p (s\<lparr>tp := h\<rparr>) = Switch t"
  shows "one_hart t" and "p_state (procs t p) = RUNNING"
proof -
  from assms(3) obtain u where u: "acquire (ProcLock p) (s\<lparr>tp := h\<rparr>) = Done () u" "p_state (procs u p) = RUNNABLE"
    "t = set_mycpu ((mycpu u)\<lparr>cpu_proc := Some p\<rparr>) (upd_proc p (\<lambda>q. q\<lparr>p_state := RUNNING\<rparr>) u)"
    by (auto simp: scheduler_slot_def obind_Switch_iff swtch_def Let_def split: if_splits)
  from stays_lock(1) [OF u(1)] have st: "stays (s\<lparr>tp := h\<rparr>) u" .
  have c: "cpu_proc (cpus t k) = (if k = h then Some p else cpu_proc (cpus s k))" for k
    using st by (simp add: u(3) set_mycpu_def stays_def)
  have p: "p_state (procs t q) = RUNNING \<longleftrightarrow> p_state (procs s q) = RUNNING \<or> q = p" for q
    using st by (simp add: u(3) set_mycpu_def stays_def)
  have "p_state (procs s p) \<noteq> RUNNING" using st u(2) by (simp add: stays_def) (metis procstate.distinct(25))
  then show "one_hart t" unfolding one_hart_runs_on c p using assms(1,2) by (intro runs_on_add) (simp_all add: one_hart_runs_on)
  show "p_state (procs t p) = RUNNING" by (simp add: p)
qed

lemma stays_resumed:
  "sched_resumed en s = Done () t \<Longrightarrow> stays s t" "yield_resumed p s = Done () t \<Longrightarrow> stays s t" "sleep_resumed p lk s = Done () t \<Longrightarrow> stays s t"
proof -
  show "sched_resumed en s = Done () t \<Longrightarrow> stays s t" by (auto simp: sched_resumed_def set_mycpu_def stays_def mycpu_def)
  show "yield_resumed p s = Done () t \<Longrightarrow> stays s t" by (simp add: yield_resumed_def stays_lock)
  have "keeps stays (sleep_resumed p lk s) s" unfolding sleep_resumed_def Let_def by (intro stays) (simp_all add: stays_def)
  then show "sleep_resumed p lk s = Done () t \<Longrightarrow> stays s t" by (rule keepsD)
qed

lemma one_hart_stays0: "one_hart s \<Longrightarrow> stays s t \<Longrightarrow> one_hart t"
  by (simp add: one_hart_def stays_def)

lemma one_hart_step:
  assumes "sched_step s t" and "one_hart s"
  shows "one_hart t"
  using assms
proof (induction rule: sched_step.induct)
  case (idle s h p t)
  with keepsD [OF stays_scheduler_idle] one_hart_stays show ?case by blast
next
  case (run_yield s h p t en u v)
  with one_hart_runs [of s h p t] st.trans [OF stays_resumed(1) stays_resumed(2)] one_hart_stays0 show ?case by blast
next
  case (run_sleep s h p t en u lk v)
  with one_hart_runs [of s h p t] st.trans [OF stays_resumed(1) stays_resumed(3)] one_hart_stays0 show ?case by blast
next
  case (run_forkret s h p t u)
  with one_hart_runs [of s h p t] stays_lock(2) one_hart_stays0 show ?case by blast
next
  case (yields s h p t u)
  have "parks p (s\<lparr>tp := h\<rparr>) t" by (rule yield_parks [OF yields.hyps(2)]) (simp add: mycpu_def yields.hyps(1))
  with yields show ?case using one_hart_parks by blast
next
  case (sleeps s h p ch lk t u)
  have "parks p (s\<lparr>tp := h\<rparr>) t" by (rule sleep_parks [OF sleeps.hyps(2)]) (simp add: mycpu_def sleeps.hyps(1))
  with sleeps show ?case using one_hart_parks by blast
next
  case (exits s h p status t u)
  with exit_zombie_parks one_hart_parks show ?case by blast
next
  case (kills pid s h r t)
  then show ?case unfolding kill_def by (blast intro: one_hart_stays dest: keepsD [OF stays_kill_loop])
next
  case (other t s)
  then show ?case by (simp add: one_hart_def)
qed (blast intro: one_hart_stays dest: keepsD [OF stays_wakeup [OF st.refl]] keepsD [OF stays_fork] keepsD [OF stays_wait] keepsD [OF stays_reparent])+

section \<open>Sleeping, waking up and running again\<close>

lemma acq_commute: "lk \<noteq> l \<Longrightarrow> acq l (acq lk s) = acq lk (acq l s)"
  by (cases "cpus s (tp s)") (simp add: acq_def pushed_def mycpu_def intr_get_def fun_upd_twist)

lemma release_nested: "hart_ok s \<Longrightarrow> lock_free lk s \<Longrightarrow> lk \<noteq> l \<Longrightarrow> release lk (acq l (acq lk s)) = Done () (acq l s)"
  by (simp add: acq_commute [of lk l] release_acq)

text \<open>A process that runs on a hart outside of all critical sections, and locks that are free.\<close>

lemma sleep_switch:
  assumes "hart_ok s" and "noff (mycpu s) = 0" and "cpu_proc (mycpu s) = Some p" and "lock_free lk s" and "lock_free (ProcLock p) s"
    and "lk \<noteq> ProcLock p"
  shows "sleep ch lk (acq lk s) = Switch (acq (ProcLock p) (upd_proc p (\<lambda>q. q\<lparr>p_chan := Some ch, p_state := SLEEPING\<rparr>) s))"
  using assms
  by (simp add: sleep_def myproc_eq acquire_free release_nested sched_def Let_def swtch_def)

lemma scheduler_resumed_eq:
  assumes "hart_ok s" and "lock_free (ProcLock p) s"
  shows "scheduler_resumed p (acq (ProcLock p) s) = Done () (settle (set_mycpu ((mycpu s)\<lparr>cpu_proc := None\<rparr>) s))"
proof -
  have "set_mycpu ((mycpu (acq (ProcLock p) s))\<lparr>cpu_proc := None\<rparr>) (acq (ProcLock p) s) = acq (ProcLock p) (set_mycpu ((mycpu s)\<lparr>cpu_proc := None\<rparr>) s)"
    by (cases "cpus s (tp s)") (simp add: set_mycpu_def acq_def pushed_def mycpu_def intr_get_def)
  then show ?thesis
    unfolding scheduler_resumed_def Let_def
    using assms by (simp add: release_acq set_mycpu_def hart_ok_def lock_free_def mycpu_def intr_get_def)
qed

text \<open>A hart that finds the lock of a process taken by another hart waits in \<open>wakeup\<close>.\<close>

lemma wakeup_spins:
  assumes "hart_ok s" and "p < NPROC" and "cpu_proc (mycpu s) \<noteq> Some p" and "lk_locked (lks s (ProcLock p)) \<noteq> 0"
    and "lk_cpu (lks s (ProcLock p)) \<noteq> Some (tp s)" and "\<And>q. q < p \<Longrightarrow> lock_free (ProcLock q) s"
  shows "wakeup ch s = Spins"
proof -
  let ?t = "if p = 0 then s else settle (s\<lparr>procs := woken ch (cpu_proc (mycpu s)) {..<p} (procs s)\<rparr>)"
  have "[0..<NPROC] = [0..<p] @ p # [Suc p..<NPROC]"
    using assms(2) upt_add_eq_append [of 0 p "NPROC - p"] upt_conv_Cons [of p NPROC] by simp
  moreover have "ofor [0..<p] (wakeup_slot ch) s = Done () ?t" using assms by (intro ofor_wakeup) simp_all
  moreover have "wakeup_slot ch p ?t = Spins"
    using assms by (auto simp: wakeup_slot_def myproc_eq acquire_contended)
  ultimately show ?thesis unfolding wakeup_def by (simp add: ofor_append)
qed

lemma tp_upd [simp]:
  "procs (s\<lparr>tp := h\<rparr>) = procs s" "lks (s\<lparr>tp := h\<rparr>) = lks s" "cpus (s\<lparr>tp := h\<rparr>) = cpus s" "sstatus (s\<lparr>tp := h\<rparr>) = sstatus s"
  by simp_all

lemma cpu_proc_cpus [simp]: "cpu_proc (cpus (settle s) k) = cpu_proc (cpus s k)" "cpu_proc (cpus (acq l s) k) = cpu_proc (cpus s k)"
  by (simp_all add: settle_def acq_def pushed_def mycpu_def)

lemma lock_free_tp [simp]: "lock_free l (s\<lparr>tp := h\<rparr>) = lock_free l s"
  by (simp add: lock_free_def)



lemma scheduler_slot_runs:
  assumes "lock_free (ProcLock p) s" and "p_state (procs s p) = RUNNABLE"
  shows "scheduler_slot p s = Switch (acq (ProcLock p) (set_mycpu ((mycpu s)\<lparr>cpu_proc := Some p\<rparr>) (upd_proc p (\<lambda>q. q\<lparr>p_state := RUNNING\<rparr>) s)))"
proof -
  have "set_mycpu ((mycpu (acq l t))\<lparr>cpu_proc := Some p\<rparr>) (acq l t) = acq l (set_mycpu ((mycpu t)\<lparr>cpu_proc := Some p\<rparr>) t)" for l and t :: "'a pstate_scheme"
    by (cases "cpus t (tp t)") (simp add: set_mycpu_def acq_def pushed_def mycpu_def intr_get_def)
  then show ?thesis using assms by (simp add: scheduler_slot_def acquire_free swtch_def Let_def)
qed

lemma release_resumed:
  assumes "lock_free l s" and "noff (mycpu s) = 0"
  obtains z where "release l (set_mycpu ((mycpu (acq l s))\<lparr>intena := en\<rparr>) (acq l s)) = Done () z" and "machine.more z = machine.more s"
    and "tp z = tp s" and "lks z = lks s" and "\<And>k. cpu_proc (cpus z k) = cpu_proc (cpus s k)" and "noff (mycpu z) = 0"
proof -
  have lk: "(lks s)(l := (lks s l)\<lparr>lk_cpu := None, lk_locked := 0\<rparr>) = lks s"
    using assms(1) by (cases "lks s l") (auto simp: lock_free_def fun_eq_iff)
  have "\<exists>z. release l (set_mycpu ((mycpu (acq l s))\<lparr>intena := en\<rparr>) (acq l s)) = Done () z \<and> machine.more z = machine.more s \<and>
    tp z = tp s \<and> lks z = lks s \<and> (\<forall>k. cpu_proc (cpus z k) = cpu_proc (cpus s k)) \<and> noff (mycpu z) = 0"
    using assms(2) lk by (simp add: release_def holding_def acq_def pushed_def pop_off_def machine_unfold sie_off)
  then show thesis using that by blast
qed

lemma procs_machine_more: "machine.more t = machine.more s \<Longrightarrow> procs t = procs s"
  by (cases s; cases t) simp

lemma resume_sleep:
  assumes "lock_free (ProcLock p) x" and "lock_free lk x" and "noff (mycpu x) = 0"
  obtains v w where "sched_resumed en (acq (ProcLock p) x) = Done () v" and "sleep_resumed p lk v = Done () w"
    and "procs w = (procs x)(p := (procs x p)\<lparr>p_chan := None\<rparr>)" and "tp w = tp x" and "\<And>k. cpu_proc (cpus w k) = cpu_proc (cpus x k)"
    and "holding lk w" and "noff (mycpu w) = 1"
proof -
  let ?y = "upd_proc p (\<lambda>q. q\<lparr>p_chan := None\<rparr>) x"
  let ?v = "set_mycpu ((mycpu (acq (ProcLock p) x))\<lparr>intena := en\<rparr>) (acq (ProcLock p) x)"
  have v: "upd_proc p (\<lambda>q. q\<lparr>p_chan := None\<rparr>) ?v = set_mycpu ((mycpu (acq (ProcLock p) ?y))\<lparr>intena := en\<rparr>) (acq (ProcLock p) ?y)"
    by (simp add: set_mycpu_def upd_proc_def mycpu_def acq_def pushed_def intr_get_def)
  have "lock_free (ProcLock p) ?y" "noff (mycpu ?y) = 0" using assms(1,3) by simp_all
  then obtain z where z: "release (ProcLock p) (set_mycpu ((mycpu (acq (ProcLock p) ?y))\<lparr>intena := en\<rparr>) (acq (ProcLock p) ?y)) = Done () z"
    "machine.more z = machine.more ?y" "tp z = tp ?y" "lks z = lks ?y" "\<And>k. cpu_proc (cpus z k) = cpu_proc (cpus ?y k)" "noff (mycpu z) = 0"
    by (rule release_resumed [where en = en]) blast
  have pr: "procs z = procs ?y" using z(2) by (rule procs_machine_more)
  have "lock_free lk z" using assms(2) by (simp add: lock_free_def z(4))
  with z(1) v have "sleep_resumed p lk ?v = Done () (acq lk z)" by (simp add: sleep_resumed_def acquire_free)
  moreover have "sched_resumed en (acq (ProcLock p) x) = Done () ?v" by (simp add: sched_resumed_def)
  ultimately show thesis using pr z(3,5,6) by (intro that [of ?v "acq lk z"]) simp_all
qed

text \<open>C10. A process that sleeps on a channel runs again: \<open>wakeup\<close> on the channel makes it runnable, and the scheduler of any idle
  hart that then reaches its table entry switches to it; \<open>sleep\<close> returns there, with the process running on
  that hart, no longer waiting for a channel, and holding its lock \<open>lk\<close> again.\<close>

theorem sleeper_resumes:
  assumes "hart_ok s" and "procs_free s" and "p < NPROC" and "cpu_proc (mycpu s) \<noteq> Some p"
    and "p_state (procs s p) = SLEEPING" and "p_chan (procs s p) = Some ch"
    and "\<forall>l. lock_free l s" and "lk \<noteq> ProcLock p" and "h \<noteq> tp s" and "cpu_proc (cpus s h) = None" and "noff (cpus s h) = 0"
  shows "\<exists>t u v w. wakeup (Some ch) s = Done () t \<and> scheduler_slot p (t\<lparr>tp := h\<rparr>) = Switch u \<and> sched_resumed en u = Done () v \<and>
    sleep_resumed p lk v = Done () w \<and> p_state (procs w p) = RUNNING \<and> p_chan (procs w p) = None \<and> cpu_proc (cpus w h) = Some p \<and>
    tp w = h \<and> holding lk w \<and> noff (mycpu w) = 1"
proof -
  let ?t = "settle (s\<lparr>procs := woken (Some ch) (cpu_proc (mycpu s)) {..<NPROC} (procs s)\<rparr>)"
  let ?x = "set_mycpu ((mycpu (?t\<lparr>tp := h\<rparr>))\<lparr>cpu_proc := Some p\<rparr>) (upd_proc p (\<lambda>q. q\<lparr>p_state := RUNNING\<rparr>) (?t\<lparr>tp := h\<rparr>))"
  have t: "wakeup (Some ch) s = Done () ?t" using assms(1,2) by (rule wakeup_wakes)
  have "lock_free (ProcLock p) (?t\<lparr>tp := h\<rparr>)" "p_state (procs (?t\<lparr>tp := h\<rparr>) p) = RUNNABLE" using assms by (simp_all add: woken_def)
  then have u: "scheduler_slot p (?t\<lparr>tp := h\<rparr>) = Switch (acq (ProcLock p) ?x)" by (rule scheduler_slot_runs)
  have x: "lock_free l ?x" "noff (mycpu ?x) = 0" "tp ?x = h" "cpu_proc (cpus ?x h) = Some p" "p_state (procs ?x p) = RUNNING" for l
    using assms(7) [rule_format, of l] assms(9,11) by (simp_all add: set_mycpu_def lock_free_def upd_proc_def mycpu_def settle_def)
  from resume_sleep [OF x(1,1,2), where p = p and lk = lk and en = en] obtain v w where v: "sched_resumed en (acq (ProcLock p) ?x) = Done () v" "sleep_resumed p lk v = Done () w"
    "procs w = (procs ?x)(p := (procs ?x p)\<lparr>p_chan := None\<rparr>)" "tp w = tp ?x" "\<And>k. cpu_proc (cpus w k) = cpu_proc (cpus ?x k)"
    "holding lk w" "noff (mycpu w) = 1" by blast
  have "p_state (procs w p) = RUNNING" "p_chan (procs w p) = None" "cpu_proc (cpus w h) = Some p" "tp w = h"
    using x(3-5) unfolding v(3-5) by simp_all
  with t u v(1,2,6,7) show ?thesis by blast
qed


text \<open>Two processes: process 0 runs on hart 0, process 1 sleeps on \<open>ticks\<close>.\<close>

definition bss2 :: trapst where
  "bss2 = bss1\<lparr>procs := (procs bss1)(1 := zero_proc\<lparr>p_state := SLEEPING, p_chan := Some ChTicks, p_pid := 2\<rparr>)\<rparr>"

lemma bss2_simps: "hart_ok bss2" "lock_free l bss2" "procs_free bss2" "cpu_proc (mycpu bss2) = Some 0" "p_state (procs bss2 1) = SLEEPING"
  "p_chan (procs bss2 1) = Some ChTicks" "tp bss2 = 0" "cpu_proc (cpus bss2 1) = None" "noff (cpus bss2 1) = 0"
  by (simp_all add: bss2_def procs_free_def) (simp_all add: bss1_def bss_def zero_cpu_def mycpu_def)

theorem sleeper_resumes_witness:
  "\<exists>t u v w. wakeup (Some ChTicks) bss2 = Done () t \<and> scheduler_slot 1 (t\<lparr>tp := 1\<rparr>) = Switch u \<and> sched_resumed True u = Done () v \<and>
    sleep_resumed 1 TicksLock v = Done () w \<and> p_state (procs w 1) = RUNNING \<and> cpu_proc (cpus w 1) = Some 1 \<and> holding TicksLock w"
proof -
  have "\<exists>t u v w. wakeup (Some ChTicks) bss2 = Done () t \<and> scheduler_slot 1 (t\<lparr>tp := 1\<rparr>) = Switch u \<and> sched_resumed True u = Done () v \<and>
    sleep_resumed 1 TicksLock v = Done () w \<and> p_state (procs w 1) = RUNNING \<and> p_chan (procs w 1) = None \<and> cpu_proc (cpus w 1) = Some 1 \<and>
    tp w = 1 \<and> holding TicksLock w \<and> noff (mycpu w) = 1"
    by (rule sleeper_resumes) (simp_all add: bss2_simps [simplified])
  then show ?thesis by blast
qed



section \<open>Kill\<close>

definition killed :: "proc \<Rightarrow> proc" where
  "killed q = (if p_state q = SLEEPING then q\<lparr>p_killed := 1, p_state := RUNNABLE\<rparr> else q\<lparr>p_killed := 1\<rparr>)"

lemma kill_loop_eq:
  assumes "hart_ok s" and "\<forall>p \<in> set ps. lock_free (ProcLock p) s"
  shows "kill_loop ps pid s = (case find (\<lambda>p. p_pid (procs s p) = pid) ps of
       None \<Rightarrow> Done (-1) (if ps = [] then s else settle s) | Some p \<Rightarrow> Done 0 (settle (upd_proc p killed s)))"
  using assms
proof (induction ps arbitrary: s)
  case (Cons p ps)
  have "upd_proc p killed s = (let t = upd_proc p (\<lambda>q. q\<lparr>p_killed := 1\<rparr>) s in
      if p_state (procs t p) = SLEEPING then upd_proc p (\<lambda>q. q\<lparr>p_state := RUNNABLE\<rparr>) t else t)"
    by (simp add: upd_proc_def killed_def Let_def)
  with Cons show ?case by (simp add: acquire_free release_acq Let_def split: option.splits)
qed simp

text \<open>C24. \<open>kill\<close> looks the process up by its number: it returns 0 exactly when some table entry has it, then marks the first such
  entry as killed and makes it runnable if it sleeps, and changes no other process. Otherwise it returns -1
  and changes no process.\<close>

theorem kill_spec:
  assumes "hart_ok s" and "\<forall>p < NPROC. lock_free (ProcLock p) s"
  shows "yields (kill pid s) (\<lambda>r t. (r = 0 \<longleftrightarrow> (\<exists>p < NPROC. p_pid (procs s p) = pid)) \<and> (r = 0 \<or> r = -1) \<and>
    (\<forall>p. procs t p = (if r = 0 \<and> p < NPROC \<and> p_pid (procs s p) = pid \<and> (\<forall>q < p. p_pid (procs s q) \<noteq> pid)
       then killed (procs s p) else procs s p)))"
proof (cases "find (\<lambda>p. p_pid (procs s p) = pid) [0..<NPROC]")
  case None
  then have "\<forall>p < NPROC. p_pid (procs s p) \<noteq> pid" by (simp add: find_None_iff)
  with None assms show ?thesis by (simp add: kill_def kill_loop_eq)
next
  case (Some p)
  then have p: "p < NPROC" "p_pid (procs s p) = pid" "\<And>q. q < p \<Longrightarrow> p_pid (procs s q) \<noteq> pid"
    by (auto simp: find_Some_iff)
  then have first: "q < NPROC \<and> p_pid (procs s q) = pid \<and> (\<forall>k < q. p_pid (procs s k) \<noteq> pid) \<longleftrightarrow> q = p" for q
    by (metis linorder_neqE_nat)
  have "kill pid s = Done 0 (settle (upd_proc p killed s))" using Some assms by (simp add: kill_def kill_loop_eq)
  moreover have "\<exists>p < NPROC. p_pid (procs s p) = pid" using p by blast
  ultimately show ?thesis by (simp only: yields.simps first simp_thms) simp
qed

theorem kill_spec_witness:
  "\<exists>t. kill 2 bss2 = Done 0 t \<and> p_killed (procs t 1) = 1 \<and> p_state (procs t 1) = RUNNABLE \<and> procs t 0 = procs bss2 0"
proof -
  have pid: "p_pid (procs bss2 0) = 1" "p_pid (procs bss2 1) = 2" by (simp_all add: bss2_def bss1_def)
  from kill_spec [of bss2 2] have "yields (kill 2 bss2) (\<lambda>r t. (r = 0 \<longleftrightarrow> (\<exists>p < NPROC. p_pid (procs bss2 p) = 2)) \<and> (r = 0 \<or> r = -1) \<and>
    (\<forall>p. procs t p = (if r = 0 \<and> p < NPROC \<and> p_pid (procs bss2 p) = 2 \<and> (\<forall>q < p. p_pid (procs bss2 q) \<noteq> 2) then killed (procs bss2 p) else procs bss2 p)))"
    by (simp add: bss2_simps)
  then obtain r t where t: "kill 2 bss2 = Done r t" "r = 0 \<longleftrightarrow> (\<exists>p < NPROC. p_pid (procs bss2 p) = 2)"
    "\<forall>p. procs t p = (if r = 0 \<and> p < NPROC \<and> p_pid (procs bss2 p) = 2 \<and> (\<forall>q < p. p_pid (procs bss2 q) \<noteq> 2) then killed (procs bss2 p) else procs bss2 p)"
    unfolding yields_iff by blast
  from t(2) pid have "r = 0" by auto
  with t(1) t(3) [rule_format, of 1] t(3) [rule_format, of 0] pid show ?thesis by (simp add: killed_def bss2_simps [simplified])
qed

lemma kquiet_procs: "kquiet s t \<Longrightarrow> procs t = procs s"
  by (cases s; cases t) (simp add: kquiet_def)

lemma allocpid_procs: "allocpid s = Done x t \<Longrightarrow> procs t = procs s"
  by (auto simp: allocpid_def obind_Done_iff Let_def dest!: acquire_more release_more procs_machine_more)

lemma allocproc_find_procs: "allocproc_find ps s = Done x t \<Longrightarrow> procs t = procs s"
  by (induction ps arbitrary: s) (auto simp: obind_Done_iff split: if_splits dest!: keepsD [OF kquiet_lock(1)] keepsD [OF kquiet_lock(2)] kquiet_procs)

lemma proc_pagetable_procs: "proc_pagetable p s = Done x t \<Longrightarrow> procs t = procs s"
proof -
  have "keeps kquiet (proc_pagetable p s) s" unfolding proc_pagetable_def by (intro kquiet) (simp_all add: kq.refl)
  then show "proc_pagetable p s = Done x t \<Longrightarrow> procs t = procs s" by (auto dest: keepsD kquiet_procs)
qed

lemma allocproc_killed:
  assumes "allocproc s = Done (Some p) t"
  shows "p_killed (procs t p) = p_killed (procs s p)" and "p_state (procs s p) = UNUSED"
proof -
  from assms obtain u where u: "allocproc_find [0..<NPROC] s = Done (Some p) u" "allocproc_found p u = Done (Some p) t"
    by (auto simp: allocproc_eq obind_Done_iff split: option.splits dest: allocproc_found_same)
  from u(2) have "p_killed (procs t p) = p_killed (procs u p)"
    by (auto simp: allocproc_found_def obind_Done_iff Let_def split: if_splits
      dest!: allocpid_procs proc_pagetable_procs keepsD [OF kquiet_kalloc [OF kq.refl], THEN kquiet_procs])
  with allocproc_find_procs [OF u(1)] show "p_killed (procs t p) = p_killed (procs s p)" by simp
  from allocproc_find_unused [OF u(1)] allocproc_find_procs [OF u(1)] show "p_state (procs s p) = UNUSED" by simp
qed

lemma allocproc_find_first:
  "allocproc_find ps s = Done (Some p) t \<Longrightarrow> find (\<lambda>p. p_state (procs s p) = UNUSED) ps = Some p"
proof (induction ps arbitrary: s)
  case (Cons q ps)
  from Cons.prems obtain u where u: "acquire (ProcLock q) s = Done () u"
    "if p_state (procs u q) = UNUSED then p = q else (\<exists>v. release (ProcLock q) u = Done () v \<and> allocproc_find ps v = Done (Some p) t)"
    by (auto simp: obind_Done_iff split: if_splits)
  have pu: "procs u = procs s" using keepsD [OF kquiet_lock(1) u(1)] by (rule kquiet_procs)
  show ?case
  proof (cases "p_state (procs u q) = UNUSED")
    case False
    with u(2) obtain v where v: "release (ProcLock q) u = Done () v" "allocproc_find ps v = Done (Some p) t" by auto
    have "procs v = procs s" using keepsD [OF kquiet_lock(2) v(1), THEN kquiet_procs] pu by simp
    with Cons.IH [OF v(2)] False pu show ?thesis by simp
  qed (use u(2) pu in simp)
qed simp



end
