(* ===== verification/Tty.thy ===== *)
theory Tty
  imports Ring Sched
begin

unbundle bit_operations_syntax

text \<open>
  The serial line (\<open>kernel/uart.c\<close>) and the console's line discipline (\<open>kernel/console.c\<close>) on the
  queues their ring buffers hold.
\<close>

section \<open>Output\<close>

text \<open>The bytes that have gone out on the line.\<close>

definition uart_sent :: "('a) uart_scheme \<Rightarrow> uint8 list" where
  "uart_sent s = map snd (filter (\<lambda>(r, _). r = THR) (uart_out s))"

lemma uart_put_queue: "length (uart_queue s) < 32 \<Longrightarrow> uart_queue (uart_put c s) = uart_queue s @ [c]"
  using uart_ring.put_queue [of s c] by (simp add: uart_queue_def)

lemma uart_take_queue: "uart_tx_r s \<noteq> uart_tx_w s \<Longrightarrow> uart_queue s = fst (uart_take s) # uart_queue (snd (uart_take s))"
  using uart_ring.get_queue [of s] by (simp add: uart_queue_def)

lemma uart_full: "uart_tx_w s = uart_tx_r s + 32 \<longleftrightarrow> length (uart_queue s) = 32"
  using uart_ring.full [of s] by (simp add: uart_queue_def)

lemma uart_queue_cong:
  "uart_tx_buf t = uart_tx_buf s \<Longrightarrow> uart_tx_r t = uart_tx_r s \<Longrightarrow> uart_tx_w t = uart_tx_w s \<Longrightarrow> uart_queue t = uart_queue s"
  by (simp add: uart_queue_def)

lemma uart_acq [simp]:
  "uart_queue (acq l s) = uart_queue s" "uart_sent (acq l s) = uart_sent s" "panicked (acq l s) = panicked s"
  "uart_put c (acq l s) = acq l (uart_put c s)" "uart_lsr (acq l s) = uart_lsr s"
  "uart_tx_w (acq l s) = uart_tx_w s" "uart_tx_r (acq l s) = uart_tx_r s"
  by (simp_all add: acq_def pushed_def mycpu_def intr_get_def uart_put_def uart_queue_def uart_sent_def)

lemma uart_settle [simp]:
  "uart_queue (settle s) = uart_queue s" "uart_sent (settle s) = uart_sent s" "panicked (settle s) = panicked s"
  "uart_lsr (settle s) = uart_lsr s"
  by (simp_all add: settle_def uart_queue_def uart_sent_def)

lemma uart_put_simps [simp]:
  "uart_sent (uart_put c s) = uart_sent s" "hart_ok (uart_put c s) = hart_ok s" "lock_free l (uart_put c s) = lock_free l s"
  "mycpu (uart_put c s) = mycpu s" "uart_lsr (uart_put c s) = uart_lsr s"
  by (simp_all add: uart_put_def uart_sent_def hart_ok_def lock_free_def mycpu_def intr_get_def)

text \<open>One round of \<open>uartstart\<close> with an idle transmitter.\<close>

definition uart_send1 :: "('a) uart_scheme \<Rightarrow> ('a) uart_scheme" where
  "uart_send1 s = s\<lparr>uart_lsr := tl (uart_lsr s), uart_tx_r := uart_tx_r s + 1,
     uart_out := uart_out s @ [(THR, fst (uart_take s))],
     procs := woken (Some ChUartR) (cpu_proc (mycpu s)) {..<NPROC} (procs s)\<rparr>"

lemma uart_send1_simps [simp]:
  "hart_ok (uart_send1 s) = hart_ok s" "lock_free l (uart_send1 s) = lock_free l s" "mycpu (uart_send1 s) = mycpu s"
  "uart_lsr (uart_send1 s) = tl (uart_lsr s)" "procs_free (uart_send1 s) = procs_free s"
  by (simp_all add: uart_send1_def hart_ok_def lock_free_def mycpu_def intr_get_def procs_free_def)

lemma uart_send1_fifo:
  assumes "uart_tx_w s \<noteq> uart_tx_r s"
  shows "uart_sent (uart_send1 s) @ uart_queue (uart_send1 s) = uart_sent s @ uart_queue s"
    and "length (uart_queue (uart_send1 s)) \<le> length (uart_queue s)"
proof -
  have "uart_queue (uart_send1 s) = uart_queue (snd (uart_take s))" by (rule uart_queue_cong) (simp_all add: uart_send1_def uart_take_def)
  with uart_take_queue [of s] assms show "uart_sent (uart_send1 s) @ uart_queue (uart_send1 s) = uart_sent s @ uart_queue s"
    "length (uart_queue (uart_send1 s)) \<le> length (uart_queue s)" by (simp_all add: uart_sent_def uart_send1_def)
qed

lemma uartstart_step:
  assumes "hart_ok s" and "lock_free UartLock s" and "procs_free s" and "uart_tx_w s \<noteq> uart_tx_r s"
    and "uart_lsr s = v # vs" and "v AND LSR_TX_IDLE \<noteq> 0"
  shows "uartstart (acq UartLock s) = uartstart (acq UartLock (uart_send1 s))"
proof -
  let ?u = "(snd (uart_take (s\<lparr>uart_lsr := vs\<rparr>)))"
  have f: "uart_take ((acq UartLock s)\<lparr>uart_lsr := vs\<rparr>) = (fst (uart_take s), acq UartLock ?u)"
    by (simp add: uart_take_def acq_def pushed_def mycpu_def intr_get_def)
  have h: "hart_ok (acq UartLock ?u)" "procs_free (acq UartLock ?u)"
  proof -
    have "hart_ok ?u" "procs_free ?u" "mycpu ?u = mycpu s"
      using assms(1-3) by (simp_all add: uart_take_def procs_free_def lock_free_def hart_ok_def mycpu_def intr_get_def)
    then show "hart_ok (acq UartLock ?u)" "procs_free (acq UartLock ?u)" by (simp_all add: procs_free_def)
  qed
  let ?w = "?u\<lparr>procs := woken (Some ChUartR) (cpu_proc (mycpu s)) {..<NPROC} (procs s)\<rparr>"
  have "(acq UartLock ?u)\<lparr>procs := woken (Some ChUartR) (cpu_proc (mycpu (acq UartLock ?u))) {..<NPROC} (procs (acq UartLock ?u))\<rparr> = acq UartLock ?w"
    by (simp add: uart_take_def acq_def pushed_def mycpu_def intr_get_def)
  moreover have "hart_ok ?w" using assms(1) by (simp add: uart_take_def hart_ok_def mycpu_def intr_get_def)
  ultimately have w: "wakeup (Some ChUartR) (acq UartLock ?u) = Done () (acq UartLock ?w)"
    using wakeup_wakes [OF h, of "Some ChUartR"] by (simp only: settle_acq)
  have "WriteReg THR (fst (uart_take s)) (acq UartLock ?w) = acq UartLock (uart_send1 s)"
    using assms(5) by (simp add: uart_send1_def WriteReg_def uart_take_def acq_def pushed_def mycpu_def intr_get_def)
  with assms(4-6) f w show ?thesis
    by (subst uartstart.simps) (simp add: ReadLSR_def)
qed

lemma uartstart_fifo:
  assumes "hart_ok s" and "lock_free UartLock s" and "procs_free s"
  shows "\<exists>t. uartstart (acq UartLock s) = Done () (acq UartLock t) \<and> hart_ok t \<and> lock_free UartLock t \<and>
    uart_sent t @ uart_queue t = uart_sent s @ uart_queue s \<and> length (uart_queue t) \<le> length (uart_queue s)"
  using assms
proof (induction "length (uart_lsr s)" arbitrary: s)
  case 0
  then have "uart_lsr s = []" by simp
  then have "uartstart (acq UartLock s) = Done () (acq UartLock s)" by (subst uartstart.simps) (simp add: ReadLSR_def)
  with 0 show ?case by blast
next
  case (Suc n)
  then obtain v vs where v: "uart_lsr s = v # vs" by (cases "uart_lsr s") auto
  consider "uart_tx_w s = uart_tx_r s" | "uart_tx_w s \<noteq> uart_tx_r s" "v AND LSR_TX_IDLE = 0" | "uart_tx_w s \<noteq> uart_tx_r s" "v AND LSR_TX_IDLE \<noteq> 0"
    by blast
  then show ?case
  proof cases
    case 1
    then have "uartstart (acq UartLock s) = Done () (acq UartLock s)" by (subst uartstart.simps) (simp add: acq_def pushed_def)
    with Suc show ?thesis by blast
  next
    case 2
    let ?t = "s\<lparr>uart_lsr := vs\<rparr>"
    have "uartstart (acq UartLock s) = Done () (acq UartLock ?t)"
      using 2 v by (subst uartstart.simps) (simp add: ReadLSR_def acq_def pushed_def mycpu_def intr_get_def)
    moreover have "hart_ok ?t" "lock_free UartLock ?t" "uart_sent ?t = uart_sent s" "uart_queue ?t = uart_queue s"
      using Suc.prems by (simp_all add: hart_ok_def lock_free_def mycpu_def intr_get_def uart_sent_def uart_queue_def)
    ultimately show ?thesis by (metis order_refl)
  next
    case 3
    note f = uart_send1_fifo [OF 3(1)]
    have "\<exists>t. uartstart (acq UartLock (uart_send1 s)) = Done () (acq UartLock t) \<and> hart_ok t \<and> lock_free UartLock t \<and>
      uart_sent t @ uart_queue t = uart_sent (uart_send1 s) @ uart_queue (uart_send1 s) \<and> length (uart_queue t) \<le> length (uart_queue (uart_send1 s))"
      using Suc.hyps(2) Suc.prems v by (intro Suc.hyps(1)) simp_all
    with f uartstart_step [OF Suc.prems 3(1) v 3(2)] show ?thesis by (metis order_trans)
  qed
qed

text \<open>C22. The serial line neither loses, duplicates nor reorders bytes: \<open>uartputc\<close> returns when the transmit buffer has
  room, whatever the device answers, and then what has been sent followed by what is buffered has grown by
  exactly the given byte at its end. When the buffer is full the process goes to sleep until the buffer is
  read, with everything on the line as it was.\<close>

theorem uartputc_fifo:
  assumes "calm s" and "\<not> panicked s" and "cpu_proc (mycpu s) = Some p" and "noff (mycpu s) = 0"
  shows "if length (uart_queue s) < UART_TX_BUF_SIZE
    then yields (uartputc c s) (\<lambda>_ t. uart_sent t @ uart_queue t = uart_sent s @ uart_queue s @ [c] \<and> length (uart_queue t) \<le> UART_TX_BUF_SIZE)
    else length (uart_queue s) = UART_TX_BUF_SIZE \<longrightarrow> (\<exists>t. uartputc c s = Switch t \<and> p_state (procs t p) = SLEEPING \<and>
      p_chan (procs t p) = Some ChUartR \<and> uart_sent t = uart_sent s \<and> uart_queue t = uart_queue s)"
proof (cases "length (uart_queue s) < UART_TX_BUF_SIZE")
  note h = calmD [OF assms(1)]
  case True
  then have nf: "uart_tx_w s \<noteq> uart_tx_r s + 32" by (simp add: uart_full)
  have "procs_free (uart_put c s)" using h(3) by (simp add: procs_free_def)
  with uartstart_fifo [of "uart_put c s"] h obtain t where t: "uartstart (acq UartLock (uart_put c s)) = Done () (acq UartLock t)"
    "hart_ok t" "lock_free UartLock t" "uart_sent t @ uart_queue t = uart_sent s @ uart_queue (uart_put c s)"
    "length (uart_queue t) \<le> length (uart_queue (uart_put c s))" by auto
  moreover have "uartputc_loop c (acq UartLock s) = obind (uartstart (acq UartLock (uart_put c s))) (\<lambda>_ s. release UartLock s)"
    using nf by (subst uartputc_loop.simps) simp
  ultimately show ?thesis
    using h assms(2) True by (simp add: uartputc_def acquire_free release_acq uart_put_queue)
next
  note h = calmD [OF assms(1)]
  let ?t = "acq (ProcLock p) (upd_proc p (\<lambda>q. q\<lparr>p_chan := Some ChUartR, p_state := SLEEPING\<rparr>) s)"
  case False
  show ?thesis
  proof (clarsimp simp only: if_not_P [OF False])
    assume "length (uart_queue s) = UART_TX_BUF_SIZE"
    then have "uart_tx_w (acq UartLock s) = uart_tx_r (acq UartLock s) + 32" by (simp add: uart_full)
    then have "uartputc_loop c (acq UartLock s) = Switch ?t"
      using sleep_switch [OF h(1) assms(4,3) h(2,2), of UartLock ChUartR] by (subst uartputc_loop.simps) simp
    then have "uartputc c s = Switch ?t" using h assms(2) by (simp add: uartputc_def acquire_free)
    moreover have "uart_sent ?t = uart_sent s" "uart_queue ?t = uart_queue s" by (simp_all, simp_all add: uart_sent_def uart_queue_def upd_proc_def)
    ultimately show "\<exists>t. uartputc c s = Switch t \<and> p_state (procs t p) = SLEEPING \<and>
      p_chan (procs t p) = Some ChUartR \<and> uart_sent t = uart_sent s \<and> uart_queue t = uart_queue s" by (intro exI [of _ ?t]) simp
  qed
qed

theorem uartputc_fifo_witness:
  "\<exists>t. uartputc 65 bss1 = Done () t \<and> uart_sent t @ uart_queue t = [65]"
proof -
  have "cpu_proc (mycpu bss1) = Some 0" "noff (mycpu bss1) = 0" "\<not> panicked bss1" and e: "uart_queue bss1 = []" "uart_sent bss1 = []"
    by (simp_all add: bss1_def bss_def mycpu_def zero_cpu_def uart_queue_def ring_queue_def uart_sent_def)
  then show ?thesis using uartputc_fifo [OF calm_bss1, of 0 65] by (auto simp: yields_iff)
qed

section \<open>The line discipline\<close>

text \<open>
  What the console has: complete lines that \<open>consoleread\<close> can take, and the line that is being typed. \<open>type_key\<close> is
  what a key does: control-U (21) drops the line, backspace (8) and delete (127) its last byte;
  carriage return (13) counts as newline (10); newline, control-D (4) and a full buffer complete the line;
  a byte for which there is no room is dropped.
\<close>

definition type_key :: "int \<Rightarrow> uint8 list \<times> uint8 list \<Rightarrow> uint8 list \<times> uint8 list" where
  "type_key c = (\<lambda>(ready, line).
     if c = 21 then (ready, [])
     else if c = 8 \<or> c = 127 then (ready, butlast line)
     else if c = 0 \<or> length ready + length line \<ge> INPUT_BUF then (ready, line)
     else let c = (if c = 13 then 10 else c);
              line = line @ [word_of_int c]
          in if c = 10 \<or> c = 4 \<or> length ready + length line = INPUT_BUF then (ready @ line, []) else (ready, line))"

definition cons_view :: "('a) console_scheme \<Rightarrow> uint8 list \<times> uint8 list" where
  "cons_view s = (take (unat (cons_w s - cons_r s)) (cons_queue s), drop (unat (cons_w s - cons_r s)) (cons_queue s))"

text \<open>The indices are in order, the line holds no newline, and a full buffer holds no unfinished line.\<close>

definition cons_ok :: "('a) console_scheme \<Rightarrow> bool" where
  "cons_ok s \<longleftrightarrow> unat (cons_w s - cons_r s) \<le> unat (cons_e s - cons_r s) \<and> unat (cons_e s - cons_r s) \<le> INPUT_BUF \<and>
     10 \<notin> set (snd (cons_view s)) \<and> (unat (cons_e s - cons_r s) = INPUT_BUF \<longrightarrow> cons_w s = cons_e s)"

lemma ring_queue_unput:
  fixes r w :: "'w::len word"
  assumes "r \<noteq> w" and "N dvd 2 ^ LENGTH('w)"
  shows "ring_queue N b r w = ring_queue N b r (w - 1) @ [b (unat (w - 1) mod N)]"
proof -
  have d: "w - 1 - r = (w - r) - 1" by simp
  have n: "unat (w - r) = Suc (unat (w - 1 - r))"
    using assms(1) unat_minus_one [of "w - r"] unat_gt_0 [of "w - r"] unfolding d by simp
  show ?thesis
    unfolding ring_queue_def n using unat_wr [OF assms(2), of "w - 1" r] by simp
qed

lemma cons_queue_erase: "cons_e s \<noteq> cons_r s \<Longrightarrow> cons_queue (s\<lparr>cons_e := cons_e s - 1\<rparr>) = butlast (cons_queue s)"
  and cons_queue_last: "cons_e s \<noteq> cons_r s \<Longrightarrow> last (cons_queue s) = cons_buf s (unat (cons_e s - 1) mod INPUT_BUF)"
  using ring_queue_unput [of "cons_r s" "cons_e s" INPUT_BUF "cons_buf s"] by (simp_all add: cons_queue_def)

lemma cons_put_queue: "length (cons_queue s) < INPUT_BUF \<Longrightarrow> cons_queue (cons_put c s) = cons_queue s @ [c]"
  using cons_ring.put_queue [of s c] by (simp add: cons_queue_def)

text \<open>The transmitter will be found idle at least \<open>n\<close> times.\<close>

definition tx_idle :: "nat \<Rightarrow> ('a) uart_scheme \<Rightarrow> bool" where
  "tx_idle n s \<longleftrightarrow> n \<le> length (filter (\<lambda>v. v AND LSR_TX_IDLE \<noteq> 0) (uart_lsr s))"

lemma tx_wait_idle: "Suc n \<le> length (filter (\<lambda>v. v AND LSR_TX_IDLE \<noteq> 0) vs) \<Longrightarrow>
    \<exists>ws. tx_wait vs = Some ws \<and> n \<le> length (filter (\<lambda>v. v AND LSR_TX_IDLE \<noteq> 0) ws)"
  by (induction vs) (auto split: if_splits)

text \<open>Nothing has changed but what went over the line.\<close>

definition tty_out :: "('a) uart_scheme \<Rightarrow> ('a) uart_scheme \<Rightarrow> bool" where
  "tty_out s t \<longleftrightarrow> (\<exists>lsr out. t = s\<lparr>uart_lsr := lsr, uart_out := out\<rparr>)"

lemma tty_out_trans: "tty_out s t \<Longrightarrow> tty_out t u \<Longrightarrow> tty_out s u"
  by (auto simp: tty_out_def) blast

lemma tty_out_keeps:
  assumes "tty_out s t"
  shows "hart_ok t = hart_ok s" and "lock_free l t = lock_free l s" and "mycpu t = mycpu s" and "procs t = procs s" and "panicked t = panicked s"
    and "procs_free t = procs_free s"
  using assms by (auto simp: tty_out_def hart_ok_def lock_free_def mycpu_def intr_get_def procs_free_def)

lemma uartputc_sync_acq:
  assumes "hart_ok s" and "\<not> panicked s" and "tx_idle (Suc n) s"
  shows "\<exists>t. uartputc_sync c (acq l s) = Done () (acq l t) \<and> tty_out s t \<and> tx_idle n t"
proof -
  from tx_wait_idle [of n "uart_lsr s"] assms(3) obtain ws where ws: "tx_wait (uart_lsr s) = Some ws" "n \<le> length (filter (\<lambda>v. v AND LSR_TX_IDLE \<noteq> 0) ws)"
    by (auto simp: tx_idle_def)
  let ?t = "s\<lparr>uart_lsr := ws, uart_out := uart_out s @ [(THR, c)]\<rparr>"
  have p: "WriteReg THR c ((pushed (acq l s))\<lparr>uart_lsr := ws\<rparr>) = pushed (acq l ?t)"
    by (simp add: WriteReg_def pushed_def acq_def mycpu_def intr_get_def)
  have "hart_ok ?t" using assms(1) by (simp add: hart_ok_def mycpu_def intr_get_def)
  then have "pop_off (pushed (acq l ?t)) = Done () (acq l ?t)" by (simp add: pop_off_pushed)
  moreover have "uart_lsr (pushed (acq l s)) = uart_lsr s" "panicked (pushed (acq l s)) = panicked s" by (simp_all add: pushed_def acq_def)
  ultimately have "uartputc_sync c (acq l s) = Done () (acq l ?t)" using ws(1) assms(2) p by (simp add: uartputc_sync_def push_off_eq Let_def)
  then show ?thesis using ws(2) by (intro exI [of _ ?t]) (auto simp: tty_out_def tx_idle_def)
qed

lemma consputc_acq:
  assumes "hart_ok s" and "\<not> panicked s" and "tx_idle (n + 3) s"
  shows "\<exists>t. consputc c (acq l s) = Done () (acq l t) \<and> tty_out s t \<and> tx_idle n t"
proof -
  have step: "\<exists>t. uartputc_sync d (acq l u) = Done () (acq l t) \<and> tty_out s t \<and> tx_idle k t" if "tty_out s u" "tx_idle (Suc k) u" for d k u
    using uartputc_sync_acq [of u k d l] tty_out_keeps [OF that(1)] tty_out_trans [OF that(1)] assms(1,2) that(2) by blast
  have s: "tty_out s s" "tx_idle (Suc (Suc (Suc n))) s" "tx_idle (Suc n) s" using assms(3) by (auto simp: tty_out_def tx_idle_def intro!: exI [of _ "uart_lsr s"] exI [of _ "uart_out s"])
  show ?thesis
  proof (cases "c = BACKSPACE")
    case True
    from step [OF s(1,2)] obtain t1 where "uartputc_sync 8 (acq l s) = Done () (acq l t1)" "tty_out s t1" "tx_idle (Suc (Suc n)) t1" by blast
    moreover from step [OF this(2,3)] obtain t2 where "uartputc_sync 32 (acq l t1) = Done () (acq l t2)" "tty_out s t2" "tx_idle (Suc n) t2" by blast
    moreover from step [OF this(2,3)] obtain t3 where "uartputc_sync 8 (acq l t2) = Done () (acq l t3)" "tty_out s t3" "tx_idle n t3" by blast
    ultimately show ?thesis using True by (intro exI [of _ t3]) (simp add: consputc_def)
  next
    case False
    with step [OF s(1,3)] show ?thesis by (simp add: consputc_def)
  qed
qed

lemma cons_acq [simp]:
  "cons_buf (acq l s) = cons_buf s" "cons_r (acq l s) = cons_r s" "cons_w (acq l s) = cons_w s" "cons_e (acq l s) = cons_e s"
  "cons_e_update f (acq l s) = acq l (cons_e_update f s)" "cons_w_update f (acq l s) = acq l (cons_w_update f s)"
  "cons_put c (acq l s) = acq l (cons_put c s)" "cons_queue (acq l s) = cons_queue s" "cons_view (acq l s) = cons_view s" "cons_ok (acq l s) = cons_ok s"
  by (simp_all add: acq_def pushed_def mycpu_def intr_get_def cons_put_def cons_queue_def cons_view_def cons_ok_def)

text \<open>Nothing has changed but the line buffer and what went over the line.\<close>

definition tty_edit :: "('a) console_scheme \<Rightarrow> ('a) console_scheme \<Rightarrow> bool" where
  "tty_edit s t \<longleftrightarrow> (\<exists>lsr out b w e. t = s\<lparr>uart_lsr := lsr, uart_out := out, cons_buf := b, cons_w := w, cons_e := e\<rparr>)"

lemma tty_edit_trans: "tty_edit s t \<Longrightarrow> tty_edit t u \<Longrightarrow> tty_edit s u"
  by (auto simp: tty_edit_def) blast

lemma tty_edit_out: "tty_out s t \<Longrightarrow> tty_edit s t"
  unfolding tty_out_def tty_edit_def
  by (elim exE, rule exI, rule exI, rule exI [of _ "cons_buf s"], rule exI [of _ "cons_w s"], rule exI [of _ "cons_e s"]) simp

lemma tty_editI: "tty_edit s (s\<lparr>cons_buf := b, cons_w := w, cons_e := e\<rparr>)"
  unfolding tty_edit_def by (rule exI [of _ "uart_lsr s"], rule exI [of _ "uart_out s"]) (intro exI, simp)

lemma tty_edit_cons: "tty_edit s (s\<lparr>cons_e := e\<rparr>)" "tty_edit s (cons_put c s)" "tty_edit s ((cons_put c s)\<lparr>cons_w := w\<rparr>)"
proof -
  have p: "cons_put c s = s\<lparr>cons_buf := (cons_buf s)(unat (cons_e s) mod INPUT_BUF := c), cons_w := cons_w s, cons_e := cons_e s + 1\<rparr>"
    "(cons_put c s)\<lparr>cons_w := w\<rparr> = s\<lparr>cons_buf := (cons_buf s)(unat (cons_e s) mod INPUT_BUF := c), cons_w := w, cons_e := cons_e s + 1\<rparr>"
    by (simp_all add: cons_put_def)
  show "tty_edit s (cons_put c s)" "tty_edit s ((cons_put c s)\<lparr>cons_w := w\<rparr>)"
    unfolding p(2) by (subst p(1), rule tty_editI) (rule tty_editI)
  show "tty_edit s (s\<lparr>cons_e := e\<rparr>)" using tty_editI [where s = s and b = "cons_buf s" and w = "cons_w s" and e = e] by simp
qed

lemma tty_edit_keeps:
  assumes "tty_edit s t"
  shows "hart_ok t = hart_ok s" and "lock_free l t = lock_free l s" and "mycpu t = mycpu s" and "procs t = procs s" and "panicked t = panicked s"
    and "procs_free t = procs_free s"
  using assms by (auto simp: tty_edit_def hart_ok_def lock_free_def mycpu_def intr_get_def procs_free_def)

lemma tty_out_cons:
  assumes "tty_out s t"
  shows "cons_view t = cons_view s" and "cons_ok t = cons_ok s" and "cons_e t = cons_e s" and "cons_w t = cons_w s" and "cons_r t = cons_r s"
    and "cons_queue t = cons_queue s"
  using assms by (auto simp: tty_out_def cons_view_def cons_ok_def cons_queue_def)

lemma cons_view_empty: "cons_ok s \<Longrightarrow> cons_e s = cons_w s \<longleftrightarrow> snd (cons_view s) = []"
proof -
  let ?w = "unat (cons_w s - cons_r s)" and ?e = "unat (cons_e s - cons_r s)"
  assume "cons_ok s"
  then have "?w \<le> ?e" unfolding cons_ok_def by blast
  moreover have "snd (cons_view s) = [] \<longleftrightarrow> ?e \<le> ?w" by (simp add: cons_view_def cons_queue_def)
  moreover have "?e = ?w \<longleftrightarrow> cons_e s = cons_w s" unfolding word_unat_eq_iff [symmetric] by simp
  ultimately show ?thesis by (metis le_antisym order_refl)
qed

lemma cons_erase:
  assumes "cons_ok s" and "cons_e s \<noteq> cons_w s"
  defines "t \<equiv> s\<lparr>cons_e := cons_e s - 1\<rparr>"
  shows "cons_view t = (fst (cons_view s), butlast (snd (cons_view s)))" and "cons_ok t"
    and "cons_buf s (unat (cons_e s - 1) mod INPUT_BUF) = last (snd (cons_view s))"
proof -
  let ?w = "unat (cons_w s - cons_r s)" and ?e = "unat (cons_e s - cons_r s)"
  have "?w \<noteq> ?e" using assms(2) unfolding word_unat_eq_iff [symmetric] by simp
  with assms(1) have lt: "?w < ?e" by (simp add: cons_ok_def)
  then have ne: "cons_e s \<noteq> cons_r s" by auto
  have q: "cons_queue t = butlast (cons_queue s)" using cons_queue_erase [OF ne] by (simp add: t_def)
  have d: "unat (cons_e t - cons_r t) = ?e - 1"
    using ne unat_minus_one [of "cons_e s - cons_r s"] by (simp add: t_def algebra_simps)
  have len: "length (cons_queue s) = ?e" by (simp add: cons_queue_def)
  show v: "cons_view t = (fst (cons_view s), butlast (snd (cons_view s)))"
    using lt unfolding cons_view_def q by (simp add: t_def take_butlast butlast_drop len)
  show "cons_ok t"
    using assms(1) lt unfolding cons_ok_def d v by (auto simp: t_def dest: in_set_butlastD)
  show "cons_buf s (unat (cons_e s - 1) mod INPUT_BUF) = last (snd (cons_view s))"
    using cons_queue_last [OF ne] lt len by (simp add: cons_view_def)
qed

lemma cons_kill_line_acq:
  assumes "hart_ok s" and "\<not> panicked s" and "cons_ok s" and "tx_idle (3 * length (snd (cons_view s))) s"
  shows "\<exists>t. cons_kill_line (acq l s) = Done () (acq l t) \<and> tty_edit s t \<and> cons_ok t \<and> cons_view t = (fst (cons_view s), [])"
  using assms
proof (induction "length (snd (cons_view s))" arbitrary: s)
  case 0
  then have "cons_e s = cons_w s" by (simp add: cons_view_empty)
  then have "cons_kill_line (acq l s) = Done () (acq l s)" by (subst cons_kill_line.simps) simp
  moreover have "cons_view s = (fst (cons_view s), [])" using 0(1) by (simp add: prod_eq_iff)
  moreover have "tty_edit s s" using tty_edit_cons(1) [of s "cons_e s"] by simp
  ultimately show ?case using 0(4) by blast
next
  case (Suc n)
  let ?u = "s\<lparr>cons_e := cons_e s - 1\<rparr>"
  have ne: "cons_e s \<noteq> cons_w s" using Suc.hyps(2) Suc.prems(3) by (auto simp: cons_view_empty)
  note er = cons_erase [OF Suc.prems(3) ne]
  have "snd (cons_view s) \<noteq> []" using Suc.hyps(2) by auto
  then have nl: "cons_buf s (unat (cons_e s - 1) mod INPUT_BUF) \<noteq> 10" using Suc.prems(3) last_in_set by (force simp: er(3) cons_ok_def)
  have u: "tty_edit s ?u" by (rule tty_edit_cons)
  have "tx_idle (3 * n + 3) ?u" using Suc.prems(4) Suc.hyps(2) by (simp add: tx_idle_def)
  then obtain v where v: "consputc BACKSPACE (acq l ?u) = Done () (acq l v)" "tty_out ?u v" "tx_idle (3 * n) v"
    using consputc_acq [of ?u "3 * n" BACKSPACE l] Suc.prems(1,2) tty_edit_keeps [OF u] by blast
  have sv: "tty_edit s v" using u tty_edit_out [OF v(2)] by (rule tty_edit_trans)
  have vv: "cons_view v = (fst (cons_view s), butlast (snd (cons_view s)))" "cons_ok v" using er(1,2) tty_out_cons(1,2) [OF v(2)] by simp_all
  then have n: "n = length (snd (cons_view v))" using Suc.hyps(2) by simp
  obtain t where "cons_kill_line (acq l v) = Done () (acq l t)" "tty_edit v t" "cons_ok t" "cons_view t = (fst (cons_view s), [])"
    using Suc.hyps(1) [OF n] Suc.prems(1,2) tty_edit_keeps [OF sv] vv v(3) n by auto
  moreover have "cons_kill_line (acq l s) = cons_kill_line (acq l v)"
    using ne nl v(1) by (subst cons_kill_line.simps) simp
  ultimately show ?case using tty_edit_trans [OF sv] by auto
qed

lemma cons_room: "cons_ok s \<Longrightarrow> cons_e s - cons_r s < 128 \<longleftrightarrow> length (fst (cons_view s)) + length (snd (cons_view s)) < INPUT_BUF"
  by (auto simp: cons_view_def cons_queue_def cons_ok_def word_less_nat_alt)

lemma cons_type:
  assumes "cons_ok s" and "length (fst (cons_view s)) + length (snd (cons_view s)) < INPUT_BUF"
  defines "n \<equiv> length (fst (cons_view s)) + length (snd (cons_view s))"
  shows "cons_view (cons_put c s) = (fst (cons_view s), snd (cons_view s) @ [c])"
    and "cons_e (cons_put c s) = cons_r (cons_put c s) + 128 \<longleftrightarrow> Suc n = INPUT_BUF"
    and "c \<noteq> 10 \<Longrightarrow> Suc n \<noteq> INPUT_BUF \<Longrightarrow> cons_ok (cons_put c s)"
    and "cons_view ((cons_put c s)\<lparr>cons_w := cons_e (cons_put c s)\<rparr>) = (fst (cons_view s) @ snd (cons_view s) @ [c], [])"
    and "cons_ok ((cons_put c s)\<lparr>cons_w := cons_e (cons_put c s)\<rparr>)"
proof -
  let ?w = "unat (cons_w s - cons_r s)" and ?t = "cons_put c s"
  have len: "length (cons_queue s) = n" "n = unat (cons_e s - cons_r s)" "?w \<le> n"
    using assms(1) by (auto simp: n_def cons_view_def cons_queue_def cons_ok_def)
  have q: "cons_queue ?t = cons_queue s @ [c]" using assms(2) len(1) by (intro cons_put_queue) (simp add: n_def)
  have f: "cons_w ?t = cons_w s" "cons_r ?t = cons_r s" by (simp_all add: cons_put_def)
  have e: "unat (cons_e ?t - cons_r ?t) = Suc n" using q len(1) by (metis cons_queue_def length_append_singleton length_ring_queue)
  show v: "cons_view ?t = (fst (cons_view s), snd (cons_view s) @ [c])" unfolding cons_view_def q f using len by simp
  show "cons_e ?t = cons_r ?t + 128 \<longleftrightarrow> Suc n = INPUT_BUF" using cons_ring.full [of ?t] e by simp
  show "cons_ok ?t" if "c \<noteq> 10" "Suc n \<noteq> INPUT_BUF"
    using assms(1,2) that len unfolding cons_ok_def v e unfolding f by (auto simp: n_def)
  let ?u = "?t\<lparr>cons_w := cons_e ?t\<rparr>"
  have qu: "cons_queue ?u = cons_queue s @ [c]" using q by (simp add: cons_queue_def)
  have "cons_queue s = fst (cons_view s) @ snd (cons_view s)" by (simp add: cons_view_def)
  then show vu: "cons_view ?u = (fst (cons_view s) @ snd (cons_view s) @ [c], [])"
    using len(1) e unfolding cons_view_def [of ?u] qu by simp
  show "cons_ok ?u" unfolding cons_ok_def vu using e assms(2) by (simp add: n_def)
qed

text \<open>\<open>t\<close> is \<open>s\<close> but for the console, what went over the line, and processes that have been woken up.\<close>

lemma wakeup_acq:
  assumes "hart_ok s" and "procs_free (acq l s)"
  shows "\<exists>P. wakeup ch (acq l s) = Done () (acq l (s\<lparr>procs := P\<rparr>))"
proof -
  let ?P = "woken ch (cpu_proc (mycpu s)) {..<NPROC} (procs s)"
  have "wakeup ch (acq l s) = Done () (settle (acq l (s\<lparr>procs := ?P\<rparr>)))" using assms wakeup_wakes [of "acq l s" ch] by simp
  also have "settle (acq l (s\<lparr>procs := ?P\<rparr>)) = acq l (s\<lparr>procs := ?P\<rparr>)" using assms(1) by (intro settle_acq) simp
  finally show ?thesis by blast
qed

lemma type_key_default:
  assumes "c \<noteq> 21" and "c \<noteq> 8" and "c \<noteq> 127" and "c \<noteq> 0" and "length (fst v) + length (snd v) < INPUT_BUF" and "d = (if c = 13 then 10 else c)"
  shows "type_key c v = (if d = 10 \<or> d = 4 \<or> Suc (length (fst v) + length (snd v)) = INPUT_BUF
    then (fst v @ snd v @ [word_of_int d], []) else (fst v, snd v @ [word_of_int d]))"
  using assms by (cases v) (simp add: type_key_def Let_def)

lemma consoleintr_default_acq:
  assumes "hart_ok s" and "procs_free (acq l s)" and "\<not> panicked s" and "cons_ok s" and "tx_idle 3 s"
    and "c \<noteq> 21" and "c \<noteq> 8" and "c \<noteq> 127" and "0 \<le> c" and "c < 256"
  shows "\<exists>t P. consoleintr_default c (acq l s) = Done () (acq l (t\<lparr>procs := P\<rparr>)) \<and> tty_edit s t \<and> cons_ok t \<and> cons_view t = type_key c (cons_view s)"
proof (cases "c = 0 \<or> INPUT_BUF \<le> length (fst (cons_view s)) + length (snd (cons_view s))")
  case True
  then have "consoleintr_default c (acq l s) = Done () (acq l (s\<lparr>procs := procs s\<rparr>))"
    using cons_room [OF assms(4)] by (auto simp: consoleintr_default_def)
  moreover have "type_key c (cons_view s) = cons_view s" using True assms(6-8) by (auto simp: type_key_def split: prod.splits)
  moreover have "tty_edit s s" using tty_edit_cons(1) [of s "cons_e s"] by simp
  ultimately show ?thesis using assms(4) by (intro exI [of _ s] exI [of _ "procs s"]) simp
next
  case False
  obtain d where d: "d = (if c = 13 then 10 else c)" by simp
  let ?n = "length (fst (cons_view s)) + length (snd (cons_view s))"
  from consputc_acq [of s 0 d l] assms obtain u where u: "consputc d (acq l s) = Done () (acq l u)" "tty_out s u" by auto
  note k = tty_out_keeps [OF u(2)] and cu = tty_out_cons [OF u(2)]
  have ok: "cons_ok u" and room: "length (fst (cons_view u)) + length (snd (cons_view u)) < INPUT_BUF" using False assms(4) cu by simp_all
  obtain b :: uint8 where b: "b = word_of_int d" by simp
  note ty = cons_type [OF ok room, of b, unfolded cu(1)]
  have key: "type_key c (cons_view s) = (if d = 10 \<or> d = 4 \<or> Suc ?n = INPUT_BUF
      then (fst (cons_view s) @ snd (cons_view s) @ [b], []) else (fst (cons_view s), snd (cons_view s) @ [b]))"
    using False assms(6-8) d unfolding b by (intro type_key_default) simp_all
  have su: "tty_edit s u" using u(2) by (rule tty_edit_out)
  have run: "consoleintr_default c (acq l s) = (if d = 10 \<or> d = 4 \<or> Suc ?n = INPUT_BUF
       then wakeup (Some ChConsR) (acq l ((cons_put b u)\<lparr>cons_w := cons_e (cons_put b u)\<rparr>)) else Done () (acq l (cons_put b u)))"
    using False cons_room [OF assms(4)] u(1) ty(2) by (simp add: consoleintr_default_def Let_def d [symmetric] b [symmetric])
  show ?thesis
  proof (cases "d = 10 \<or> d = 4 \<or> Suc ?n = INPUT_BUF")
    case True
    let ?t = "(cons_put b u)\<lparr>cons_w := cons_e (cons_put b u)\<rparr>"
    have st: "tty_edit s ?t" using su tty_edit_cons(3) by (rule tty_edit_trans)
    have "hart_ok ?t" "procs_free (acq l ?t)" using tty_edit_keeps [OF st] assms(1,2) by (simp_all add: procs_free_def)
    from wakeup_acq [OF this, of "Some ChConsR"] obtain P where "wakeup (Some ChConsR) (acq l ?t) = Done () (acq l (?t\<lparr>procs := P\<rparr>))" by blast
    with run True key st ty(4,5) show ?thesis by (intro exI [of _ ?t] exI [of _ P]) simp
  next
    case no: False
    have "uint b = d" using assms(9,10) by (simp add: b d uint_word_of_int)
    with no have "b \<noteq> 10" by auto
    with no run key ty(1,3) tty_edit_trans [OF su tty_edit_cons(2) [of u b]] show ?thesis
      by (intro exI [of _ "cons_put b u"] exI [of _ "procs (cons_put b u)"]) simp
  qed
qed

text \<open>The \<open>switch\<close> of \<open>consoleintr\<close>, with control-P left out.\<close>

lemma consoleintr_switch:
  assumes "hart_ok s" and "procs_free (acq l s)" and "\<not> panicked s" and "cons_ok s" and "tx_idle 384 s" and "0 \<le> c" and "c < 256"
  shows "\<exists>t P. (if c = 21 then cons_kill_line (acq l s)
      else if c = 8 \<or> c = 127 then if cons_e s \<noteq> cons_w s then consputc BACKSPACE (acq l (s\<lparr>cons_e := cons_e s - 1\<rparr>)) else Done () (acq l s)
      else consoleintr_default c (acq l s)) = Done () (acq l (t\<lparr>procs := P\<rparr>)) \<and> tty_edit s t \<and> cons_ok t \<and> cons_view t = type_key c (cons_view s)"
proof -
  have line: "length (snd (cons_view s)) \<le> 128" using assms(4) by (auto simp: cons_view_def cons_queue_def cons_ok_def)
  have idle: "tx_idle n s" if "n \<le> 384" for n using assms(5) that by (simp add: tx_idle_def)
  consider "c = 21" | "c = 8 \<or> c = 127" "cons_e s \<noteq> cons_w s" | "c = 8 \<or> c = 127" "cons_e s = cons_w s" | "c \<noteq> 21" "c \<noteq> 8" "c \<noteq> 127" by blast
  then show ?thesis
  proof cases
    case 1
    from cons_kill_line_acq [OF assms(1,3,4) idle, of l] line obtain t where "cons_kill_line (acq l s) = Done () (acq l t)"
      "tty_edit s t" "cons_ok t" "cons_view t = (fst (cons_view s), [])" by auto
    with 1 show ?thesis by (intro exI [of _ t] exI [of _ "procs t"]) (simp add: type_key_def split: prod.splits)
  next
    case 2
    let ?u = "s\<lparr>cons_e := cons_e s - 1\<rparr>"
    have u: "tty_edit s ?u" by (rule tty_edit_cons)
    have "tx_idle (0 + 3) ?u" using idle [of 3] by (simp add: tx_idle_def)
    then obtain t where t: "consputc BACKSPACE (acq l ?u) = Done () (acq l t)" "tty_out ?u t"
      using consputc_acq [of ?u 0 BACKSPACE l] assms(1,3) tty_edit_keeps [OF u] by blast
    from cons_erase [OF assms(4) 2(2)] tty_out_cons [OF t(2)] 2(1) t(1) tty_edit_trans [OF u tty_edit_out [OF t(2)]] 2(2) show ?thesis
      by (intro exI [of _ t] exI [of _ "procs t"]) (auto simp: type_key_def split: prod.splits)
  next
    case 3
    have "tty_edit s s" using tty_edit_cons(1) [of s "cons_e s"] by simp
    with 3 assms(4) cons_view_empty [OF assms(4)] show ?thesis
      by (intro exI [of _ s] exI [of _ "procs s"]) (auto simp: type_key_def split: prod.splits)
  next
    case 4
    with consoleintr_default_acq [OF assms(1-4) idle _ _ _ assms(6,7)] show ?thesis by simp
  qed
qed

text \<open>C11. The console's interrupt handler is a line editor. While the transmitter keeps up with the echo, every key but
  control-P (16), which prints the process table, acts on the completed lines and the line being typed
  as \<open>type_key\<close> says: the ring buffer with its three wrapping indices implements the two lists, nothing that was
  completed is lost or reordered, erasing never reaches into completed input, and at most 128 bytes are held.\<close>

theorem consoleintr_refines_line_editor:
  assumes "calm s" and "\<not> panicked s" and "cons_ok s" and "tx_idle 384 s" and "0 \<le> c" and "c < 256" and "c \<noteq> 16"
  shows "yields (consoleintr c s) (\<lambda>_ t. cons_ok t \<and> cons_view t = type_key c (cons_view s) \<and>
    length (fst (cons_view t)) + length (snd (cons_view t)) \<le> INPUT_BUF)"
proof -
  note h = calmD [OF assms(1)]
  let ?l = ConsLock
  have "procs_free (acq ?l s)" using h(2) by (auto simp: procs_free_def)
  note sw = consoleintr_switch [OF h(1) this assms(2-6)]
  have "consoleintr c s = obind (if c = 21 then cons_kill_line (acq ?l s)
      else if c = 8 \<or> c = 127 then if cons_e s \<noteq> cons_w s then consputc BACKSPACE (acq ?l (s\<lparr>cons_e := cons_e s - 1\<rparr>)) else Done () (acq ?l s)
      else consoleintr_default c (acq ?l s)) (\<lambda>_. release ?l)"
    using h(2) [of ?l] assms(7) by (simp add: consoleintr_def acquire_free Let_def cong: if_cong)
  with sw obtain t P where t: "consoleintr c s = release ?l (acq ?l (t\<lparr>procs := P\<rparr>))" "tty_edit s t" "cons_ok t" "cons_view t = type_key c (cons_view s)"
    by force
  have "hart_ok (t\<lparr>procs := P\<rparr>)" "lock_free ?l (t\<lparr>procs := P\<rparr>)" using tty_edit_keeps [OF t(2)] h by simp_all
  then have "consoleintr c s = Done () (settle (t\<lparr>procs := P\<rparr>))" unfolding t(1) by (rule release_acq)
  moreover have "cons_view (settle (t\<lparr>procs := P\<rparr>)) = cons_view t" "cons_ok (settle (t\<lparr>procs := P\<rparr>)) = cons_ok t"
    by (simp_all add: settle_def cons_view_def cons_queue_def cons_ok_def)
  moreover have "length (fst (cons_view t)) + length (snd (cons_view t)) \<le> INPUT_BUF" using t(3) by (auto simp: cons_view_def cons_queue_def cons_ok_def)
  ultimately show ?thesis using t(3,4) by simp
qed

theorem consoleintr_refines_line_editor_witness:
  "\<exists>t. consoleintr 104 (bss1\<lparr>uart_lsr := replicate 384 LSR_TX_IDLE\<rparr>) = Done () t \<and> cons_view t = ([], [104])"
proof -
  let ?s = "bss1\<lparr>uart_lsr := replicate 384 LSR_TX_IDLE\<rparr>"
  have "calm ?s" using calm_bss1 by (simp add: calm_def hart_ok_def lock_free_def mycpu_def intr_get_def)
  moreover have v: "cons_view ?s = ([], [])" by (simp add: cons_view_def cons_queue_def ring_queue_def bss1_def bss_def)
  moreover have "cons_ok ?s" unfolding cons_ok_def v by (simp add: bss1_def bss_def)
  moreover have "\<not> panicked ?s" "tx_idle 384 ?s" by (simp_all add: bss1_def bss_def tx_idle_def)
  ultimately have "yields (consoleintr 104 ?s) (\<lambda>_ t. cons_ok t \<and> cons_view t = type_key 104 (cons_view ?s) \<and>
    length (fst (cons_view t)) + length (snd (cons_view t)) \<le> INPUT_BUF)" by (intro consoleintr_refines_line_editor) simp_all
  then show ?thesis unfolding v by (auto simp: yields_iff type_key_def)
qed

end
