(* ===== verification/Getprocs.thy ===== *)
theory Getprocs
  imports Tty
begin

unbundle bit_operations_syntax

text \<open>
  The system call \<open>getprocs\<close> (\<open>procinfo\<close> of \<open>kernel/proc.c\<close>, \<open>sys_getprocs\<close> of \<open>kernel/sysproc.c\<close>) and the
  output of \<open>kernel/printf.c\<close> on the serial line.
\<close>

section \<open>Output of plain text\<close>

text \<open>\<open>bs\<close> has been sent, and nothing else has changed but the status register's coming answers.\<close>

definition sent :: "uint8 list \<Rightarrow> ('a) uart_scheme \<Rightarrow> ('a) uart_scheme \<Rightarrow> bool" where
  "sent bs s t \<longleftrightarrow> (\<exists>lsr. t = s\<lparr>uart_lsr := lsr, uart_out := uart_out s @ map (Pair THR) bs\<rparr>)"

lemma sent_trans: "sent bs s t \<Longrightarrow> sent cs t u \<Longrightarrow> sent (bs @ cs) s u"
  by (auto simp: sent_def)

lemma sent_nil: "sent [] s s"
  unfolding sent_def by (rule exI [of _ "uart_lsr s"]) simp

lemma sent_keeps:
  assumes "sent bs s t"
  shows "hart_ok t = hart_ok s" and "lock_free l t = lock_free l s" and "mycpu t = mycpu s" and "procs t = procs s" and "panicked t = panicked s"
  using assms by (auto simp: sent_def hart_ok_def lock_free_def mycpu_def intr_get_def)

lemma sent_pr: "sent bs s t \<Longrightarrow> pr_locking t = pr_locking s"
  by (auto simp: sent_def)

lemma sent_settle: "sent bs (settle s) t \<Longrightarrow> \<exists>u. t = settle u \<and> sent bs s u"
  unfolding sent_def
  by (elim exE, rule_tac x = "s\<lparr>uart_lsr := lsr, uart_out := uart_out s @ map (Pair THR) bs\<rparr>" in exI)
    (auto simp: settle_def mycpu_def intr_get_def)

lemma uart_pr_settle [simp]:
  "uart_lsr (settle s) = uart_lsr s" "panicked (settle s) = panicked s" "tx_idle n (settle s) = tx_idle n s" "pr_locking (settle s') = pr_locking s'"
  by (simp_all add: settle_def tx_idle_def)

lemma consputc_sends:
  assumes "hart_ok s" and "\<not> panicked s" and "tx_idle (Suc n) s"
  shows "\<exists>t. consputc (uint (c :: uint8)) (acq l s) = Done () (acq l t) \<and> sent [c] s t \<and> tx_idle n t"
proof -
  from tx_wait_idle [of n "uart_lsr s"] assms(3) obtain ws where ws: "tx_wait (uart_lsr s) = Some ws" "n \<le> length (filter (\<lambda>v. v AND LSR_TX_IDLE \<noteq> 0) ws)"
    by (auto simp: tx_idle_def)
  let ?t = "s\<lparr>uart_lsr := ws, uart_out := uart_out s @ [(THR, c)]\<rparr>"
  have p: "WriteReg THR c ((pushed (acq l s))\<lparr>uart_lsr := ws\<rparr>) = pushed (acq l ?t)"
    by (simp add: WriteReg_def pushed_def acq_def mycpu_def intr_get_def)
  have "hart_ok ?t" using assms(1) by (simp add: hart_ok_def mycpu_def intr_get_def)
  then have "pop_off (pushed (acq l ?t)) = Done () (acq l ?t)" by (simp add: pop_off_pushed)
  moreover have "uart_lsr (pushed (acq l s)) = uart_lsr s" "panicked (pushed (acq l s)) = panicked s" by (simp_all add: pushed_def acq_def)
  ultimately have "uartputc_sync c (acq l s) = Done () (acq l ?t)" using ws(1) assms(2) p by (simp add: uartputc_sync_def push_off_eq Let_def)
  moreover have "uint c \<noteq> BACKSPACE" using uint_lt2p [of c] by simp
  ultimately show ?thesis using ws(2) by (intro exI [of _ ?t]) (auto simp: consputc_def sent_def tx_idle_def)
qed

text \<open>A format without \<open>%\<close> and NUL is sent as it is.\<close>

lemma printf_loop_plain:
  assumes "hart_ok s" and "\<not> panicked s" and "tx_idle (length bs + n) s" and "0 \<notin> set bs" and "37 \<notin> set bs"
  shows "\<exists>t. printf_loop bs ap (acq l s) = Done () (acq l t) \<and> sent bs s t \<and> tx_idle n t"
  using assms
proof (induction bs arbitrary: s)
  case Nil
  then show ?case using sent_nil by auto
next
  case (Cons c bs)
  from consputc_sends [of s "length bs + n" c l] Cons.prems obtain t where
    t: "consputc (uint c) (acq l s) = Done () (acq l t)" "sent [c] s t" "tx_idle (length bs + n) t" by auto
  have "hart_ok t" "\<not> panicked t" using Cons.prems(1,2) sent_keeps [OF t(2)] by simp_all
  from Cons.IH [OF this t(3)] Cons.prems(4,5) obtain u where
    u: "printf_loop bs ap (acq l t) = Done () (acq l u)" "sent bs t u" "tx_idle n u" by auto
  have "printf_loop (c # bs) ap (acq l s) = printf_loop bs ap (acq l t)"
    using Cons.prems(4,5) t(1) by (cases bs) auto
  with u t(2) show ?case using sent_trans [of "[c]" s t bs u] by auto
qed

lemma printf_plain:
  assumes "hart_ok s" and "\<not> panicked s" and "pr_locking s" and "lock_free PrLock s"
    and "tx_idle (length fmt + n) s" and "0 \<notin> set (bytes fmt)" and "37 \<notin> set (bytes fmt)"
  shows "\<exists>t. printf fmt ap s = Done () (settle t) \<and> sent (bytes fmt) s t \<and> tx_idle n t"
proof -
  have "tx_idle (length (bytes fmt) + n) s" using assms(5) by (simp add: bytes_def)
  from printf_loop_plain [OF assms(1,2) this assms(6,7)] obtain t where
    t: "printf_loop (bytes fmt) ap (acq PrLock s) = Done () (acq PrLock t)" "sent (bytes fmt) s t" "tx_idle n t" by blast
  have "hart_ok t" "lock_free PrLock t" using assms(1,4) sent_keeps [OF t(2)] by simp_all
  with t assms(3,4) show ?thesis by (intro exI [of _ t]) (simp add: printf_def Let_def acquire_free release_acq)
qed

section \<open>getprocs\<close>

text \<open>The processes that \<open>procinfo\<close> counts, in the order of the table: \<open>states\<close> has no name for \<open>USED\<close>.\<close>

definition shown :: "(nat \<Rightarrow> proc) \<Rightarrow> nat \<Rightarrow> bool" where
  "shown P p \<longleftrightarrow> p_state (P p) \<noteq> UNUSED \<and> p_state (P p) \<noteq> USED"

definition listed :: "(nat \<Rightarrow> proc) \<Rightarrow> nat list" where
  "listed P = filter (shown P) [0..<NPROC]"

definition chatter :: "nat \<Rightarrow> uint8 list" where
  "chatter n = concat (replicate n (bytes ''Start assignmentAssignment done''))"

lemma shown_states: "shown P p \<longleftrightarrow> \<not> (p_state (P p) = UNUSED \<or> states (p_state (P p)) = None)"
  by (cases "p_state (P p)") (simp_all add: shown_def)

lemma copyout_none: "copyout pt va src 0 s = Done 0 s"
  by (subst copyout.simps) simp

lemma printf_settled:
  assumes "hart_ok s" and "\<not> panicked s" and "pr_locking s" and "lock_free PrLock s"
    and "tx_idle (length fmt + n) s" and "0 \<notin> set (bytes fmt)" and "37 \<notin> set (bytes fmt)"
  obtains t where "printf fmt ap (settle s) = Done () (settle t)" and "sent (bytes fmt) s t" and "tx_idle n t"
    and "hart_ok t" and "\<not> panicked t" and "pr_locking t" and "lock_free PrLock t" and "procs t = procs s"
proof -
  from printf_plain [of "settle s" fmt n ap] assms obtain u where
    u: "printf fmt ap (settle s) = Done () (settle u)" "sent (bytes fmt) (settle s) u" "tx_idle n u" by auto
  from sent_settle [OF u(2)] obtain t where t: "u = settle t" "sent (bytes fmt) s t" by blast
  show thesis
    using u t(1) assms sent_keeps [OF t(2)] sent_pr [OF t(2)] by (intro that [OF _ t(2)]) simp_all
qed

text \<open>The part of the loop body up to the copy, for a process that is shown.\<close>

lemma procinfo_step:
  assumes "hart_ok s" and "\<not> panicked s" and "pr_locking s" and "lock_free PrLock s" and "tx_idle (31 + n) s"
    and "shown (procs s) p"
  obtains t where "sent (chatter 1) s t" and "tx_idle n t"
    and "procinfo_loop g it (Some q) (p # ps) counter (settle s) =
      (if counter \<noteq> 0 \<and> p_parent (procs s p) = None then Panic ''kerneltrap''
       else procinfo_loop g it (Some q) ps (counter + 1) (settle t))"
proof -
  have plain: "0 \<notin> set (bytes ''Start assignment'')" "37 \<notin> set (bytes ''Start assignment'')"
    "0 \<notin> set (bytes ''Assignment done'')" "37 \<notin> set (bytes ''Assignment done'')" by (simp_all add: bytes_def)
  have idle: "tx_idle (length ''Start assignment'' + (15 + n)) s" using assms(5) by (simp add: tx_idle_def)
  obtain u where u: "printf ''Start assignment'' [] (settle s) = Done () (settle u)" "sent (bytes ''Start assignment'') s u" "tx_idle (15 + n) u"
    "hart_ok u" "\<not> panicked u" "pr_locking u" "lock_free PrLock u" "procs u = procs s"
    by (rule printf_settled [OF assms(1-4) idle plain(1,2)])
  have idle: "tx_idle (length ''Assignment done'' + n) u" using u(3) by (simp add: tx_idle_def)
  obtain t where t: "printf ''Assignment done'' [] (settle u) = Done () (settle t)" "sent (bytes ''Assignment done'') u t" "tx_idle n t"
    by (rule printf_settled [OF u(4-7) idle plain(3,4)])
  have "sent (chatter 1) s t" using sent_trans [OF u(2) t(2)] by (simp add: chatter_def bytes_def)
  moreover have "procinfo_loop g it (Some q) (p # ps) counter (settle s) =
      (if counter \<noteq> 0 \<and> p_parent (procs s p) = None then Panic ''kerneltrap''
       else procinfo_loop g it (Some q) ps (counter + 1) (settle t))"
    using assms(6) u(1,8) t(1)
    by (cases "p_parent (procs s p)") (auto simp: shown_states Let_def copyout_none)
  ultimately show thesis using t(3) by (intro that)
qed

lemma procinfo_loop_eq:
  assumes "hart_ok s" and "\<not> panicked s" and "pr_locking s" and "lock_free PrLock s"
    and "tx_idle (31 * length (filter (shown (procs s)) ps)) s" and "k + length ps < 2 ^ 31"
  shows "\<exists>t. sent (chatter (length (filter (shown (procs s)) ps))) s t \<and>
    procinfo_loop g it (Some q) ps (of_nat k) (settle s) =
      (if \<exists>p \<in> set ((if k = 0 then tl else id) (filter (shown (procs s)) ps)). p_parent (procs s p) = None
       then Panic ''kerneltrap'' else Done (of_nat (k + length (filter (shown (procs s)) ps))) (settle t))"
  using assms
proof (induction ps arbitrary: k s)
  case Nil
  then show ?case using sent_nil by (auto simp: chatter_def)
next
  case (Cons p ps)
  show ?case
  proof (cases "shown (procs s) p")
    case False
    then have "procinfo_loop g it (Some q) (p # ps) (of_nat k) (settle s) = procinfo_loop g it (Some q) ps (of_nat k) (settle s)"
      unfolding shown_states by simp
    moreover have "filter (shown (procs s)) (p # ps) = filter (shown (procs s)) ps" using False by simp
    ultimately show ?thesis using Cons.IH [of s k] Cons.prems by (simp only:) simp
  next
    case True
    let ?n = "length (filter (shown (procs s)) ps)"
    from True Cons.prems(5) have "tx_idle (31 + 31 * ?n) s" by simp
    from procinfo_step [OF Cons.prems(1-4) this True] obtain t where
      t: "sent (chatter 1) s t" "tx_idle (31 * ?n) t"
      "procinfo_loop g it (Some q) (p # ps) (of_nat k) (settle s) =
        (if (of_nat k :: uint32) \<noteq> 0 \<and> p_parent (procs s p) = None then Panic ''kerneltrap''
         else procinfo_loop g it (Some q) ps (of_nat k + 1) (settle t))" by blast
    note same = sent_keeps [OF t(1)] sent_pr [OF t(1)]
    have nx: "of_nat (Suc k) = (of_nat k + 1 :: uint32)" by simp
    have "hart_ok t" "\<not> panicked t" "pr_locking t" "lock_free PrLock t" "Suc k + length ps < 2 ^ 31"
      using Cons.prems same by simp_all
    from Cons.IH [OF this(1-4) _ this(5), unfolded same(4) nx, OF t(2)] obtain u where
      u: "sent (chatter ?n) t u"
      "procinfo_loop g it (Some q) ps (of_nat k + 1) (settle t) =
        (if \<exists>p \<in> set (filter (shown (procs s)) ps). p_parent (procs s p) = None
         then Panic ''kerneltrap'' else Done (of_nat (Suc k + ?n)) (settle u))" by auto
    have "(of_nat k :: uint32) \<noteq> 0 \<longleftrightarrow> k \<noteq> 0"
      using Cons.prems(6) by (cases "k = 0") (auto simp: word_of_nat_eq_0_iff dest: dvd_imp_le)
    moreover have "sent (chatter (Suc ?n)) s u" using sent_trans [OF t(1) u(1)] by (simp add: chatter_def)
    ultimately show ?thesis using True t(3) u(2) by (intro exI [of _ u]) auto
  qed
qed


definition two_procs :: trapst where
  "two_procs = bss1\<lparr>procs := (procs bss1)(1 := zero_proc\<lparr>p_state := SLEEPING, p_pid := 2, p_parent := Some 0\<rparr>),
     pr_locking := True, uart_lsr := replicate 62 0x20\<rparr>"

lemma listed_two_procs: "listed (procs two_procs) = [0, 1]"
proof -
  have "[0..<NPROC] = 0 # 1 # [2..<64]" by (simp add: upt_conv_Cons)
  moreover have "filter (shown (procs two_procs)) [2..<64] = []"
    by (auto simp: filter_empty_conv two_procs_def bss1_def shown_def zero_proc_def)
  ultimately show ?thesis by (simp add: listed_def) (simp add: two_procs_def bss1_def shown_def zero_proc_def)
qed


end
