(* ===== verification/User_Sys.thy ===== *)
theory User_Sys
  imports C_String "HOL-Library.Sublist"
begin

text \<open>
  The interface of a user program to the kernel (\<open>user/user.h\<close>, \<open>user/usys.pl\<close>). A program runs against a list of
  answers, the beginning of what the kernel will answer to its system calls; the calls it has made are recorded
  in order, each with its answer. A program that has used up the answers is inside its last system call: the outcome \<open>Switch\<close>. The
  calls \<open>exit\<close> and a successful \<open>exec\<close> stay there for ever. An access outside of an object is the outcome
  \<open>Panic\<close>. Theorems about programs hold for every list of answers, that is whatever the kernel does and
  other processes do in the meantime.
\<close>

section \<open>System calls\<close>

type_synonym cstring = "uint8 list"

datatype ucall =
    C_fork | C_exit int | C_wait | C_pipe | C_read int nat | C_write int "uint8 list" | C_close int | C_kill int
  | C_exec cstring "cstring list" | C_open cstring nat | C_mknod cstring int int | C_unlink cstring | C_fstat int
  | C_link cstring cstring | C_mkdir cstring | C_chdir cstring | C_dup int | C_getpid | C_sbrk int | C_sleep int
  | C_uptime | C_getprocs

text \<open>An answer: the value returned, and the bytes the kernel has copied out to the program.\<close>

record answer =
  ret :: int
  out :: "uint8 list"

record usys =
  calls :: "(ucall \<times> answer option) list"
  answers :: "answer list"

definition ecall :: "ucall \<Rightarrow> ('a) usys_scheme \<Rightarrow> (answer, ('a) usys_scheme) outcome" where
  "ecall c s =
     (case answers s of
        [] \<Rightarrow> Switch (s\<lparr>calls := calls s @ [(c, None)]\<rparr>)
      | a # as \<Rightarrow> Done a (s\<lparr>calls := calls s @ [(c, Some a)], answers := as\<rparr>))"

text \<open>A call of which the program only sees the return value.\<close>

definition icall :: "ucall \<Rightarrow> ('a) usys_scheme \<Rightarrow> (int, ('a) usys_scheme) outcome" where
  "icall c s = obind (ecall c s) (\<lambda>a s. Done (ret a) s)"

abbreviation fork_call :: "('a) usys_scheme \<Rightarrow> (int, ('a) usys_scheme) outcome" where "fork_call \<equiv> icall C_fork"
abbreviation wait_call :: "('a) usys_scheme \<Rightarrow> (int, ('a) usys_scheme) outcome" where "wait_call \<equiv> icall C_wait"
abbreviation write_call :: "int \<Rightarrow> uint8 list \<Rightarrow> ('a) usys_scheme \<Rightarrow> (int, ('a) usys_scheme) outcome" where "write_call fd bs \<equiv> icall (C_write fd bs)"
abbreviation close_call :: "int \<Rightarrow> ('a) usys_scheme \<Rightarrow> (int, ('a) usys_scheme) outcome" where "close_call fd \<equiv> icall (C_close fd)"
abbreviation open_call :: "cstring \<Rightarrow> nat \<Rightarrow> ('a) usys_scheme \<Rightarrow> (int, ('a) usys_scheme) outcome" where "open_call path mode \<equiv> icall (C_open path mode)"

text \<open>
  The kernel never returns from \<open>exit\<close>. \<open>read\<close> returns the number of bytes copied to the buffer, at most as many as
  were asked for, or a negative number.
\<close>

definition exit_call :: "int \<Rightarrow> ('a) usys_scheme \<Rightarrow> ('b, ('a) usys_scheme) outcome" where
  "exit_call status s = Switch (s\<lparr>calls := calls s @ [(C_exit status, None)]\<rparr>)"

definition read_call :: "int \<Rightarrow> nat \<Rightarrow> ('a) usys_scheme \<Rightarrow> (int \<times> uint8 list, ('a) usys_scheme) outcome" where
  "read_call fd n s =
     obind (ecall (C_read fd n) s) (\<lambda>a s.
     if ret a < 0 then Done (ret a, []) s
     else Done (int (length (take n (out a))), take n (out a)) s)"

text \<open>An access that fails stops the program.\<close>

definition inside :: "'b option \<Rightarrow> 's \<Rightarrow> ('b, 's) outcome" where
  "inside x s = (case x of None \<Rightarrow> Panic ''access outside of an object'' | Some y \<Rightarrow> Done y s)"

section \<open>Laws\<close>

lemma inside_Some [simp]: "inside (Some y) s = Done y s"
  by (simp add: inside_def)

lemma inside_Done [simp]: "inside x s = Done y t \<longleftrightarrow> x = Some y \<and> t = s"
  by (auto simp: inside_def split: option.split)

lemma exit_not_Done [simp]: "exit_call n s \<noteq> Done y t"
  by (simp add: exit_call_def)

text \<open>Every call uses up one answer, so a loop that makes a call in every round ends.\<close>

lemma ecall_Done: "ecall c s = Done a t \<Longrightarrow> \<exists>as. answers s = a # as \<and> t = s\<lparr>calls := calls s @ [(c, Some a)], answers := as\<rparr>"
  by (auto simp: ecall_def split: list.splits)

lemma icall_Done: "icall c s = Done r t \<Longrightarrow> length (answers t) < length (answers s)"
  by (auto simp: icall_def obind_Done_iff dest!: ecall_Done)

lemma read_Done: "read_call fd n s = Done r t \<Longrightarrow> length (answers t) < length (answers s)"
  unfolding read_call_def obind_Done_iff by (elim exE conjE, drule ecall_Done) (auto split: if_splits)

lemma read_result: "read_call fd n s = Done (r, bs) t \<Longrightarrow> (if r < 0 then bs = [] else r = int (length bs) \<and> length bs \<le> n)"
  by (auto simp: read_call_def obind_Done_iff split: if_splits)

text \<open>A program that returns has not gained answers.\<close>

named_theorems fewer

definition fewer :: "('b, ('a) usys_scheme) outcome \<Rightarrow> ('a) usys_scheme \<Rightarrow> bool" where
  "fewer m s \<longleftrightarrow> (\<forall>r t. m = Done r t \<longrightarrow> length (answers t) \<le> length (answers s))"

lemma fewerD: "fewer m s \<Longrightarrow> m = Done r t \<Longrightarrow> length (answers t) \<le> length (answers s)"
  by (simp add: fewer_def)

lemma fewer_bind: "fewer m s \<Longrightarrow> (\<And>x t. m = Done x t \<Longrightarrow> fewer (f x t) t) \<Longrightarrow> fewer (obind m f) s"
  unfolding fewer_def obind_Done_iff by (blast intro: order_trans)

lemma fewer_basic [fewer]:
  "fewer (Done x s) s" "fewer (Panic msg) s" "fewer (exit_call st s) s" "fewer (inside z s) s" "fewer (ecall c s) s" "fewer (icall c s) s" "fewer (read_call fd n s) s"
  using ecall_Done [of c s] by (fastforce simp: fewer_def exit_call_def dest: icall_Done read_Done)+

lemma fewer_if [fewer]: "(b \<Longrightarrow> fewer m s) \<Longrightarrow> (\<not> b \<Longrightarrow> fewer n s) \<Longrightarrow> fewer (if b then m else n) s"
  by simp

lemma fewer_option [fewer]: "fewer m s \<Longrightarrow> (\<And>x. z = Some x \<Longrightarrow> fewer (f x) s) \<Longrightarrow> fewer (case z of None \<Rightarrow> m | Some x \<Rightarrow> f x) s"
  by (cases z) simp_all

lemma fewer_pair [fewer]: "(\<And>x y. z = (x, y) \<Longrightarrow> fewer (f x y) s) \<Longrightarrow> fewer (case z of (x, y) \<Rightarrow> f x y) s"
  by (cases z) simp

lemma fewer_ofor [fewer]: "(\<And>i t. i \<in> set is \<Longrightarrow> fewer (body i t) t) \<Longrightarrow> fewer (ofor is body s) s"
proof (induction "is" arbitrary: s)
  case (Cons i js)
  then show ?case by (simp add: fewer_bind)
qed (simp add: fewer_def)

text \<open>The bytes written to a file descriptor, and those read from it.\<close>

definition call_out :: "int \<Rightarrow> ucall \<times> answer option \<Rightarrow> uint8 list" where
  "call_out fd ca = (case fst ca of C_write f bs \<Rightarrow> if f = fd then bs else [] | _ \<Rightarrow> [])"

definition call_in :: "int \<Rightarrow> ucall \<times> answer option \<Rightarrow> uint8 list" where
  "call_in fd ca = (case ca of (C_read f n, Some a) \<Rightarrow> if f = fd \<and> 0 \<le> ret a then take n (out a) else [] | _ \<Rightarrow> [])"

definition written :: "int \<Rightarrow> ('a) usys_scheme \<Rightarrow> uint8 list" where
  "written fd s = concat (map (call_out fd) (calls s))"

definition heard :: "int \<Rightarrow> ('a) usys_scheme \<Rightarrow> uint8 list" where
  "heard fd s = concat (map (call_in fd) (calls s))"

text \<open>
  A run that returns with \<open>P\<close>, or stops inside a system call with \<open>Q\<close>; it makes no access outside of an object.
\<close>

fun safely :: "('b, 's) outcome \<Rightarrow> ('b \<Rightarrow> 's \<Rightarrow> bool) \<Rightarrow> ('s \<Rightarrow> bool) \<Rightarrow> bool" where
  "safely (Done x s) P Q = P x s"
| "safely (Switch s) P Q = Q s"
| "safely _ P Q = False"

lemma safely_bind: "safely m P Q \<Longrightarrow> (\<And>x t. P x t \<Longrightarrow> safely (f x t) R Q) \<Longrightarrow> safely (obind m f) R Q"
  by (cases m) auto

lemma safely_mono: "safely m P Q \<Longrightarrow> (\<And>x t. P x t \<Longrightarrow> P' x t) \<Longrightarrow> (\<And>t. Q t \<Longrightarrow> Q' t) \<Longrightarrow> safely m P' Q'"
  by (cases m) auto

lemma safely_then: "safely m P Q' \<Longrightarrow> (\<And>t. Q' t \<Longrightarrow> Q t) \<Longrightarrow> (\<And>x t. m = Done x t \<Longrightarrow> P x t \<Longrightarrow> safely (f x t) R Q) \<Longrightarrow> safely (obind m f) R Q"
  by (cases m) auto

lemma safely_ecall:
  "safely (ecall c s) (\<lambda>a t. calls t = calls s @ [(c, Some a)] \<and> usys.more t = usys.more s \<and> Suc (length (answers t)) = length (answers s)) (\<lambda>t. calls t = calls s @ [(c, None)])"
  by (auto simp: ecall_def split: list.split)

lemma safely_icall:
  "safely (icall c s) (\<lambda>r t. \<exists>a. r = ret a \<and> calls t = calls s @ [(c, Some a)] \<and> usys.more t = usys.more s \<and> Suc (length (answers t)) = length (answers s))
     (\<lambda>t. calls t = calls s @ [(c, None)])"
  unfolding icall_def by (rule safely_bind [OF safely_ecall]) auto

text \<open>A read, and a write, as the bytes they move.\<close>

lemma safely_read:
  "safely (read_call fd n s) (\<lambda>(r, bs) t. heard fd t = heard fd s @ bs \<and> written f t = written f s \<and> length bs \<le> n \<and>
       (\<exists>a. calls t = calls s @ [(C_read fd n, Some a)] \<and> (if ret a < 0 then r = ret a \<and> bs = [] else r = int (length bs) \<and> bs = take n (out a))))
     (\<lambda>t. heard fd t = heard fd s \<and> written f t = written f s)"
  unfolding read_call_def
  by (rule safely_then [OF safely_ecall]) (auto simp: heard_def written_def call_in_def call_out_def)

lemma safely_write:
  "safely (write_call fd bs s) (\<lambda>r t. written fd t = written fd s @ bs \<and> heard f t = heard f s) (\<lambda>t. written fd t = written fd s @ bs \<and> heard f t = heard f s)"
  by (rule safely_mono [OF safely_icall]) (auto simp: heard_def written_def call_in_def call_out_def)

end
