(* ===== verification/Ulib.thy ===== *)
theory Ulib
  imports User_Sys
begin

text \<open>
  The library of the user programs: \<open>user/ulib.c\<close> and \<open>user/printf.c\<close>. A string that is only read is the list of its
  bytes before the NUL; \<open>char_at\<close> reads the NUL at its end. A buffer is the list of all its bytes.
\<close>

section \<open>Strings\<close>

definition char_at :: "cstring \<Rightarrow> uint8" where
  "char_at s = (case s of [] \<Rightarrow> 0 | c # _ \<Rightarrow> c)"

lemma char_at_simps [simp]: "char_at [] = 0" "char_at (c # s) = c"
  by (simp_all add: char_at_def)

text \<open>The string that starts at index \<open>i\<close> of a buffer, and a write at index \<open>i\<close>.\<close>

definition str_at :: "uint8 list \<Rightarrow> nat \<Rightarrow> cstring option" where
  "str_at buf i = (if 0 \<in> set (drop i buf) then Some (cstr (drop i buf)) else None)"

definition put :: "uint8 list \<Rightarrow> nat \<Rightarrow> uint8 \<Rightarrow> uint8 list option" where
  "put buf i c = (if i < length buf then Some (buf[i := c]) else None)"

fun strcpy :: "uint8 list \<Rightarrow> cstring \<Rightarrow> uint8 list option" where
  "strcpy [] t = None"
| "strcpy (_ # s) t =
     (if char_at t \<noteq> 0 then map_option ((#) (char_at t)) (strcpy s (tl t)) else Some (0 # s))"

fun strcmp :: "cstring \<Rightarrow> cstring \<Rightarrow> int" where
  "strcmp [] q = 0 - uint (char_at q)"
| "strcmp (a # p) q = (if a \<noteq> 0 \<and> a = char_at q then strcmp p (tl q) else uint a - uint (char_at q))"

fun strlen_user :: "cstring \<Rightarrow> nat" where
  "strlen_user [] = 0"
| "strlen_user (c # s) = (if c \<noteq> 0 then Suc (strlen_user s) else 0)"

fun memset_user :: "uint8 list \<Rightarrow> uint8 \<Rightarrow> nat \<Rightarrow> uint8 list option" where
  "memset_user dst c 0 = Some dst"
| "memset_user [] c (Suc n) = None"
| "memset_user (_ # dst) c (Suc n) = map_option ((#) c) (memset_user dst c n)"

text \<open>The offset of the first \<open>c\<close>; \<open>None\<close> is the null pointer.\<close>

fun strchr :: "cstring \<Rightarrow> uint8 \<Rightarrow> nat option" where
  "strchr [] c = None"
| "strchr (x # s) c = (if x = 0 then None else if x = c then Some 0 else map_option Suc (strchr s c))"

text \<open>\<open>n = n*10 + *s++ - '0'\<close> in 32 bits; the digits 0 and 9 are 48 and 57.\<close>

fun atoi_loop :: "uint32 \<Rightarrow> cstring \<Rightarrow> uint32" where
  "atoi_loop n [] = n"
| "atoi_loop n (c # s) = (if 48 \<le> c \<and> c \<le> 57 then atoi_loop (n * 10 + ucast c - 48) s else n)"

definition atoi :: "cstring \<Rightarrow> int" where
  "atoi s = sint (atoi_loop 0 s)"

section \<open>Blocks of memory\<close>

text \<open>The two loops of \<open>memmove\<close> on the bytes of memory, upwards and downwards.\<close>

fun copy_up :: "uint8 list \<Rightarrow> nat \<Rightarrow> nat \<Rightarrow> nat \<Rightarrow> uint8 list option" where
  "copy_up m dst src 0 = Some m"
| "copy_up m dst src (Suc n) =
     (if src < length m \<and> dst < length m then copy_up (m[dst := m ! src]) (Suc dst) (Suc src) n else None)"

fun copy_down :: "uint8 list \<Rightarrow> nat \<Rightarrow> nat \<Rightarrow> nat \<Rightarrow> uint8 list option" where
  "copy_down m dst src 0 = Some m"
| "copy_down m dst src (Suc n) =
     (if src + n < length m \<and> dst + n < length m then copy_down (m[dst + n := m ! (src + n)]) dst src n else None)"

definition memmove_user :: "uint8 list \<Rightarrow> nat \<Rightarrow> nat \<Rightarrow> nat \<Rightarrow> uint8 list option" where
  "memmove_user m dst src n = (if src > dst then copy_up m dst src n else copy_down m dst src n)"

text \<open>\<open>memmove\<close> between two objects, which lie one after the other in memory.\<close>

definition memmove_from :: "uint8 list \<Rightarrow> nat \<Rightarrow> uint8 list \<Rightarrow> nat \<Rightarrow> uint8 list option" where
  "memmove_from buf dst src n = map_option (take (length buf)) (memmove_user (buf @ src) dst (length buf) n)"

fun memcmp_user :: "uint8 list \<Rightarrow> uint8 list \<Rightarrow> nat \<Rightarrow> int option" where
  "memcmp_user p1 p2 0 = Some 0"
| "memcmp_user (a # p1) (b # p2) (Suc n) = (if a \<noteq> b then Some (uint a - uint b) else memcmp_user p1 p2 n)"
| "memcmp_user _ _ (Suc n) = None"

definition memcpy_user :: "uint8 list \<Rightarrow> nat \<Rightarrow> nat \<Rightarrow> nat \<Rightarrow> uint8 list option" where
  "memcpy_user m dst src n = memmove_user m dst src n"

section \<open>Input\<close>

text \<open>The loop of \<open>gets\<close>, up to the buffer and the index of the terminating NUL.\<close>

function gets_loop :: "int \<Rightarrow> uint8 list \<Rightarrow> nat \<Rightarrow> ('a) usys_scheme \<Rightarrow> (uint8 list \<times> nat, ('a) usys_scheme) outcome" where
  "gets_loop mx buf i s =
     (if int i + 1 < mx
      then obind (read_call 0 1 s) (\<lambda>r s. case r of (cc, bs) \<Rightarrow>
           if cc < 1 then Done (buf, i) s
           else let c = hd bs
           in obind (inside (put buf i c) s) (\<lambda>buf s.
              if c = 10 \<or> c = 13 then Done (buf, Suc i) s else gets_loop mx buf (Suc i) s))
      else Done (buf, i) s)"
  by pat_completeness auto
termination by (relation "measure (\<lambda>(mx, buf, i, s). nat (mx - int i))") auto

declare gets_loop.simps [simp del]

definition gets :: "uint8 list \<Rightarrow> int \<Rightarrow> ('a) usys_scheme \<Rightarrow> (uint8 list, ('a) usys_scheme) outcome" where
  "gets buf mx s = obind (gets_loop mx buf 0 s) (\<lambda>(buf, i) s. inside (put buf i 0) s)"

text \<open>\<open>stat\<close>: the answer of \<open>fstat\<close> holds the bytes of the \<open>struct stat\<close>.\<close>

definition stat_user :: "cstring \<Rightarrow> ('a) usys_scheme \<Rightarrow> (int \<times> uint8 list, ('a) usys_scheme) outcome" where
  "stat_user n s =
     obind (open_call n 0 s) (\<lambda>fd s.
     if fd < 0 then Done (- 1, []) s
     else obind (ecall (C_fstat fd) s) (\<lambda>a s.
          obind (close_call fd s) (\<lambda>_ s.
          Done (ret a, out a) s)))"

section \<open>Formatted output\<close>

definition putc :: "int \<Rightarrow> uint8 \<Rightarrow> ('a) usys_scheme \<Rightarrow> (unit, ('a) usys_scheme) outcome" where
  "putc fd c s = obind (write_call fd [c] s) (\<lambda>_ s. Done () s)"

definition puts :: "int \<Rightarrow> uint8 list \<Rightarrow> ('a) usys_scheme \<Rightarrow> (unit, ('a) usys_scheme) outcome" where
  "puts fd bs = ofor bs (putc fd)"

definition digit_user :: "nat \<Rightarrow> uint8" where
  "digit_user d = bytes ''0123456789ABCDEF'' ! d"

text \<open>
  The digits, least significant first. The callers pass the bases 10 and 16; with a base below 2 the loop would not end
  and the definition stops.
\<close>

function digits_user :: "nat \<Rightarrow> nat \<Rightarrow> uint8 list" where
  "digits_user b x = digit_user (x mod b) # (if x div b = 0 \<or> b < 2 then [] else digits_user b (x div b))"
  by pat_completeness auto
termination by (relation "measure snd") (auto simp: div_greater_zero_iff intro!: div_less_dividend)

declare digits_user.simps [simp del]

definition printint_user_chars :: "uint32 \<Rightarrow> nat \<Rightarrow> bool \<Rightarrow> uint8 list" where
  "printint_user_chars xx base sign =
     (let neg = sign \<and> sint xx < 0;
          x = (if neg then - xx else xx);
          buf = digits_user base (unat x);
          buf = (if neg then buf @ bytes ''-'' else buf)
      in rev buf)"

definition printint_user :: "int \<Rightarrow> uint32 \<Rightarrow> nat \<Rightarrow> bool \<Rightarrow> ('a) usys_scheme \<Rightarrow> (unit, ('a) usys_scheme) outcome" where
  "printint_user fd xx base sign s = puts fd (printint_user_chars xx base sign) s"

definition printptr_user_chars :: "uint64 \<Rightarrow> uint8 list" where
  "printptr_user_chars x = bytes ''0x'' @ map (\<lambda>i. digit_user (unat (drop_bit 60 (push_bit (4 * i) x)))) [0..<16]"

definition printptr_user :: "int \<Rightarrow> uint64 \<Rightarrow> ('a) usys_scheme \<Rightarrow> (unit, ('a) usys_scheme) outcome" where
  "printptr_user fd x s = puts fd (printptr_user_chars x) s"

text \<open>
  The arguments after the format, read at the type the format asks for; a missing one is 0. The format characters are
  \<open>d\<close> 100, \<open>l\<close> 108, \<open>x\<close> 120, \<open>p\<close> 112, \<open>s\<close> 115, \<open>c\<close> 99 and \<open>%\<close> 37. The argument \<open>state\<close> says whether the last
  character was \<open>%\<close>.
\<close>

datatype uarg = UInt uint32 | ULong uint64 | UStr "cstring option"

fun arg_int :: "uarg list \<Rightarrow> uint32" where
  "arg_int (UInt x # _) = x"
| "arg_int (ULong x # _) = ucast x"
| "arg_int _ = 0"

fun arg_long :: "uarg list \<Rightarrow> uint64" where
  "arg_long (UInt x # _) = scast x"
| "arg_long (ULong x # _) = x"
| "arg_long _ = 0"

fun arg_str :: "uarg list \<Rightarrow> cstring option" where
  "arg_str (UStr x # _) = x"
| "arg_str _ = None"

fun vprintf :: "int \<Rightarrow> bool \<Rightarrow> cstring \<Rightarrow> uarg list \<Rightarrow> ('a) usys_scheme \<Rightarrow> (unit, ('a) usys_scheme) outcome" where
  "vprintf fd state [] ap s = Done () s"
| "vprintf fd state (c # fmt) ap s =
     (if c = 0 then Done () s
      else if \<not> state
      then if c = 37 then vprintf fd True fmt ap s
           else obind (putc fd c s) (\<lambda>_ s. vprintf fd False fmt ap s)
      else if c = 100 then obind (printint_user fd (arg_int ap) 10 True s) (\<lambda>_ s. vprintf fd False fmt (tl ap) s)
      else if c = 108 then obind (printint_user fd (ucast (arg_long ap)) 10 False s) (\<lambda>_ s. vprintf fd False fmt (tl ap) s)
      else if c = 120 then obind (printint_user fd (arg_int ap) 16 False s) (\<lambda>_ s. vprintf fd False fmt (tl ap) s)
      else if c = 112 then obind (printptr_user fd (arg_long ap) s) (\<lambda>_ s. vprintf fd False fmt (tl ap) s)
      else if c = 115
      then obind (puts fd (case arg_str ap of None \<Rightarrow> bytes ''(null)'' | Some str \<Rightarrow> cstr str) s) (\<lambda>_ s. vprintf fd False fmt (tl ap) s)
      else if c = 99 then obind (putc fd (ucast (arg_int ap)) s) (\<lambda>_ s. vprintf fd False fmt (tl ap) s)
      else if c = 37 then obind (putc fd c s) (\<lambda>_ s. vprintf fd False fmt ap s)
      else obind (putc fd 37 s) (\<lambda>_ s. obind (putc fd c s) (\<lambda>_ s. vprintf fd False fmt ap s)))"

definition fprintf :: "int \<Rightarrow> string \<Rightarrow> uarg list \<Rightarrow> ('a) usys_scheme \<Rightarrow> (unit, ('a) usys_scheme) outcome" where
  "fprintf fd fmt ap s = vprintf fd False (bytes fmt) ap s"

definition printf_user :: "string \<Rightarrow> uarg list \<Rightarrow> ('a) usys_scheme \<Rightarrow> (unit, ('a) usys_scheme) outcome" where
  "printf_user fmt ap s = vprintf 1 False (bytes fmt) ap s"

section \<open>Laws of the library\<close>

text \<open>\<open>memmove\<close> copies the old bytes whatever the overlap.\<close>

lemma copy_up_nth:
  assumes "dst \<le> src" and "src + n \<le> length m"
  shows "\<exists>r. copy_up m dst src n = Some r \<and> length r = length m \<and>
    (\<forall>i < length m. r ! i = (if dst \<le> i \<and> i < dst + n then m ! (src + (i - dst)) else m ! i))"
  using assms
proof (induction n arbitrary: m dst src)
  case (Suc n)
  let ?m = "m[dst := m ! src]"
  from Suc.IH [of "Suc dst" "Suc src" ?m] Suc.prems obtain r where r: "copy_up ?m (Suc dst) (Suc src) n = Some r" "length r = length m"
    "\<forall>i < length m. r ! i = (if Suc dst \<le> i \<and> i < Suc dst + n then ?m ! (Suc src + (i - Suc dst)) else ?m ! i)" by auto
  have "r ! i = (if dst \<le> i \<and> i < dst + Suc n then m ! (src + (i - dst)) else m ! i)" if "i < length m" for i
    using r(3) that Suc.prems by (cases "i = dst") (auto simp: nth_list_update Suc_diff_Suc)
  with r Suc.prems show ?case by auto
qed auto

lemma copy_down_nth:
  assumes "src \<le> dst" and "dst + n \<le> length m"
  shows "\<exists>r. copy_down m dst src n = Some r \<and> length r = length m \<and>
    (\<forall>i < length m. r ! i = (if dst \<le> i \<and> i < dst + n then m ! (src + (i - dst)) else m ! i))"
  using assms
proof (induction n arbitrary: m)
  case (Suc n)
  let ?m = "m[dst + n := m ! (src + n)]"
  from Suc.IH [of ?m] Suc.prems obtain r where r: "copy_down ?m dst src n = Some r" "length r = length m"
    "\<forall>i < length m. r ! i = (if dst \<le> i \<and> i < dst + n then ?m ! (src + (i - dst)) else ?m ! i)" by auto
  have "r ! i = (if dst \<le> i \<and> i < dst + Suc n then m ! (src + (i - dst)) else m ! i)" if "i < length m" for i
    using r(3) that Suc.prems by (cases "i = dst + n") (auto simp: nth_list_update)
  with r Suc.prems show ?case by auto
qed auto

lemma memmove_user_nth:
  assumes "dst + n \<le> length m" and "src + n \<le> length m"
  shows "\<exists>r. memmove_user m dst src n = Some r \<and> length r = length m \<and>
    (\<forall>i < length m. r ! i = (if dst \<le> i \<and> i < dst + n then m ! (src + (i - dst)) else m ! i))"
  using assms copy_up_nth [of dst src n m] copy_down_nth [of src dst n m] by (auto simp: memmove_user_def)

text \<open>Moving the end of a buffer to its front.\<close>

lemma memmove_front:
  assumes "p = length A" and "n = length X"
  shows "\<exists>Z'. memmove_user (A @ X @ Z) 0 p n = Some (X @ Z') \<and> length (X @ Z') = length (A @ X @ Z)"
proof -
  from memmove_user_nth [of 0 n "A @ X @ Z" p] assms obtain r where r: "memmove_user (A @ X @ Z) 0 p n = Some r" "length r = length (A @ X @ Z)"
    "\<forall>i < length (A @ X @ Z). r ! i = (if i < n then (A @ X @ Z) ! (p + i) else (A @ X @ Z) ! i)" by auto
  have "take n r = X" using r(2,3) assms by (auto intro!: nth_equalityI simp: nth_append)
  then have "r = X @ drop n r" by (metis append_take_drop_id)
  with r show ?thesis by metis
qed

lemma strchr_None: "0 \<notin> set t \<Longrightarrow> strchr t c = None \<longleftrightarrow> c \<notin> set t"
  by (induction t) auto

lemma strchr_Some: "strchr t c = Some k \<Longrightarrow> \<exists>u v. t = u @ c # v \<and> length u = k \<and> c \<notin> set u"
proof (induction t arbitrary: k)
  case (Cons x t)
  show ?case
  proof (cases "x = c")
    case True
    with Cons.prems show ?thesis by (auto split: if_splits intro: exI [of _ "[]"])
  next
    case False
    with Cons.prems obtain j where "strchr t c = Some j" "k = Suc j" by (auto split: if_splits)
    with Cons.IH obtain u v where "t = u @ c # v" "length u = j" "c \<notin> set u" by blast
    with \<open>k = Suc j\<close> False show ?thesis by (intro exI [of _ "x # u"] exI [of _ v]) auto
  qed
qed simp

lemma str_at_append: "0 \<notin> set X \<Longrightarrow> p = length A \<Longrightarrow> str_at (A @ X @ 0 # Z) p = Some X"
proof -
  assume "0 \<notin> set X" "p = length A"
  moreover from this have "cstr (X @ 0 # Z) = X" unfolding cstr_def by (subst takeWhile_append2) auto
  ultimately show ?thesis by (simp add: str_at_def)
qed

lemma put_append: "p = length A \<Longrightarrow> put (A @ x # Z) p y = Some (A @ y # Z)"
  by (simp add: put_def)

lemma fewer_puts [fewer]: "fewer (puts fd bs s) s"
  unfolding puts_def putc_def by (intro fewer_ofor fewer_bind fewer_basic)

lemma fewer_putc [fewer]: "fewer (putc fd c s) s"
  unfolding putc_def by (intro fewer_bind fewer_basic)

lemma fewer_vprintf [fewer]: "fewer (vprintf fd st fmt ap s) s"
proof (induction fmt arbitrary: st ap s)
  case (Cons c fmt)
  show ?case unfolding vprintf.simps printint_user_def printptr_user_def
    by (intro fewer_if fewer_bind fewer_basic fewer_putc fewer_puts Cons.IH)
qed (simp add: fewer_basic)

lemma fewer_printf [fewer]: "fewer (printf_user fmt ap s) s" "fewer (fprintf fd fmt ap s) s"
  by (simp_all add: printf_user_def fprintf_def fewer_vprintf)

lemma fewer_gets [fewer]: "fewer (gets buf mx s) s"
proof -
  have "fewer (gets_loop mx buf i s) s" for mx buf i and s :: "('a) usys_scheme"
  proof (induction mx buf i s rule: gets_loop.induct)
    case (1 mx buf i s)
    show ?case unfolding gets_loop.simps [of mx buf i s] Let_def
      by (intro fewer_if fewer_bind fewer_basic fewer_pair) (use 1 in \<open>auto intro!: fewer_if fewer_bind fewer_basic\<close>)
  qed
  then show ?thesis unfolding gets_def by (intro fewer_bind) (auto simp: fewer_basic)
qed

lemma fewer_stat [fewer]: "fewer (stat_user n s) s"
  unfolding stat_user_def by (intro fewer_bind fewer_if fewer_basic)

lemma safely_puts:
  assumes "\<And>c t. P t \<Longrightarrow> safely (putc fd c t) (\<lambda>_. P) Q" and "P s"
  shows "safely (puts fd bs s) (\<lambda>_. P) Q"
  using assms(2)
proof (induction bs arbitrary: s)
  case (Cons b bs)
  then show ?case using assms(1) unfolding puts_def by (auto intro: safely_bind)
qed (simp add: puts_def)

lemma safely_vprintf:
  assumes "\<And>c t. P t \<Longrightarrow> safely (putc fd c t) (\<lambda>_. P) Q" and "P s"
  shows "safely (vprintf fd st fmt ap s) (\<lambda>_. P) Q"
  using assms(2)
proof (induction fmt arbitrary: st ap s)
  case (Cons c fmt)
  note puts = safely_puts [where P = P and Q = Q, OF assms(1)]
  from Cons show ?case
    unfolding vprintf.simps printint_user_def printptr_user_def by (auto intro!: safely_bind [where P = "\<lambda>_. P"] assms(1) puts)
qed simp

text \<open>Output to one file descriptor is no output to another, and no input.\<close>

definition elsewhere :: "int \<Rightarrow> int \<Rightarrow> ('a) usys_scheme \<Rightarrow> ('a) usys_scheme \<Rightarrow> bool" where
  "elsewhere f g s t \<longleftrightarrow> written f t = written f s \<and> heard g t = heard g s"

lemma safely_fprintf:
  assumes "f \<noteq> fd"
  shows "safely (fprintf fd fmt ap s) (\<lambda>_ t. elsewhere f g s t) (\<lambda>t. elsewhere f g s t)"
  unfolding fprintf_def
proof (rule safely_vprintf)
  fix c t
  assume "elsewhere f g s t"
  then show "safely (putc fd c t) (\<lambda>_. elsewhere f g s) (elsewhere f g s)"
    unfolding putc_def
    by (intro safely_then [OF safely_icall]) (use assms in \<open>auto simp: elsewhere_def written_def heard_def call_in_def call_out_def\<close>)
qed (simp add: elsewhere_def)

text \<open>A message and an exit.\<close>

lemma safely_complain:
  assumes "f \<noteq> fd"
  shows "safely (obind (fprintf fd fmt ap s) (\<lambda>_ s. exit_call n s)) P (elsewhere f g s)"
  by (rule safely_then [OF safely_fprintf [OF assms, where g = g]])
     (auto simp: exit_call_def elsewhere_def written_def heard_def call_in_def call_out_def)

text \<open>What \<open>vprintf\<close> prints.\<close>

fun format :: "bool \<Rightarrow> cstring \<Rightarrow> uarg list \<Rightarrow> uint8 list" where
  "format state [] ap = []"
| "format state (c # fmt) ap =
     (if c = 0 then []
      else if \<not> state then if c = 37 then format True fmt ap else c # format False fmt ap
      else if c = 100 then printint_user_chars (arg_int ap) 10 True @ format False fmt (tl ap)
      else if c = 108 then printint_user_chars (ucast (arg_long ap)) 10 False @ format False fmt (tl ap)
      else if c = 120 then printint_user_chars (arg_int ap) 16 False @ format False fmt (tl ap)
      else if c = 112 then printptr_user_chars (arg_long ap) @ format False fmt (tl ap)
      else if c = 115 then (case arg_str ap of None \<Rightarrow> bytes ''(null)'' | Some str \<Rightarrow> cstr str) @ format False fmt (tl ap)
      else if c = 99 then ucast (arg_int ap) # format False fmt (tl ap)
      else if c = 37 then c # format False fmt ap
      else 37 # c # format False fmt ap)"

text \<open>A run that only writes \<open>bs\<close> to \<open>fd\<close>.\<close>

definition wrote :: "int \<Rightarrow> uint8 list \<Rightarrow> ('a) usys_scheme \<Rightarrow> ('a) usys_scheme \<Rightarrow> bool" where
  "wrote fd bs s t \<longleftrightarrow> (\<exists>cs. calls t = calls s @ cs \<and> concat (map (call_out fd) cs) = bs \<and> (\<forall>g. concat (map (call_in g) cs) = []))"

lemma wrote_trans: "wrote fd bs s t \<Longrightarrow> wrote fd cs t u \<Longrightarrow> wrote fd (bs @ cs) s u"
  by (auto simp: wrote_def)

lemma wrote_Nil: "wrote fd [] s s"
  by (simp add: wrote_def)

lemma wrote_out: "wrote fd bs s t \<Longrightarrow> written fd t = written fd s @ bs \<and> heard g t = heard g s \<and> (\<exists>cs. calls t = calls s @ cs)"
  by (auto simp: wrote_def written_def heard_def)

text \<open>Done with \<open>bs\<close> written, or waiting with a part of it.\<close>

definition prints :: "int \<Rightarrow> uint8 list \<Rightarrow> (unit, ('a) usys_scheme) outcome \<Rightarrow> ('a) usys_scheme \<Rightarrow> bool" where
  "prints fd bs m s \<longleftrightarrow> safely m (\<lambda>_ t. wrote fd bs s t) (\<lambda>t. \<exists>cs. prefix cs bs \<and> wrote fd cs s t)"

lemma prints_then:
  assumes "prints fd bs m s" and "\<And>t. prints fd cs (f () t) t"
  shows "prints fd (bs @ cs) (obind m f) s"
  unfolding prints_def
proof (rule safely_then [OF assms(1) [unfolded prints_def]], goal_cases)
  case (1 t)
  then show ?case by (auto intro: prefix_prefix)
next
  case (2 x t)
  show ?case
  proof (rule safely_mono [OF assms(2) [of t, unfolded prints_def, folded unit_eq [of x]]])
    fix v
    assume "\<exists>cs'. prefix cs' cs \<and> wrote fd cs' t v"
    then obtain cs' where "prefix (bs @ cs') (bs @ cs)" "wrote fd (bs @ cs') s v" using wrote_trans [OF 2(2)] by auto
    then show "\<exists>cs'. prefix cs' (bs @ cs) \<and> wrote fd cs' s v" by blast
  qed (use 2 in \<open>auto intro: wrote_trans\<close>)
qed

lemma prints_putc: "prints fd [c] (putc fd c s) s"
  unfolding putc_def prints_def
  by (rule safely_then [OF safely_icall]) (auto simp: wrote_def call_out_def call_in_def intro!: exI [of _ "[c]"])

lemma prints_Nil: "prints fd [] (Done () s) s"
  by (simp add: prints_def wrote_Nil)

lemma prints_if: "(b \<Longrightarrow> prints fd x m s) \<Longrightarrow> (\<not> b \<Longrightarrow> prints fd y n s) \<Longrightarrow> prints fd (if b then x else y) (if b then m else n) s"
  by simp

lemma prints_puts: "prints fd bs (puts fd bs s) s"
proof (induction bs arbitrary: s)
  case (Cons b bs)
  have "prints fd ([b] @ bs) (obind (putc fd b s) (\<lambda>_. puts fd bs)) s" by (rule prints_then [OF prints_putc Cons])
  then show ?case by (simp add: puts_def)
qed (simp add: puts_def prints_Nil)

lemma prints_vprintf: "prints fd (format st fmt ap) (vprintf fd st fmt ap s) s"
proof (induction fmt arbitrary: st ap s)
  case (Cons c fmt)
  have putc: "prints fd (x # bs) (obind (putc fd x s) f) s" if "\<And>t. prints fd bs (f () t) t" for x bs f and s :: "('a) usys_scheme"
  proof -
    have "prints fd ([x] @ bs) (obind (putc fd x s) f) s" by (rule prints_then [OF prints_putc]) (rule that)
    then show ?thesis by simp
  qed
  show ?case
    unfolding vprintf.simps format.simps printint_user_def printptr_user_def
    by (intro prints_if prints_Nil Cons.IH putc prints_then [OF prints_puts])
qed (simp add: prints_Nil)

section \<open>Numbers\<close>

lemma digit_user_10:
  assumes "d < 10"
  shows "digit_user d = 48 + of_nat d" and "48 \<le> digit_user d" and "digit_user d \<le> 57" and "ucast (digit_user d) = (48 + of_nat d :: uint32)"
proof -
  have "d \<in> {0, 1, 2, 3, 4, 5, 6, 7, 8, 9}" using assms by auto
  then show "digit_user d = 48 + of_nat d" "48 \<le> digit_user d" "digit_user d \<le> 57" "ucast (digit_user d) = (48 + of_nat d :: uint32)"
    by (auto simp: digit_user_def bytes_def)
qed

lemma atoi_loop_append: "\<forall>c \<in> set xs. 48 \<le> c \<and> c \<le> 57 \<Longrightarrow> atoi_loop n (xs @ ys) = atoi_loop (atoi_loop n xs) ys"
  by (induction xs arbitrary: n) simp_all

lemma digits_user_range: "c \<in> set (digits_user 10 n) \<Longrightarrow> 48 \<le> c \<and> c \<le> 57"
proof (induction n rule: less_induct)
  case (less n)
  have "n mod 10 < 10" by simp
  note d = digit_user_10(2,3) [OF this]
  show ?case
  proof (cases "n div 10 = 0")
    case False
    then have "n div 10 < n" by auto
    from less.IH [OF this] less.prems False d show ?thesis by (auto simp: digits_user.simps [of 10 n])
  qed (use less.prems d in \<open>simp add: digits_user.simps [of 10 n]\<close>)
qed

lemma atoi_loop_digits: "atoi_loop 0 (rev (digits_user 10 n)) = of_nat n"
proof (induction n rule: less_induct)
  case (less n)
  have "n mod 10 < 10" by simp
  note d = digit_user_10(2,3,4) [OF this]
  show ?case
  proof (cases "n div 10 = 0")
    case True
    then have "n mod 10 = n" by auto
    with True d show ?thesis by (simp add: digits_user.simps [of 10 n])
  next
    case False
    then have "n div 10 < n" by auto
    have "atoi_loop 0 (rev (digits_user 10 n)) = atoi_loop (of_nat (n div 10)) [digit_user (n mod 10)]"
      using False less [OF \<open>n div 10 < n\<close>] digits_user_range [of _ "n div 10"] by (simp add: digits_user.simps [of 10 n] atoi_loop_append)
    also have "\<dots> = of_nat (n div 10) * 10 + of_nat (n mod 10)" using d by simp
    also have "\<dots> = of_nat (n div 10 * 10 + n mod 10)" by (simp only: of_nat_add of_nat_mult) simp
    finally show ?thesis by simp
  qed
qed

text \<open>C19. Numbers survive printing and reading: for every non-negative \<open>int\<close>, \<open>atoi\<close> applied to the characters that \<open>printint\<close>
  produces in base 10 is the number again.\<close>

theorem atoi_printint:
  assumes "0 \<le> sint x"
  shows "atoi (printint_user_chars x 10 True) = sint x"
  using assms atoi_loop_digits [of "unat x"] by (simp add: atoi_def printint_user_chars_def)

theorem atoi_printint_witness: "atoi (printint_user_chars 4375 10 True) = 4375"
  using atoi_printint [of 4375] by simp

end
