(* ===== verification/Grep.thy ===== *)
theory Grep
  imports Ulib
begin

text \<open>
  \<open>user/grep.c\<close>: the matcher is equivalent to the language of its pattern, and the program prints the matching lines of
  its input however the input arrives.
\<close>

section \<open>The matcher\<close>

text \<open>The characters \<open>^\<close>, \<open>$\<close>, \<open>*\<close> and \<open>.\<close> are 94, 36, 42 and 46.\<close>

function matchhere :: "cstring \<Rightarrow> cstring \<Rightarrow> bool" and matchstar :: "uint8 \<Rightarrow> cstring \<Rightarrow> cstring \<Rightarrow> bool" where
  "matchhere re text =
     (if char_at re = 0 then True
      else if char_at (tl re) = 42 then matchstar (char_at re) (tl (tl re)) text
      else if char_at re = 36 \<and> char_at (tl re) = 0 then char_at text = 0
      else if char_at text \<noteq> 0 \<and> (char_at re = 46 \<or> char_at re = char_at text) then matchhere (tl re) (tl text)
      else False)"
| "matchstar c re text =
     (if matchhere re text then True
      else if char_at text \<noteq> 0 \<and> (char_at text = c \<or> c = 46) then matchstar c re (tl text)
      else False)"
  by pat_completeness auto
termination
proof (relation "measures [case_sum (\<lambda>(re, text). length re + length text) (\<lambda>(c, re, text). length re + length text), case_sum (\<lambda>_. 0) (\<lambda>_. 1)]", goal_cases)
  case (2 re t)
  then show ?case by (cases re; cases "tl re") auto
next
  case (3 re t)
  then show ?case by (cases re; cases t) auto
next
  case (5 c re t)
  then show ?case by (cases t) auto
qed simp_all

declare matchhere.simps [simp del] matchstar.simps [simp del]

text \<open>\<open>do { if(matchhere(re, text)) return 1; } while(*text++ != '\0');\<close>\<close>

fun match_from :: "cstring \<Rightarrow> cstring \<Rightarrow> bool" where
  "match_from re [] = matchhere re []"
| "match_from re (c # text) = (matchhere re (c # text) \<or> c \<noteq> 0 \<and> match_from re text)"

definition match :: "cstring \<Rightarrow> cstring \<Rightarrow> bool" where
  "match re text = (if char_at re = 94 then matchhere (tl re) text else match_from re text)"

section \<open>Patterns as languages\<close>

datatype atom = Any | Just uint8
datatype item = One atom | Star atom

definition atom_of :: "uint8 \<Rightarrow> atom" where
  "atom_of c = (if c = 46 then Any else Just c)"

fun accepts :: "atom \<Rightarrow> uint8 \<Rightarrow> bool" where
  "accepts Any x = True"
| "accepts (Just c) x = (x = c)"

text \<open>The items of a pattern after the \<open>^\<close>, and whether it ends in \<open>$\<close>.\<close>

fun items :: "cstring \<Rightarrow> item list" where
  "items [] = []"
| "items [c] = (if c = 36 then [] else [One (atom_of c)])"
| "items (c # d # re) = (if d = 42 then Star (atom_of c) # items re else One (atom_of c) # items (d # re))"

fun to_end :: "cstring \<Rightarrow> bool" where
  "to_end [] = False"
| "to_end [c] = (c = 36)"
| "to_end (c # d # re) = (if d = 42 then to_end re else to_end (d # re))"

inductive lang :: "item list \<Rightarrow> cstring \<Rightarrow> bool" where
  empty: "lang [] []"
| one: "accepts a x \<Longrightarrow> lang is w \<Longrightarrow> lang (One a # is) (x # w)"
| stop: "lang is w \<Longrightarrow> lang (Star a # is) w"
| more: "accepts a x \<Longrightarrow> lang (Star a # is) w \<Longrightarrow> lang (Star a # is) (x # w)"

inductive_simps lang_simps [simp]: "lang [] w" "lang (One a # is) w"
inductive_cases lang_StarE: "lang (Star a # is) w"

text \<open>Some part of the text from its beginning, or up to its end, is in the language.\<close>

definition begins :: "item list \<Rightarrow> bool \<Rightarrow> cstring \<Rightarrow> bool" where
  "begins is e text \<longleftrightarrow> (\<exists>u v. text = u @ v \<and> lang is u \<and> (e \<longrightarrow> v = []))"

lemma begins_Nil: "begins [] e text \<longleftrightarrow> (e \<longrightarrow> text = [])"
  by (auto simp: begins_def)

lemma beginsI: "t = u @ v \<Longrightarrow> lang is u \<Longrightarrow> (e \<Longrightarrow> v = []) \<Longrightarrow> begins is e t"
  by (auto simp: begins_def)

lemma begins_One: "begins (One a # is) e t \<longleftrightarrow> (\<exists>x w. t = x # w \<and> accepts a x \<and> begins is e w)"
proof
  assume "begins (One a # is) e t"
  then obtain u v where u: "t = u @ v" "lang (One a # is) u" "e \<longrightarrow> v = []" unfolding begins_def by blast
  then obtain x w where "u = x # w" "accepts a x" "lang is w" by auto
  with u show "\<exists>x w. t = x # w \<and> accepts a x \<and> begins is e w" by (intro exI conjI) (auto intro: beginsI)
next
  assume "\<exists>x w. t = x # w \<and> accepts a x \<and> begins is e w"
  then obtain x u v where "t = (x # u) @ v" "accepts a x" "lang is u" "e \<longrightarrow> v = []" by (auto simp: begins_def)
  then show "begins (One a # is) e t" by (intro beginsI [of t "x # u" v]) auto
qed

lemma begins_Star:
  "begins (Star a # is) e t \<longleftrightarrow> begins is e t \<or> (\<exists>x w. t = x # w \<and> accepts a x \<and> begins (Star a # is) e w)"
proof
  assume "begins (Star a # is) e t"
  then obtain u v where u: "t = u @ v" "lang (Star a # is) u" "e \<longrightarrow> v = []" by (auto simp: begins_def)
  have "lang is u \<or> (\<exists>x w. u = x # w \<and> accepts a x \<and> lang (Star a # is) w)" using u(2) by (rule lang_StarE) auto
  then show "begins is e t \<or> (\<exists>x w. t = x # w \<and> accepts a x \<and> begins (Star a # is) e w)"
  proof (elim disjE exE conjE)
    fix x w
    assume w: "u = x # w" "accepts a x" "lang (Star a # is) w"
    with u have "t = x # w @ v" "begins (Star a # is) e (w @ v)" by (auto intro: beginsI)
    with w(2) show ?thesis by blast
  qed (use u in \<open>auto intro: beginsI\<close>)
next
  assume "begins is e t \<or> (\<exists>x w. t = x # w \<and> accepts a x \<and> begins (Star a # is) e w)"
  then show "begins (Star a # is) e t"
  proof (elim disjE exE conjE)
    assume "begins is e t"
    then show ?thesis by (auto simp: begins_def intro: stop)
  next
    fix x w
    assume "t = x # w" "accepts a x" "begins (Star a # is) e w"
    then obtain u v where "t = (x # u) @ v" "lang (Star a # is) u" "e \<longrightarrow> v = []" by (auto simp: begins_def)
    then show ?thesis using \<open>accepts a x\<close> by (intro beginsI [of t "x # u" v]) (auto intro: more)
  qed
qed

lemma accepts_atom_of: "accepts (atom_of c) x \<longleftrightarrow> c = 46 \<or> c = x"
  by (auto simp: atom_of_def)

lemma matchhere_begins:
  "0 \<notin> set re \<Longrightarrow> 0 \<notin> set t \<Longrightarrow> matchhere re t \<longleftrightarrow> begins (items re) (to_end re) t"
  "0 \<notin> set re' \<Longrightarrow> 0 \<notin> set t' \<Longrightarrow> matchstar c re' t' \<longleftrightarrow> begins (Star (atom_of c) # items re') (to_end re') t'"
proof (induction re t and c re' t' rule: matchhere_matchstar.induct)
  case (1 re t)
  consider "re = []" | c where "re = [c]" | c d r where "re = c # d # r" by (cases re rule: items.cases) auto
  then show ?case
  proof cases
    case 1
    then show ?thesis by (simp add: matchhere.simps begins_Nil)
  next
    case (2 c)
    with 1 show ?thesis by (cases t) (auto simp: matchhere.simps [of "[c]"] matchhere.simps [of "[]"] begins_Nil begins_One accepts_atom_of)
  next
    case (3 c d r)
    with 1 show ?thesis by (cases t) (auto simp: matchhere.simps [of "c # d # r"] begins_One accepts_atom_of)
  qed
next
  case (2 c re t)
  show ?case
  proof (cases t)
    case Nil
    with 2 show ?thesis by (simp add: matchstar.simps [of c re "[]"] begins_Star [of _ _ _ "[]"])
  next
    case (Cons x w)
    have "matchstar c re (x # w) \<longleftrightarrow> begins (items re) (to_end re) (x # w) \<or>
        accepts (atom_of c) x \<and> begins (Star (atom_of c) # items re) (to_end re) w"
      using 2 Cons by (auto simp: matchstar.simps [of c re "x # w"] accepts_atom_of)
    then show ?thesis unfolding Cons begins_Star [of _ _ _ "x # w"] by auto
  qed
qed

lemma match_from_begins:
  assumes "0 \<notin> set re" and "0 \<notin> set t"
  shows "match_from re t \<longleftrightarrow> (\<exists>u v. t = u @ v \<and> begins (items re) (to_end re) v)"
  using assms(2)
proof (induction t)
  case (Cons c t)
  then show ?case using matchhere_begins(1) [OF assms(1), of "c # t"] by (auto simp: Cons_eq_append_conv)
qed (use matchhere_begins(1) [OF assms(1), of "[]"] in simp)

section \<open>The program\<close>

text \<open>The loop over the complete lines in the buffer; it returns the buffer and the index \<open>p\<close> after the last one.\<close>

function grep_lines :: "cstring \<Rightarrow> uint8 list \<Rightarrow> nat \<Rightarrow> ('a) usys_scheme \<Rightarrow> (uint8 list \<times> nat, ('a) usys_scheme) outcome" where
  "grep_lines pattern buf p s =
     obind (inside (str_at buf p) s) (\<lambda>t s.
     case strchr t 10 of
       None \<Rightarrow> Done (buf, p) s
     | Some k \<Rightarrow>
         let q = p + k
         in obind (inside (put buf q 0) s) (\<lambda>buf s.
            obind (inside (str_at buf p) s) (\<lambda>t s.
            if match pattern t
            then obind (inside (put buf q 10) s) (\<lambda>buf s.
                 obind (write_call 1 (take (q + 1 - p) (drop p buf)) s) (\<lambda>_ s.
                 grep_lines pattern buf (q + 1) s))
            else grep_lines pattern buf (q + 1) s)))"
  by pat_completeness auto
termination
  by (relation "measure (\<lambda>(_, buf, p, _). length buf - p)") (auto simp: put_def str_at_def split: if_splits)

declare grep_lines.simps [simp del]

text \<open>The bytes a \<open>read\<close> to \<open>buf + m\<close> brings.\<close>

definition fill :: "uint8 list \<Rightarrow> nat \<Rightarrow> uint8 list \<Rightarrow> uint8 list" where
  "fill buf m bs = take m buf @ bs @ drop (m + length bs) buf"

lemma fewer_grep_lines [fewer]: "fewer (grep_lines pattern buf p s) s"
proof (induction pattern buf p s rule: grep_lines.induct)
  case (1 pattern buf p s)
  show ?case
    unfolding grep_lines.simps [of pattern buf p s] Let_def
    by (intro fewer_bind fewer_option fewer_if; (rule fewer_basic | simp))
       (use 1 in simp_all)
qed


function grep_loop :: "cstring \<Rightarrow> int \<Rightarrow> uint8 list \<Rightarrow> nat \<Rightarrow> ('a) usys_scheme \<Rightarrow> (uint8 list, ('a) usys_scheme) outcome" where
  "grep_loop pattern fd buf m s =
     obind (read_call fd (1024 - m - 1) s) (\<lambda>r s. case r of (n, bs) \<Rightarrow>
     if n > 0
     then let buf = fill buf m bs;
              m = m + nat n
          in obind (inside (put buf m 0) s) (\<lambda>buf s.
             obind (grep_lines pattern buf 0 s) (\<lambda>r s. case r of (buf, p) \<Rightarrow>
             if m > 0
             then let m = m - p
                  in obind (inside (memmove_user buf 0 p m) s) (\<lambda>buf s. grep_loop pattern fd buf m s)
             else grep_loop pattern fd buf m s))
     else Done buf s)"
  by pat_completeness auto
termination
  by (relation "measure (\<lambda>(_, _, _, _, s). length (answers s))")
     (auto dest!: read_Done fewerD [OF fewer_grep_lines])

declare grep_loop.simps [simp del]

definition grep :: "cstring \<Rightarrow> int \<Rightarrow> uint8 list \<Rightarrow> ('a) usys_scheme \<Rightarrow> (uint8 list, ('a) usys_scheme) outcome" where
  "grep pattern fd buf s = grep_loop pattern fd buf 0 s"

fun grep_files :: "cstring \<Rightarrow> cstring list \<Rightarrow> uint8 list \<Rightarrow> ('a) usys_scheme \<Rightarrow> (unit, ('a) usys_scheme) outcome" where
  "grep_files pattern [] buf s = Done () s"
| "grep_files pattern (file # files) buf s =
     obind (open_call file 0 s) (\<lambda>fd s.
     if fd < 0
     then obind (printf_user (''grep: cannot open %s'' @ [CHR 0x0A]) [UStr (Some file)] s) (\<lambda>_ s. exit_call 1 s)
     else obind (grep pattern fd buf s) (\<lambda>buf s.
          obind (close_call fd s) (\<lambda>_ s.
          grep_files pattern files buf s)))"

definition main_grep :: "cstring list \<Rightarrow> ('a) usys_scheme \<Rightarrow> (unit, ('a) usys_scheme) outcome" where
  "main_grep argv s =
     (if length argv \<le> 1
      then obind (fprintf 2 (''usage: grep pattern [file ...]'' @ [CHR 0x0A]) [] s) (\<lambda>_ s. exit_call 1 s)
      else let pattern = argv ! 1; buf = replicate 1024 0
      in if length argv \<le> 2
         then obind (grep pattern 0 buf s) (\<lambda>_ s. exit_call 0 s)
         else obind (grep_files pattern (drop 2 argv) buf s) (\<lambda>_ s. exit_call 0 s))"

section \<open>Lines\<close>

text \<open>The complete lines of a text, each with its newline, after the beginning \<open>acc\<close> of a line; and what is left open.\<close>

fun full_lines :: "uint8 list \<Rightarrow> uint8 list \<Rightarrow> uint8 list list" where
  "full_lines acc [] = []"
| "full_lines acc (c # xs) = (if c = 10 then (acc @ [10]) # full_lines [] xs else full_lines (acc @ [c]) xs)"

fun open_line :: "uint8 list \<Rightarrow> uint8 list \<Rightarrow> uint8 list" where
  "open_line acc [] = acc"
| "open_line acc (c # xs) = (if c = 10 then open_line [] xs else open_line (acc @ [c]) xs)"

definition matching :: "cstring \<Rightarrow> uint8 list \<Rightarrow> uint8 list \<Rightarrow> uint8 list" where
  "matching pattern acc xs = concat (filter (\<lambda>l. match pattern (butlast l)) (full_lines acc xs))"

lemma full_lines_append: "full_lines acc (xs @ ys) = full_lines acc xs @ full_lines (open_line acc xs) ys"
  by (induction acc xs rule: full_lines.induct) auto

lemma open_line_append: "open_line acc (xs @ ys) = open_line (open_line acc xs) ys"
  by (induction acc xs rule: open_line.induct) auto

lemma no_newline: "10 \<notin> set l \<Longrightarrow> full_lines acc l = [] \<and> open_line acc l = acc @ l"
  by (induction l arbitrary: acc) auto

lemma open_line_start: "10 \<notin> set acc \<Longrightarrow> 10 \<notin> set (open_line acc xs)"
  by (induction acc xs rule: open_line.induct) auto

lemma open_line_acc: "10 \<notin> set acc \<Longrightarrow> full_lines acc xs = full_lines [] (acc @ xs) \<and> open_line acc xs = open_line [] (acc @ xs)"
  using full_lines_append [of "[]" acc xs] open_line_append [of "[]" acc xs] no_newline [of acc "[]"] by simp

lemma matching_append: "matching pattern acc (xs @ ys) = matching pattern acc xs @ matching pattern (open_line acc xs) ys"
  by (simp add: matching_def full_lines_append)

lemma matching_line: "10 \<notin> set l \<Longrightarrow> matching pattern [] (l @ 10 # xs) = (if match pattern l then l @ [10] else []) @ matching pattern [] xs"
  using no_newline [of l "[]"] by (simp add: matching_append) (simp add: matching_def)

lemma open_line_line: "10 \<notin> set l \<Longrightarrow> open_line [] (l @ 10 # xs) = open_line [] xs"
  using no_newline [of l "[]"] by (simp add: open_line_append)

lemma open_line_set: "set (open_line acc xs) \<subseteq> set acc \<union> set xs"
  by (induction acc xs rule: open_line.induct) auto

section \<open>Correctness\<close>

lemma grep_lines_spec:
  assumes "0 \<notin> set X"
  shows "safely (grep_lines pattern (A @ X @ 0 # Z) (length A) (s :: ('a) usys_scheme))
    (\<lambda>(buf, p) t. \<exists>A'. buf = A' @ open_line [] X @ 0 # Z \<and> p = length A' \<and> length buf = length (A @ X @ 0 # Z) \<and>
       written 1 t = written 1 s @ matching pattern [] X \<and> heard fd t = heard fd s)
    (\<lambda>t. prefix (written 1 t) (written 1 s @ matching pattern [] X) \<and> heard fd t = heard fd s)"
  using assms
proof (induction "length X" arbitrary: A X s rule: less_induct)
  case less
  let ?buf = "A @ X @ 0 # Z" and ?p = "length A"
  have at: "str_at ?buf ?p = Some X" using less.prems by (rule str_at_append) simp
  show ?case
  proof (cases "strchr X 10")
    case None
    then have "10 \<notin> set X" using strchr_None [OF less.prems] by simp
    then show ?thesis using None no_newline [of X "[]"] by (simp add: grep_lines.simps [of _ ?buf] at matching_def)
  next
    case (Some k)
    then obtain l x where X: "X = l @ 10 # x" "length l = k" "10 \<notin> set l" using strchr_Some by blast
    have put: "put ?buf (?p + k) 0 = Some (A @ l @ 0 # x @ 0 # Z)" "put (A @ l @ 0 # x @ 0 # Z) (?p + k) 10 = Some (A @ l @ 10 # x @ 0 # Z)"
      using put_append [of "?p + k" "A @ l"] X(1,2) by simp_all
    have line: "str_at (A @ l @ 0 # x @ 0 # Z) ?p = Some l" using less.prems X(1) by (intro str_at_append) simp_all
    have IH: "safely (grep_lines pattern (B @ x @ 0 # Z) (length B) t)
        (\<lambda>(buf, p) u. \<exists>A'. buf = A' @ open_line [] x @ 0 # Z \<and> p = length A' \<and> length buf = length (B @ x @ 0 # Z) \<and>
           written 1 u = written 1 t @ matching pattern [] x \<and> heard fd u = heard fd t)
        (\<lambda>u. prefix (written 1 u) (written 1 t @ matching pattern [] x) \<and> heard fd u = heard fd t)" for B and t :: "('a) usys_scheme"
      using less.prems X(1) by (intro less.hyps) simp_all
    have eq: "grep_lines pattern ?buf ?p s = (if match pattern l
        then obind (write_call 1 (l @ [10]) s) (\<lambda>_ s. grep_lines pattern ((A @ l @ [10]) @ x @ 0 # Z) (length (A @ l @ [10])) s)
        else grep_lines pattern ((A @ l @ [0]) @ x @ 0 # Z) (length (A @ l @ [0])) s)"
      using X(2) by (simp add: grep_lines.simps [of _ ?buf] at Some put line)
    show ?thesis
    proof (cases "match pattern l")
      case True
      show ?thesis unfolding eq if_P [OF True]
      proof (rule safely_then [OF safely_write [of 1 "l @ [10]" s fd]], goal_cases)
        case (2 r t)
        then show ?case
          by (intro safely_mono [OF IH]) (auto simp: X(1) matching_line [OF X(3)] open_line_line [OF X(3)] True)
      qed (auto simp: X(1) matching_line [OF X(3)] True prefix_def)
    next
      case False
      show ?thesis unfolding eq if_not_P [OF False]
        by (intro safely_mono [OF IH]) (auto simp: X(1) matching_line [OF X(3)] open_line_line [OF X(3)] False)
    qed
  qed
qed

lemma grep_lines_any:
  "safely (grep_lines pattern (X @ 0 # Z) 0 s)
    (\<lambda>(buf, p) t. \<exists>A R. buf = A @ R @ 0 # Z \<and> p = length A \<and> length buf = length (X @ 0 # Z) \<and> heard fd t = heard fd s \<and>
       (0 \<notin> set X \<longrightarrow> R = open_line [] X \<and> written 1 t = written 1 s @ matching pattern [] X))
    (\<lambda>t. heard fd t = heard fd s \<and> (0 \<notin> set X \<longrightarrow> prefix (written 1 t) (written 1 s @ matching pattern [] X)))"
proof (cases "0 \<in> set X")
  case True
  then obtain Y x where X: "X = Y @ 0 # x" "0 \<notin> set Y" using split_list_first by metis
  have eq: "X @ 0 # Z = [] @ Y @ 0 # x @ 0 # Z" by (simp add: X(1))
  show ?thesis unfolding eq
  proof (rule safely_mono [OF grep_lines_spec [OF X(2), of pattern "[]" "x @ 0 # Z" s fd, unfolded list.size(3)]], goal_cases)
    case (1 r t)
    then show ?case by (cases r) (auto simp: X(1), metis append.assoc append_Cons)
  qed (simp add: X(1))
next
  case False
  show ?thesis
    by (rule safely_mono [OF grep_lines_spec [OF False, of pattern "[]" Z s fd, simplified]]) (use False in auto)
qed

text \<open>What the program has read since \<open>h\<close>, and what it must have written since \<open>w\<close>.\<close>

definition greps :: "cstring \<Rightarrow> int \<Rightarrow> uint8 list \<Rightarrow> uint8 list \<Rightarrow> (uint8 list \<Rightarrow> uint8 list \<Rightarrow> bool) \<Rightarrow> ('a) usys_scheme \<Rightarrow> bool" where
  "greps pattern fd h w P t \<longleftrightarrow> (\<exists>xs. heard fd t = h @ xs \<and> (0 \<notin> set xs \<longrightarrow> P (open_line [] xs) (w @ matching pattern [] xs)))"

text \<open>The program stops at the end of the input, at an error, or at a line that fills the buffer.\<close>

definition grep_stop :: "int \<Rightarrow> uint8 list \<Rightarrow> ('a) usys_scheme \<Rightarrow> bool" where
  "grep_stop fd l t \<longleftrightarrow> (\<exists>n a. last (calls t) = (C_read fd n, Some a) \<and> (ret a < 0 \<or> out a = [] \<or> length l = 1023))"

lemma lines_resume:
  "open_line [] (open_line [] xs @ ys) = open_line [] (xs @ ys)"
  "matching pattern [] xs @ matching pattern [] (open_line [] xs @ ys) = matching pattern [] (xs @ ys)"
proof -
  have "10 \<notin> set (open_line [] xs)" by (rule open_line_start) simp
  note l = open_line_acc [OF this, of ys]
  show "open_line [] (open_line [] xs @ ys) = open_line [] (xs @ ys)" using l by (simp add: open_line_append)
  show "matching pattern [] xs @ matching pattern [] (open_line [] xs @ ys) = matching pattern [] (xs @ ys)"
    using l by (simp add: matching_append [of _ _ xs ys]) (simp add: matching_def)
qed

lemma grep_loop_spec:
  assumes "length (L @ Z) = 1024" and "length L < 1024" and "greps pattern fd h w (\<lambda>l y. L = l \<and> written 1 s = y) s"
  shows "safely (grep_loop pattern fd (L @ Z) (length L) (s :: ('a) usys_scheme))
    (\<lambda>_ t. greps pattern fd h w (\<lambda>l y. written 1 t = y \<and> grep_stop fd l t) t)
    (\<lambda>t. greps pattern fd h w (\<lambda>l y. prefix (written 1 t) y) t)"
  using assms
proof (induction "length (answers s)" arbitrary: L Z s rule: less_induct)
  case less
  obtain xs where xs: "heard fd s = h @ xs" "0 \<notin> set xs \<Longrightarrow> L = open_line [] xs \<and> written 1 s = w @ matching pattern [] xs"
    using less.prems(3) by (auto simp: greps_def)
  show ?case
  proof (cases "read_call fd (1024 - length L - 1) s")
    case (Switch t)
    from safely_read [of fd "1024 - length L - 1" s 1, unfolded Switch safely.simps] Switch xs show ?thesis
      by (auto simp: grep_loop.simps [of _ _ _ _ s] greps_def)
  next
    case (Done r t)
    obtain n bs where r: "r = (n, bs)" by (cases r)
    from safely_read [of fd "1024 - length L - 1" s 1, unfolded Done r safely.simps prod.case xs(1)] obtain a where t: "heard fd t = h @ xs @ bs" "written 1 t = written 1 s" "length bs \<le> 1024 - length L - 1"
      "calls t = calls s @ [(C_read fd (1024 - length L - 1), Some a)]" "if ret a < 0 then n = ret a \<and> bs = [] else n = int (length bs) \<and> bs = take (1024 - length L - 1) (out a)"
      by auto
    show ?thesis
    proof (cases "n > 0")
      case False
      then have "bs = []" "grep_stop fd L t" using t(3,4,5) less.prems(2) by (auto simp: grep_stop_def split: if_splits)
      then show ?thesis using False t(1,2) xs by (auto simp: grep_loop.simps [of _ _ _ _ s] Done [simplified] r greps_def)
    next
      case True
      then have n: "nat n = length bs" "bs \<noteq> []" using t(5) by (auto split: if_splits)
      let ?X = "L @ bs"
      have "drop (length bs) Z \<noteq> []" using less.prems(1,2) t(3) by auto
      then obtain z Z2 where z: "drop (length bs) Z = z # Z2" by (meson neq_Nil_conv)
      have "fill (L @ Z) (length L) bs = ?X @ z # Z2" by (simp add: fill_def z)
      then have put: "put (fill (L @ Z) (length L) bs) (length L + nat n) 0 = Some (?X @ 0 # Z2)"
        using put_append [of "length L + nat n" ?X z Z2 0] n(1) by simp
      have "length (drop (length bs) Z) = length Z - length bs" by simp
      then have len: "length (?X @ 0 # Z2) = 1024" using less.prems(1,2) t(3) unfolding z by simp
      have eq: "grep_loop pattern fd (L @ Z) (length L) s = obind (grep_lines pattern (?X @ 0 # Z2) 0 t) (\<lambda>r s. case r of (buf, p) \<Rightarrow>
          obind (inside (memmove_user buf 0 p (length ?X - p)) s) (\<lambda>buf s. grep_loop pattern fd buf (length ?X - p) s))"
        using True n put by (simp add: grep_loop.simps [of _ _ _ _ s] Done [simplified] r Let_def)
      show ?thesis unfolding eq
      proof (rule safely_then [OF grep_lines_any [of pattern ?X Z2 t fd]], goal_cases)
        case (1 u)
        then show ?case using t(1,2) xs lines_resume(2) [of pattern xs bs] open_line_set [of "[]" xs] by (auto simp: greps_def intro!: exI [of _ "xs @ bs"])
      next
        case (2 q u)
        obtain buf p where q: "q = (buf, p)" by (cases q)
        from 2(2) obtain A R where u: "buf = A @ R @ 0 # Z2" "p = length A" "length buf = length (?X @ 0 # Z2)" "heard fd u = h @ xs @ bs"
          "0 \<notin> set ?X \<longrightarrow> R = open_line [] ?X \<and> written 1 u = written 1 s @ matching pattern [] ?X" by (auto simp: q t(1,2))
        have m: "length ?X - p = length R" using u(1,2,3) by simp
        from memmove_front [OF u(2) m, of "0 # Z2"] obtain Z3 where Z3: "memmove_user buf 0 p (length ?X - p) = Some (R @ Z3)" "length (R @ Z3) = 1024"
          using len u(1,3) by auto
        have "length (answers u) < length (answers s)" using read_Done [OF Done] fewerD [OF fewer_grep_lines 2(1)] by simp
        moreover have "greps pattern fd h w (\<lambda>l y. R = l \<and> written 1 u = y) u"
          unfolding greps_def using u(4,5) xs(2) lines_resume(1) [of xs bs] lines_resume(2) [of pattern xs bs] by (intro exI [of _ "xs @ bs"]) (use open_line_set [of "[]" xs] in auto)
        moreover have "length R < 1024" using m len by simp
        ultimately have "safely (grep_loop pattern fd (R @ Z3) (length R) u)
          (\<lambda>_ t. greps pattern fd h w (\<lambda>l y. written 1 t = y \<and> grep_stop fd l t) t)
          (\<lambda>t. greps pattern fd h w (\<lambda>l y. prefix (written 1 t) y) t)" using Z3(2) by (intro less.hyps)
        then show ?case unfolding q prod.case m Z3(1) [unfolded m] by simp
      qed
    qed
  qed (use safely_read [of fd "1024 - length L - 1" s 1] in simp_all)
qed

section \<open>The properties\<close>

text \<open>C12. The matcher of grep decides the language of its pattern: on strings without NULs, \<open>match\<close> succeeds exactly when some
  part of the text is in the language of the items of the pattern, a part from the beginning if the pattern starts with \<open>^\<close>
  and a part up to the end if it ends with \<open>$\<close>.\<close>

theorem match_decides_language:
  assumes "0 \<notin> set re" and "0 \<notin> set t"
  shows "match re t \<longleftrightarrow> (let r = (if char_at re = 94 then tl re else re)
    in \<exists>u v w. t = u @ v @ w \<and> lang (items r) v \<and> (char_at re = 94 \<longrightarrow> u = []) \<and> (to_end r \<longrightarrow> w = []))"
proof (cases "char_at re = 94")
  case True
  then have "0 \<notin> set (tl re)" using assms(1) by (cases re) auto
  from matchhere_begins(1) [OF this assms(2)] True show ?thesis by (simp add: match_def begins_def Let_def)
next
  case False
  then show ?thesis using match_from_begins [OF assms] unfolding begins_def Let_def match_def by auto
qed

theorem match_decides_language_witness:
  "match (bytes ''^a.*d$'') (bytes ''abcd'') \<and> \<not> match (bytes ''^b'') (bytes ''abcd'')"
proof -
  have a: "lang (items (bytes ''a.*d$'')) (bytes ''abcd'')"
    by (simp add: bytes_def atom_of_def) (intro more [where x = 98] more [where x = 99] stop; simp)
  show ?thesis
    using match_decides_language [of "bytes ''^a.*d$''" "bytes ''abcd''"] match_decides_language [of "bytes ''^b''" "bytes ''abcd''"] a
    by (auto simp: bytes_def atom_of_def)
qed

text \<open>C13. grep prints the matching lines of its input, however the kernel cuts the input into pieces and whatever else happens in
  between: it makes no access outside of its buffer; when it returns, it has written exactly the complete lines of what
  it has read that match the pattern, in order, and it returns only at the end of the input, at an error, or at a line of
  1023 bytes; while it waits in a system call, what it has written is a prefix of that. The input must not hold NULs,
  except for the claim about its buffer.\<close>

theorem grep_prints_matching_lines:
  fixes s :: "('a) usys_scheme"
  assumes "length buf = 1024" and "calls s = []"
  shows "safely (grep pattern fd buf s)
    (\<lambda>_ t. 0 \<notin> set (heard fd t) \<longrightarrow> written 1 t = matching pattern [] (heard fd t) \<and> grep_stop fd (open_line [] (heard fd t)) t)
    (\<lambda>t. 0 \<notin> set (heard fd t) \<longrightarrow> prefix (written 1 t) (matching pattern [] (heard fd t)))"
proof -
  have "greps pattern fd [] [] (\<lambda>l y. [] = l \<and> written 1 s = y) s"
    using assms(2) by (simp add: greps_def heard_def written_def matching_def)
  from grep_loop_spec [of "[]" buf, OF _ _ this] assms(1) show ?thesis
    by (simp add: grep_def greps_def)
qed

theorem grep_prints_matching_lines_witness:
  "safely (grep (bytes ''b'') 0 (replicate 1024 0) \<lparr>calls = [], answers = [\<lparr>ret = 3, out = [97, 10, 98]\<rparr>, \<lparr>ret = 1, out = [10]\<rparr>, \<lparr>ret = 2, out = []\<rparr>]\<rparr>)
    (\<lambda>_ t. 0 \<in> set (heard 0 t) \<or> written 1 t = matching (bytes ''b'') [] (heard 0 t))
    (\<lambda>t. 0 \<in> set (heard 0 t) \<or> prefix (written 1 t) (matching (bytes ''b'') [] (heard 0 t)))"
  by (rule safely_mono [OF grep_prints_matching_lines]) auto

end
