(* ===== verification/User_Progs.thy ===== *)
theory User_Progs
  imports Ulib
begin

text \<open>
  The small user programs: \<open>cat\<close>, \<open>echo\<close>, \<open>wc\<close>, \<open>kill\<close>, \<open>ln\<close>, \<open>mkdir\<close>, \<open>rm\<close>, \<open>sleep\<close>, \<open>zombie\<close>, \<open>ls\<close>, \<open>ps\<close>, \<open>pstree\<close>,
  \<open>init\<close>, \<open>forktest\<close> and \<open>stressfs\<close>. \<open>argv\<close> is the list of the arguments, whose length is \<open>argc\<close>.
\<close>

section \<open>cat\<close>

function cat_loop :: "int \<Rightarrow> ('a) usys_scheme \<Rightarrow> (int, ('a) usys_scheme) outcome" where
  "cat_loop fd s =
     obind (read_call fd 512 s) (\<lambda>r s. case r of (n, buf) \<Rightarrow>
     if n > 0
     then obind (write_call 1 buf s) (\<lambda>w s.
          if w \<noteq> n
          then obind (fprintf 2 (''cat: write error'' @ [CHR 0x0A]) [] s) (\<lambda>_ s. exit_call 1 s)
          else cat_loop fd s)
     else Done n s)"
  by pat_completeness auto
termination
  by (relation "measure (\<lambda>(_, s). length (answers s))") (auto dest!: read_Done icall_Done)

declare cat_loop.simps [simp del]

definition cat :: "int \<Rightarrow> ('a) usys_scheme \<Rightarrow> (unit, ('a) usys_scheme) outcome" where
  "cat fd s =
     obind (cat_loop fd s) (\<lambda>n s.
     if n < 0
     then obind (fprintf 2 (''cat: read error'' @ [CHR 0x0A]) [] s) (\<lambda>_ s. exit_call 1 s)
     else Done () s)"

definition main_cat :: "cstring list \<Rightarrow> ('a) usys_scheme \<Rightarrow> (unit, ('a) usys_scheme) outcome" where
  "main_cat argv s =
     (if length argv \<le> 1
      then obind (cat 0 s) (\<lambda>_ s. exit_call 0 s)
      else obind (ofor (drop 1 argv) (\<lambda>file s.
             obind (open_call file 0 s) (\<lambda>fd s.
             if fd < 0
             then obind (fprintf 2 (''cat: cannot open %s'' @ [CHR 0x0A]) [UStr (Some file)] s) (\<lambda>_ s. exit_call 1 s)
             else obind (cat fd s) (\<lambda>_ s. obind (close_call fd s) (\<lambda>_ s. Done () s)))) s) (\<lambda>_ s.
           exit_call 0 s))"

section \<open>echo\<close>

fun echo_loop :: "cstring list \<Rightarrow> ('a) usys_scheme \<Rightarrow> (unit, ('a) usys_scheme) outcome" where
  "echo_loop [] s = Done () s"
| "echo_loop (arg # args) s =
     obind (write_call 1 (take (strlen_user arg) arg) s) (\<lambda>_ s.
     obind (if args \<noteq> [] then write_call 1 [32] s else write_call 1 [10] s) (\<lambda>_ s.
     echo_loop args s))"

definition main_echo :: "cstring list \<Rightarrow> ('a) usys_scheme \<Rightarrow> (unit, ('a) usys_scheme) outcome" where
  "main_echo argv s = obind (echo_loop (drop 1 argv) s) (\<lambda>_ s. exit_call 0 s)"

section \<open>wc\<close>

text \<open>The counters \<open>l\<close>, \<open>w\<close>, \<open>c\<close> and the flag \<open>inword\<close>.\<close>

record wcount =
  wc_l :: uint32
  wc_w :: uint32
  wc_c :: uint32
  inword :: bool

definition wc_char :: "uint8 \<Rightarrow> wcount \<Rightarrow> wcount" where
  "wc_char ch k =
     (let k = k\<lparr>wc_c := wc_c k + 1\<rparr>;
          k = (if ch = 10 then k\<lparr>wc_l := wc_l k + 1\<rparr> else k)
      in if strchr [32, 13, 9, 10, 11] ch \<noteq> None then k\<lparr>inword := False\<rparr>
         else if \<not> inword k then k\<lparr>wc_w := wc_w k + 1, inword := True\<rparr>
         else k)"

function wc_loop :: "int \<Rightarrow> wcount \<Rightarrow> ('a) usys_scheme \<Rightarrow> (int \<times> wcount, ('a) usys_scheme) outcome" where
  "wc_loop fd k s =
     obind (read_call fd 512 s) (\<lambda>r s. case r of (n, buf) \<Rightarrow>
     if n > 0 then wc_loop fd (fold wc_char buf k) s
     else Done (n, k) s)"
  by pat_completeness auto
termination
  by (relation "measure (\<lambda>(_, _, s). length (answers s))") (auto dest!: read_Done)

declare wc_loop.simps [simp del]

definition wc :: "int \<Rightarrow> cstring \<Rightarrow> ('a) usys_scheme \<Rightarrow> (unit, ('a) usys_scheme) outcome" where
  "wc fd name s =
     obind (wc_loop fd \<lparr>wc_l = 0, wc_w = 0, wc_c = 0, inword = False\<rparr> s) (\<lambda>r s. case r of (n, k) \<Rightarrow>
     if n < 0
     then obind (printf_user (''wc: read error'' @ [CHR 0x0A]) [] s) (\<lambda>_ s. exit_call 1 s)
     else printf_user (''%d %d %d %s'' @ [CHR 0x0A]) [UInt (wc_l k), UInt (wc_w k), UInt (wc_c k), UStr (Some name)] s)"

definition main_wc :: "cstring list \<Rightarrow> ('a) usys_scheme \<Rightarrow> (unit, ('a) usys_scheme) outcome" where
  "main_wc argv s =
     (if length argv \<le> 1
      then obind (wc 0 [] s) (\<lambda>_ s. exit_call 0 s)
      else obind (ofor (drop 1 argv) (\<lambda>file s.
             obind (open_call file 0 s) (\<lambda>fd s.
             if fd < 0
             then obind (printf_user (''wc: cannot open %s'' @ [CHR 0x0A]) [UStr (Some file)] s) (\<lambda>_ s. exit_call 1 s)
             else obind (wc fd file s) (\<lambda>_ s. obind (close_call fd s) (\<lambda>_ s. Done () s)))) s) (\<lambda>_ s.
           exit_call 0 s))"

section \<open>kill, ln, mkdir, rm, sleep, zombie\<close>

definition main_kill :: "cstring list \<Rightarrow> ('a) usys_scheme \<Rightarrow> (unit, ('a) usys_scheme) outcome" where
  "main_kill argv s =
     (if length argv < 2
      then obind (fprintf 2 (''usage: kill pid...'' @ [CHR 0x0A]) [] s) (\<lambda>_ s. exit_call 1 s)
      else obind (ofor (drop 1 argv) (\<lambda>arg s. obind (icall (C_kill (atoi arg)) s) (\<lambda>_ s. Done () s)) s) (\<lambda>_ s.
           exit_call 0 s))"

definition main_ln :: "cstring list \<Rightarrow> ('a) usys_scheme \<Rightarrow> (unit, ('a) usys_scheme) outcome" where
  "main_ln argv s =
     (if length argv \<noteq> 3
      then obind (fprintf 2 (''Usage: ln old new'' @ [CHR 0x0A]) [] s) (\<lambda>_ s. exit_call 1 s)
      else obind (icall (C_link (argv ! 1) (argv ! 2)) s) (\<lambda>r s.
           obind (if r < 0
                  then fprintf 2 (''link %s %s: failed'' @ [CHR 0x0A]) [UStr (Some (argv ! 1)), UStr (Some (argv ! 2))] s
                  else Done () s) (\<lambda>_ s.
           exit_call 0 s)))"

text \<open>The loops of \<open>mkdir\<close> and \<open>rm\<close> stop at the first failure.\<close>

fun mkdir_loop :: "cstring list \<Rightarrow> ('a) usys_scheme \<Rightarrow> (unit, ('a) usys_scheme) outcome" where
  "mkdir_loop [] s = Done () s"
| "mkdir_loop (arg # args) s =
     obind (icall (C_mkdir arg) s) (\<lambda>r s.
     if r < 0 then fprintf 2 (''mkdir: %s failed to create'' @ [CHR 0x0A]) [UStr (Some arg)] s
     else mkdir_loop args s)"

definition main_mkdir :: "cstring list \<Rightarrow> ('a) usys_scheme \<Rightarrow> (unit, ('a) usys_scheme) outcome" where
  "main_mkdir argv s =
     (if length argv < 2
      then obind (fprintf 2 (''Usage: mkdir files...'' @ [CHR 0x0A]) [] s) (\<lambda>_ s. exit_call 1 s)
      else obind (mkdir_loop (drop 1 argv) s) (\<lambda>_ s. exit_call 0 s))"

fun rm_loop :: "cstring list \<Rightarrow> ('a) usys_scheme \<Rightarrow> (unit, ('a) usys_scheme) outcome" where
  "rm_loop [] s = Done () s"
| "rm_loop (arg # args) s =
     obind (icall (C_unlink arg) s) (\<lambda>r s.
     if r < 0 then fprintf 2 (''rm: %s failed to delete'' @ [CHR 0x0A]) [UStr (Some arg)] s
     else rm_loop args s)"

definition main_rm :: "cstring list \<Rightarrow> ('a) usys_scheme \<Rightarrow> (unit, ('a) usys_scheme) outcome" where
  "main_rm argv s =
     (if length argv < 2
      then obind (fprintf 2 (''Usage: rm files...'' @ [CHR 0x0A]) [] s) (\<lambda>_ s. exit_call 1 s)
      else obind (rm_loop (drop 1 argv) s) (\<lambda>_ s. exit_call 0 s))"

text \<open>With no argument \<open>sleep\<close> goes on to \<open>atoi(argv[1])\<close>, where \<open>argv[1]\<close> is the null pointer.\<close>

definition main_sleep :: "cstring list \<Rightarrow> ('a) usys_scheme \<Rightarrow> (unit, ('a) usys_scheme) outcome" where
  "main_sleep argv s =
     obind (if length argv < 2 then printf_user (''Enter a valid amount for sleep.'' @ [CHR 0x0A]) [] s else Done () s) (\<lambda>_ s.
     obind (inside (if 1 < length argv then Some (argv ! 1) else None) s) (\<lambda>arg s.
     let time = atoi arg
     in obind (if time > 0 then obind (icall (C_sleep time) s) (\<lambda>_ s. Done () s)
               else printf_user (''Enter a valid amount of time,'' @ [CHR 0x0A]) [] s) (\<lambda>_ s.
        exit_call 1 s)))"

definition main_zombie :: "('a) usys_scheme \<Rightarrow> (unit, ('a) usys_scheme) outcome" where
  "main_zombie s =
     obind (fork_call s) (\<lambda>r s.
     obind (if r > 0 then obind (icall (C_sleep 5) s) (\<lambda>_ s. Done () s) else Done () s) (\<lambda>_ s.
     exit_call 0 s))"

section \<open>ls\<close>

text \<open>
  \<open>fmtname\<close>: \<open>fmt_scan path i\<close> is the loop at \<open>p = path + i - 1\<close> and its result the offset after the last slash, where
  slash is 47. The result is the name itself or the static buffer, padded with blanks to \<open>DIRSIZ\<close> = 14 bytes.
\<close>

fun fmt_scan :: "cstring \<Rightarrow> nat \<Rightarrow> nat" where
  "fmt_scan path 0 = 0"
| "fmt_scan path (Suc i) = (if char_at (drop i path) \<noteq> 47 then fmt_scan path i else Suc i)"

definition fmtname :: "cstring \<Rightarrow> cstring" where
  "fmtname path =
     (let p = drop (fmt_scan path (Suc (strlen_user path))) path
      in if strlen_user p \<ge> 14 then p else take (strlen_user p) p @ replicate (14 - strlen_user p) 32)"

text \<open>The fields of a \<open>struct stat\<close> at their offsets.\<close>

definition stat_ino :: "uint8 list \<Rightarrow> uint32" where "stat_ino st = le_word (take 4 (drop 4 st))"
definition stat_type :: "uint8 list \<Rightarrow> uint16" where "stat_type st = le_word (take 2 (drop 8 st))"
definition stat_size :: "uint8 list \<Rightarrow> uint64" where "stat_size st = le_word (take 8 (drop 16 st))"

text \<open>The loop over the entries of a directory, whose names go to \<open>buf\<close> at index \<open>p\<close>.\<close>

function ls_loop :: "int \<Rightarrow> uint8 list \<Rightarrow> nat \<Rightarrow> ('a) usys_scheme \<Rightarrow> (unit, ('a) usys_scheme) outcome" where
  "ls_loop fd buf p s =
     obind (read_call fd 16 s) (\<lambda>r s. case r of (n, de) \<Rightarrow>
     if n = 16
     then if (le_word (take 2 de) :: uint16) = 0 then ls_loop fd buf p s
          else obind (inside (memmove_from buf p (drop 2 de) 14) s) (\<lambda>buf s.
               obind (inside (put buf (p + 14) 0) s) (\<lambda>buf s.
               obind (inside (str_at buf 0) s) (\<lambda>path s.
               obind (stat_user path s) (\<lambda>r s. case r of (r, st) \<Rightarrow>
               if r < 0
               then obind (printf_user (''ls: cannot stat %s'' @ [CHR 0x0A]) [UStr (Some path)] s) (\<lambda>_ s. ls_loop fd buf p s)
               else obind (printf_user (''%s %d %d %d'' @ [CHR 0x0A])
                        [UStr (Some (fmtname path)), UInt (scast (stat_type st)), UInt (stat_ino st), ULong (stat_size st)] s) (\<lambda>_ s.
                    ls_loop fd buf p s)))))
     else Done () s)"
  by pat_completeness auto
termination
  by (relation "measure (\<lambda>(_, _, _, s). length (answers s))")
     (auto dest!: read_Done fewerD [OF fewer_stat] fewerD [OF fewer_printf(1)])

declare ls_loop.simps [simp del]

definition ls :: "cstring \<Rightarrow> ('a) usys_scheme \<Rightarrow> (unit, ('a) usys_scheme) outcome" where
  "ls path s =
     obind (open_call path 0 s) (\<lambda>fd s.
     if fd < 0 then fprintf 2 (''ls: cannot open %s'' @ [CHR 0x0A]) [UStr (Some path)] s
     else obind (ecall (C_fstat fd) s) (\<lambda>a s.
     if ret a < 0
     then obind (fprintf 2 (''ls: cannot stat %s'' @ [CHR 0x0A]) [UStr (Some path)] s) (\<lambda>_ s.
          obind (close_call fd s) (\<lambda>_ s. Done () s))
     else let st = out a
     in obind
          (if stat_type st = 2
           then printf_user (''%s %d %d %l'' @ [CHR 0x0A])
                  [UStr (Some (fmtname path)), UInt (scast (stat_type st)), UInt (stat_ino st), ULong (stat_size st)] s
           else if stat_type st = 1
           then if strlen_user path + 1 + 14 + 1 > 512
                then printf_user (''ls: path too long'' @ [CHR 0x0A]) [] s
                else obind (inside (strcpy (replicate 512 0) path) s) (\<lambda>buf s.
                     obind (inside (str_at buf 0) s) (\<lambda>str s.
                     let p = strlen_user str
                     in obind (inside (put buf p 47) s) (\<lambda>buf s.
                        ls_loop fd buf (p + 1) s)))
           else Done () s) (\<lambda>_ s.
        obind (close_call fd s) (\<lambda>_ s. Done () s))))"

definition main_ls :: "cstring list \<Rightarrow> ('a) usys_scheme \<Rightarrow> (unit, ('a) usys_scheme) outcome" where
  "main_ls argv s =
     (if length argv < 2
      then obind (ls (bytes ''.'') s) (\<lambda>_ s. exit_call 0 s)
      else obind (ofor (drop 1 argv) ls s) (\<lambda>_ s. exit_call 0 s))"

section \<open>ps and pstree\<close>

text \<open>
  The array of \<open>NPROC\<close> = 64 entries is not initialised: \<open>stack\<close> gives the bytes of the stack from its beginning on, and the
  bytes that \<open>getprocs\<close> copies out overwrite the first of them. An entry has 32 bytes; a name is printed from its first byte up
  to a NUL, if need be past its 16 bytes.
\<close>

record uentry =
  up_pid :: uint32
  up_state :: uint32
  up_size :: uint32
  up_ppid :: uint32
  up_name :: "uint8 list"

definition uentry_at :: "(nat \<Rightarrow> uint8) \<Rightarrow> nat \<Rightarrow> uentry" where
  "uentry_at m i = (let field = (\<lambda>off n. map (\<lambda>j. m (32 * i + off + j)) [0..<n])
     in \<lparr>up_pid = le_word (field 0 4), up_state = le_word (field 4 4), up_size = le_word (field 8 4),
         up_ppid = le_word (field 12 4), up_name = field 16 2048\<rparr>)"

definition overlay :: "uint8 list \<Rightarrow> (nat \<Rightarrow> uint8) \<Rightarrow> nat \<Rightarrow> uint8" where
  "overlay bs m i = (if i < length bs then bs ! i else m i)"

text \<open>
  \<open>ps\<close> passes the number \<open>p->state\<close> to the format \<open>%s\<close>: \<open>low\<close> is the string that lies at that address of the program.
\<close>

definition main_ps :: "(nat \<Rightarrow> uint8) \<Rightarrow> (uint32 \<Rightarrow> cstring option) \<Rightarrow> ('a) usys_scheme \<Rightarrow> (unit, ('a) usys_scheme) outcome" where
  "main_ps stack low s =
     obind (ecall C_getprocs s) (\<lambda>a s.
     let nprocs = ret a; m = overlay (out a) stack
     in obind (printf_user ''%d'' [UInt (word_of_int nprocs)] s) (\<lambda>_ s.
        if nprocs < 0 then exit_call (- 1) s
        else obind (ofor [0..<64] (\<lambda>i s.
               let p = uentry_at m i
               in obind (printf_user ''%d %d %s %s'' [UInt (up_pid p), UInt (up_size p),
                      UStr (if up_state p = 0 then None else low (up_state p)), UStr (Some (up_name p))] s) (\<lambda>_ s.
                  printf_user [CHR 0x0A] [] s)) s) (\<lambda>_ s.
             exit_call 0 s)))"

text \<open>
  \<open>pstree\<close> calls itself with a pointer into the array, entry \<open>base\<close>, and reads the 64 entries from there on. Every call takes
  stack space: a chain of more than \<open>depth\<close> calls runs into the guard page below the stack.
\<close>

fun pstree :: "nat \<Rightarrow> (nat \<Rightarrow> uint8) \<Rightarrow> nat \<Rightarrow> uint32 \<Rightarrow> nat \<Rightarrow> ('a) usys_scheme \<Rightarrow> (unit, ('a) usys_scheme) outcome" where
  "pstree 0 m base pid tab s = Panic ''stack overflow''"
| "pstree (Suc depth) m base pid tab s =
     (if sint pid < 0 \<or> sint pid > 64 then Done () s
      else obind (ofor [0..<tab] (\<lambda>_ s. printf_user ''    '' [] s) s) (\<lambda>_ s.
           obind (printf_user ''%d '' [UInt pid] s) (\<lambda>_ s.
           ofor [base..<base + 64] (\<lambda>p s.
             if up_ppid (uentry_at m p) = pid then pstree depth m p (up_pid (uentry_at m p)) (tab + 1) s
             else Done () s) s)))"

definition main_pstree :: "nat \<Rightarrow> (nat \<Rightarrow> uint8) \<Rightarrow> ('a) usys_scheme \<Rightarrow> (unit, ('a) usys_scheme) outcome" where
  "main_pstree depth stack s =
     obind (ecall C_getprocs s) (\<lambda>a s.
     if ret a < 0 then exit_call (- 1) s
     else obind (pstree depth (overlay (out a) stack) 0 0 0 s) (\<lambda>_ s. exit_call 0 s))"

section \<open>init\<close>

text \<open>The inner loop waits for the shell with process number \<open>pid\<close>; the outer loop restarts it.\<close>

function init_wait :: "int \<Rightarrow> ('a) usys_scheme \<Rightarrow> (unit, ('a) usys_scheme) outcome" where
  "init_wait pid s =
     obind (wait_call s) (\<lambda>wpid s.
     if wpid = pid then Done () s
     else if wpid < 0
     then obind (printf_user (''init: wait returned an error'' @ [CHR 0x0A]) [] s) (\<lambda>_ s. exit_call 1 s)
     else init_wait pid s)"
  by pat_completeness auto
termination by (relation "measure (\<lambda>(_, s). length (answers s))") (auto dest!: icall_Done)

declare init_wait.simps [simp del]

lemma fewer_init_wait [fewer]: "fewer (init_wait pid s) s"
proof (induction pid s rule: init_wait.induct)
  case (1 pid s)
  show ?case unfolding init_wait.simps [of pid s]
    by (intro fewer_bind fewer_if fewer_basic fewer_printf 1)
qed

function init_loop :: "('a) usys_scheme \<Rightarrow> (unit, ('a) usys_scheme) outcome" where
  "init_loop s =
     obind (printf_user (''init: starting sh'' @ [CHR 0x0A]) [] s) (\<lambda>_ s.
     obind (fork_call s) (\<lambda>pid s.
     if pid < 0
     then obind (printf_user (''init: fork failed'' @ [CHR 0x0A]) [] s) (\<lambda>_ s. exit_call 1 s)
     else if pid = 0
     then obind (icall (C_exec (bytes ''sh'') [bytes ''sh'']) s) (\<lambda>_ s.
          obind (printf_user (''init: exec sh failed'' @ [CHR 0x0A]) [] s) (\<lambda>_ s. exit_call 1 s))
     else obind (init_wait pid s) (\<lambda>_ s. init_loop s)))"
  by pat_completeness auto
termination
  by (relation "measure (\<lambda>s. length (answers s))") (auto dest!: icall_Done fewerD [OF fewer_init_wait] fewerD [OF fewer_printf(1)])

declare init_loop.simps [simp del]

definition main_init :: "('a) usys_scheme \<Rightarrow> (unit, ('a) usys_scheme) outcome" where
  "main_init s =
     obind (open_call (bytes ''console'') 2 s) (\<lambda>r s.
     obind (if r < 0
            then obind (icall (C_mknod (bytes ''console'') 1 0) s) (\<lambda>_ s.
                 obind (open_call (bytes ''console'') 2 s) (\<lambda>_ s. Done () s))
            else Done () s) (\<lambda>_ s.
     obind (icall (C_dup 0) s) (\<lambda>_ s.
     obind (icall (C_dup 0) s) (\<lambda>_ s.
     init_loop s))))"

section \<open>forktest and stressfs\<close>

definition print_user :: "string \<Rightarrow> ('a) usys_scheme \<Rightarrow> (unit, ('a) usys_scheme) outcome" where
  "print_user str s = obind (write_call 1 (bytes str) s) (\<lambda>_ s. Done () s)"

text \<open>The forks up to the first that fails: \<open>k\<close> of the \<open>N\<close> = 1000 rounds are left.\<close>

fun forktest_fork :: "nat \<Rightarrow> nat \<Rightarrow> ('a) usys_scheme \<Rightarrow> (nat, ('a) usys_scheme) outcome" where
  "forktest_fork n 0 s = Done n s"
| "forktest_fork n (Suc k) s =
     obind (fork_call s) (\<lambda>pid s.
     if pid < 0 then Done n s
     else if pid = 0 then exit_call 0 s
     else forktest_fork (Suc n) k s)"

fun forktest_wait :: "nat \<Rightarrow> ('a) usys_scheme \<Rightarrow> (unit, ('a) usys_scheme) outcome" where
  "forktest_wait 0 s = Done () s"
| "forktest_wait (Suc n) s =
     obind (wait_call s) (\<lambda>r s.
     if r < 0 then obind (print_user (''wait stopped early'' @ [CHR 0x0A]) s) (\<lambda>_ s. exit_call 1 s)
     else forktest_wait n s)"

definition forktest :: "('a) usys_scheme \<Rightarrow> (unit, ('a) usys_scheme) outcome" where
  "forktest s =
     obind (print_user (''fork test'' @ [CHR 0x0A]) s) (\<lambda>_ s.
     obind (forktest_fork 0 1000 s) (\<lambda>n s.
     if n = 1000
     then obind (print_user (''fork claimed to work N times!'' @ [CHR 0x0A]) s) (\<lambda>_ s. exit_call 1 s)
     else obind (forktest_wait n s) (\<lambda>_ s.
          obind (wait_call s) (\<lambda>r s.
          if r \<noteq> - 1
          then obind (print_user (''wait got too many'' @ [CHR 0x0A]) s) (\<lambda>_ s. exit_call 1 s)
          else print_user (''fork test OK'' @ [CHR 0x0A]) s))))"

definition main_forktest :: "('a) usys_scheme \<Rightarrow> (unit, ('a) usys_scheme) outcome" where
  "main_forktest s = obind (forktest s) (\<lambda>_ s. exit_call 0 s)"

fun stressfs_fork :: "nat \<Rightarrow> nat \<Rightarrow> ('a) usys_scheme \<Rightarrow> (nat, ('a) usys_scheme) outcome" where
  "stressfs_fork i 0 s = Done i s"
| "stressfs_fork i (Suc k) s = obind (fork_call s) (\<lambda>r s. if r > 0 then Done i s else stressfs_fork (Suc i) k s)"

definition main_stressfs :: "('a) usys_scheme \<Rightarrow> (unit, ('a) usys_scheme) outcome" where
  "main_stressfs s =
     obind (printf_user (''stressfs starting'' @ [CHR 0x0A]) [] s) (\<lambda>_ s.
     let data = replicate 512 (97 :: uint8)
     in obind (stressfs_fork 0 4 s) (\<lambda>i s.
        obind (printf_user (''write %d'' @ [CHR 0x0A]) [UInt (of_nat i)] s) (\<lambda>_ s.
        let path = bytes ''stressfs'' @ [48 + of_nat i]
        in obind (open_call path (0x200 + 2) s) (\<lambda>fd s.
           obind (ofor [0..<20] (\<lambda>_ s. obind (write_call fd data s) (\<lambda>_ s. Done () s)) s) (\<lambda>_ s.
           obind (close_call fd s) (\<lambda>_ s.
           obind (printf_user (''read'' @ [CHR 0x0A]) [] s) (\<lambda>_ s.
           obind (open_call path 0 s) (\<lambda>fd s.
           obind (ofor [0..<20] (\<lambda>_ s. obind (read_call fd 512 s) (\<lambda>_ s. Done () s)) s) (\<lambda>_ s.
           obind (close_call fd s) (\<lambda>_ s.
           obind (wait_call s) (\<lambda>_ s.
           exit_call 0 s)))))))))))"

section \<open>The properties\<close>

text \<open>A read has reached the end of the input.\<close>

definition at_eof :: "int \<Rightarrow> ('a) usys_scheme \<Rightarrow> bool" where
  "at_eof fd t \<longleftrightarrow> (\<exists>cs a. calls t = cs @ [(C_read fd 512, Some a)] \<and> 0 \<le> ret a \<and> out a = [])"

lemma safely_read_eof:
  "safely (read_call fd 512 s)
     (\<lambda>r t. heard fd t = heard fd s @ snd r \<and> written 1 t = written 1 s \<and> (fst r > 0 \<or> snd r = [] \<and> (0 \<le> fst r \<longrightarrow> at_eof fd t)))
     (\<lambda>t. heard fd t = heard fd s \<and> written 1 t = written 1 s)"
proof -
  have "take 512 x = [] \<longleftrightarrow> x = []" for x :: "uint8 list" by simp
  then show ?thesis
    by (intro safely_mono [OF safely_read [of fd 512 s 1]]) (auto simp: at_eof_def split: if_splits)
qed

lemma cat_loop_spec:
  assumes "written 1 s = heard fd s"
  shows "safely (cat_loop fd s) (\<lambda>n t. written 1 t = heard fd t \<and> (0 \<le> n \<longrightarrow> at_eof fd t)) (\<lambda>t. prefix (written 1 t) (heard fd t))"
  using assms
proof (induction fd s rule: cat_loop.induct)
  case (1 fd s)
  show ?case unfolding cat_loop.simps [of fd s]
  proof (rule safely_then [OF safely_read_eof [of fd s]], goal_cases)
    case (2 r t)
    obtain n bs where r: "r = (n, bs)" by (cases r)
    have t: "heard fd t = heard fd s @ bs" "written 1 t = heard fd s" "n > 0 \<or> bs = [] \<and> (0 \<le> n \<longrightarrow> at_eof fd t)"
      using 2(2) 1(2) by (auto simp: r)
    show ?case
    proof (cases "n > 0")
      case True
      have "safely (obind (write_call 1 bs t) (\<lambda>w s. if w \<noteq> n then obind (fprintf 2 (''cat: write error'' @ [CHR 0x0A]) [] s) (\<lambda>_ s. exit_call 1 s) else cat_loop fd s))
          (\<lambda>n t. written 1 t = heard fd t \<and> (0 \<le> n \<longrightarrow> at_eof fd t)) (\<lambda>t. prefix (written 1 t) (heard fd t))"
      proof (rule safely_then [OF safely_write [of 1 bs t fd]], goal_cases)
        case (2 w u)
        then have u: "written 1 u = heard fd u" using t(1,2) by simp
        show ?case
        proof (cases "w = n")
          case True
          then show ?thesis using 1(1) [OF \<open>read_call fd 512 s = Done r t\<close> r [symmetric] \<open>n > 0\<close> 2(1)] u by simp
        next
          case False
          show ?thesis
            unfolding if_P [OF False] by (rule safely_mono [OF safely_complain [of 1 2, where g = fd]]) (use u in \<open>auto simp: elsewhere_def\<close>)
        qed
      qed (use t(1,2) in auto)
      with True show ?thesis by (simp add: r)
    next
      case False
      with t show ?thesis by (simp add: r)
    qed
  qed (use 1(2) in auto)
qed


text \<open>C18. cat copies its input: whatever pieces the input comes in and whatever the writes answer, it returns only at the end of
  the input, with everything it has read written to its output, in order; at any system call in which it waits or exits,
  what it has written is a prefix of what it has read.\<close>

theorem cat_copies_input:
  assumes "calls s = []"
  shows "safely (cat fd s) (\<lambda>_ t. written 1 t = heard fd t \<and> at_eof fd t) (\<lambda>t. prefix (written 1 t) (heard fd t))"
  unfolding cat_def
proof (rule safely_then [OF cat_loop_spec], goal_cases)
  case (3 n t)
  show ?case
  proof (cases "n < 0")
    case True
    then show ?thesis
      unfolding if_P [OF True] by (intro safely_mono [OF safely_complain [of 1 2, where g = fd]]) (use 3 in \<open>auto simp: elsewhere_def\<close>)
  qed (use 3 in simp)
qed (use assms in \<open>auto simp: written_def heard_def\<close>)

theorem cat_copies_input_witness:
  "safely (cat 0 \<lparr>calls = [], answers = [\<lparr>ret = 2, out = [104, 105]\<rparr>, \<lparr>ret = 2, out = []\<rparr>, \<lparr>ret = 0, out = []\<rparr>]\<rparr>)
     (\<lambda>_ t. written 1 t = heard 0 t) (\<lambda>t. prefix (written 1 t) (heard 0 t))"
  by (rule safely_mono [OF cat_copies_input]) auto

text \<open>White space as \<open>wc\<close> sees it, and the beginnings of words: a character that is no white space, at the start or after
  white space.\<close>

definition blank_char :: "uint8 \<Rightarrow> bool" where
  "blank_char c \<longleftrightarrow> c \<in> {32, 13, 9, 10, 11}"

definition words :: "uint8 list \<Rightarrow> nat" where
  "words xs = card {i. i < length xs \<and> \<not> blank_char (xs ! i) \<and> (i = 0 \<or> blank_char (xs ! (i - 1)))}"

definition wc_of :: "uint8 list \<Rightarrow> wcount" where
  "wc_of xs = \<lparr>wc_l = of_nat (count_list xs 10), wc_w = of_nat (words xs), wc_c = of_nat (length xs),
     inword = (xs \<noteq> [] \<and> \<not> blank_char (last xs))\<rparr>"

lemma words_snoc: "words (xs @ [c]) = words xs + (if \<not> blank_char c \<and> (xs = [] \<or> blank_char (last xs)) then 1 else 0)"
proof -
  let ?S = "\<lambda>xs. {i. i < length xs \<and> \<not> blank_char (xs ! i) \<and> (i = 0 \<or> blank_char (xs ! (i - 1)))}"
  have "?S (xs @ [c]) = ?S xs \<union> (if \<not> blank_char c \<and> (xs = [] \<or> blank_char (last xs)) then {length xs} else {})"
    by (cases xs rule: rev_cases) (auto simp: nth_append less_Suc_eq split: if_splits)
  then show ?thesis by (auto simp: words_def card_insert_if)
qed

lemma wc_char_of: "wc_char c (wc_of xs) = wc_of (xs @ [c])"
  by (auto simp: wc_char_def wc_of_def words_snoc blank_char_def Let_def)

lemma fold_wc_char: "fold wc_char ys (wc_of xs) = wc_of (xs @ ys)"
  by (induction ys arbitrary: xs) (simp_all add: wc_char_of)

lemma wc_loop_spec:
  "safely (wc_loop fd (wc_of (heard fd s)) s)
     (\<lambda>r t. snd r = wc_of (heard fd t) \<and> (0 \<le> fst r \<longrightarrow> at_eof fd t) \<and> written 1 t = written 1 s) (\<lambda>_. True)"
proof (induction "length (answers s)" arbitrary: s rule: less_induct)
  case less
  show ?case unfolding wc_loop.simps [of fd _ s]
  proof (rule safely_then [OF safely_read_eof [of fd s]], goal_cases)
    case (2 r t)
    obtain n bs where r: "r = (n, bs)" by (cases r)
    have t: "heard fd t = heard fd s @ bs" "written 1 t = written 1 s" "n > 0 \<or> bs = [] \<and> (0 \<le> n \<longrightarrow> at_eof fd t)" using 2(2) by (auto simp: r)
    show ?case
    proof (cases "n > 0")
      case True
      then show ?thesis using less [OF read_Done [OF 2(1)]] by (simp add: r t(1,2) fold_wc_char)
    next
      case False
      with t show ?thesis by (simp add: r)
    qed
  qed simp
qed




end
