(* ===== verification/Shell.thy ===== *)
theory Shell
  imports Ulib
begin

text \<open>
  The shell (\<open>user/sh.c\<close>). A pointer into the command line is the rest of the line from there on, so \<open>s < es\<close> is
  \<open>s \<noteq> []\<close> and \<open>*s\<close> is \<open>char_at s\<close>. The nodes of a parsed command are values: the case that \<open>malloc\<close> returns a null
  pointer is not modelled. A call of \<open>panic\<close> by the parser is an error value.
\<close>

section \<open>Commands\<close>

text \<open>A string is given by a pointer to its first byte and a pointer past its last one.\<close>

type_synonym span = "cstring \<times> cstring"

datatype cmd =
    EXEC "span list"
  | REDIR cmd span nat int
  | PIPE cmd cmd
  | LIST cmd cmd
  | BACK cmd

abbreviation execcmd :: cmd where "execcmd \<equiv> EXEC []"
abbreviation redircmd :: "cmd \<Rightarrow> span \<Rightarrow> nat \<Rightarrow> int \<Rightarrow> cmd" where "redircmd subcmd file mode fd \<equiv> REDIR subcmd file mode fd"
abbreviation pipecmd :: "cmd \<Rightarrow> cmd \<Rightarrow> cmd" where "pipecmd left right \<equiv> PIPE left right"
abbreviation listcmd :: "cmd \<Rightarrow> cmd \<Rightarrow> cmd" where "listcmd left right \<equiv> LIST left right"
abbreviation backcmd :: "cmd \<Rightarrow> cmd" where "backcmd subcmd \<equiv> BACK subcmd"

section \<open>Tokens\<close>

abbreviation (input) whitespace :: cstring where "whitespace \<equiv> [32, 9, 13, 10, 11]"
abbreviation (input) symbols :: cstring where "symbols \<equiv> [60, 124, 62, 38, 59, 40, 41]"

fun skip_white :: "cstring \<Rightarrow> cstring" where
  "skip_white [] = []"
| "skip_white (c # s) = (if strchr whitespace c \<noteq> None then skip_white s else c # s)"

fun skip_word :: "cstring \<Rightarrow> cstring" where
  "skip_word [] = []"
| "skip_word (c # s) = (if strchr whitespace c = None \<and> strchr symbols c = None then skip_word s else c # s)"

text \<open>
  The token, the span of its text and the pointer after it. The symbols are \<open>|\<close> 124, \<open>(\<close> 40, \<open>)\<close> 41, \<open>;\<close> 59, \<open>&\<close> 38, \<open><\<close> 60
  and \<open>>\<close> 62; \<open>>>\<close> gives \<open>+\<close>, 43, and a word gives \<open>a\<close>, 97.
\<close>

definition token_at :: "cstring \<Rightarrow> uint8 \<times> cstring" where
  "token_at s =
     (let c = char_at s
      in if c = 0 then (c, s)
         else if c \<in> {124, 40, 41, 59, 38, 60} then (c, tl s)
         else if c = 62 then if char_at (tl s) = 62 then (43, tl (tl s)) else (c, tl s)
         else (97, skip_word s))"

definition gettoken :: "cstring \<Rightarrow> uint8 \<times> span \<times> cstring" where
  "gettoken ps =
     (let q = skip_white ps
      in case token_at q of (tok, eq) \<Rightarrow> (tok, (q, eq), skip_white eq))"

definition peek :: "cstring \<Rightarrow> cstring \<Rightarrow> bool \<times> cstring" where
  "peek ps toks = (let s = skip_white ps in (char_at s \<noteq> 0 \<and> strchr toks (char_at s) \<noteq> None, s))"

section \<open>The parser\<close>

text \<open>A result, or the message with which the shell panics; in the recursive part \<open>None\<close> stands for exhausted fuel.\<close>

type_synonym 'b parsed = "(string + 'b \<times> cstring) option"

definition pbind :: "'b parsed \<Rightarrow> ('b \<Rightarrow> cstring \<Rightarrow> 'c parsed) \<Rightarrow> 'c parsed" where
  "pbind m f = (case m of None \<Rightarrow> None | Some (Inl msg) \<Rightarrow> Some (Inl msg) | Some (Inr (x, s)) \<Rightarrow> f x s)"

abbreviation (input) O_RDONLY_sh :: nat where "O_RDONLY_sh \<equiv> 0"
abbreviation (input) O_TRUNC_sh :: nat where "O_TRUNC_sh \<equiv> 0x601"
abbreviation (input) O_APPEND_sh :: nat where "O_APPEND_sh \<equiv> 0x201"

text \<open>Progress of the scanner.\<close>

lemma skip_white_length: "length (skip_white s) \<le> length s"
  by (induction s) auto

lemma skip_word_length: "length (skip_word s) \<le> length s"
  by (induction s) auto

lemma skip_white_head: "skip_white s = c # r \<Longrightarrow> strchr whitespace c = None"
  by (induction s) (auto split: if_splits)

lemma token_at_length:
  assumes "token_at q = (tok, eq)" and "tok \<noteq> 0" and "strchr whitespace (char_at q) = None"
  shows "length eq < length q"
proof (cases q)
  case (Cons c r)
  then show ?thesis
    using assms skip_word_length [of r] by (cases r) (auto simp: token_at_def Let_def split: if_splits)
qed (use assms in \<open>simp add: token_at_def\<close>)

lemma gettoken_length:
  assumes "gettoken ps = (tok, sp, s)" and "tok \<noteq> 0"
  shows "length s < length ps"
proof -
  obtain eq where e: "token_at (skip_white ps) = (tok, eq)" "s = skip_white eq"
    using assms(1) by (auto simp: gettoken_def Let_def split: prod.splits)
  have "strchr whitespace (char_at (skip_white ps)) = None" using skip_white_head [of ps] by (cases "skip_white ps") auto
  from token_at_length [OF e(1) assms(2) this] e(2) show ?thesis using skip_white_length [of ps] skip_white_length [of eq] by simp
qed

lemma peek_length: "peek ps toks = (b, s) \<Longrightarrow> length s \<le> length ps"
  using skip_white_length [of ps] by (auto simp: peek_def Let_def)

lemma gettoken_le:
  assumes "gettoken ps = (tok, sp, s)"
  shows "length s \<le> length ps"
proof (cases "tok = 0")
  case True
  then show ?thesis
    using assms skip_white_length [of ps] skip_white_length [of "skip_white ps"]
    by (auto simp: gettoken_def token_at_def Let_def split: if_splits)
qed (use gettoken_length [OF assms] in simp)

lemma redir_progress:
  assumes "peek ps toks = (b, p)" and "gettoken p = (tok, sp, p1)" and "gettoken p1 = (97, file, p2)"
  shows "length p2 < length ps"
  using peek_length [OF assms(1)] gettoken_le [OF assms(2)] gettoken_length [OF assms(3)] by simp

lemma skip_white_idem: "skip_white (skip_white s) = skip_white s"
  by (induction s) auto

text \<open>After a successful \<open>peek\<close> there is a token.\<close>

lemma peek_progress:
  assumes "peek ps toks = (True, p)" and "gettoken p = (tok, sp, s)"
  shows "length s < length ps"
proof -
  have p: "p = skip_white ps" "char_at p \<noteq> 0" using assms(1) by (auto simp: peek_def Let_def)
  then have "skip_white p = p" by (simp add: skip_white_idem)
  with p(2) assms(2) have "tok \<noteq> 0" by (auto simp: gettoken_def token_at_def Let_def split: if_splits)
  from gettoken_length [OF assms(2) this] peek_length [OF assms(1)] show ?thesis by simp
qed

lemma pbind_simps [simp]: "pbind None f = None" "pbind (Some (Inl msg)) f = Some (Inl msg)" "pbind (Some (Inr (x, s))) f = f x s"
  by (simp_all add: pbind_def)

lemma pbind_Inr: "pbind m f = Some (Inr r) \<longleftrightarrow> (\<exists>x s. m = Some (Inr (x, s)) \<and> f x s = Some (Inr r))"
  by (auto simp: pbind_def split: option.splits sum.splits prod.splits)

lemma pbind_cong [fundef_cong]: "m = m' \<Longrightarrow> (\<And>x s. m' = Some (Inr (x, s)) \<Longrightarrow> f x s = g x s) \<Longrightarrow> pbind m f = pbind m' g"
  by (auto simp: pbind_def split: option.split sum.split)

function parseredirs :: "cmd \<Rightarrow> cstring \<Rightarrow> cmd parsed" where
  "parseredirs cmd ps =
     (case peek ps [60, 62] of (b, ps) \<Rightarrow>
      if b
      then case gettoken ps of (tok, _, ps) \<Rightarrow>
           case gettoken ps of (a, file, ps) \<Rightarrow>
           if a \<noteq> 97 then Some (Inl ''missing file for redirection'')
           else if tok = 60 then parseredirs (redircmd cmd file O_RDONLY_sh 0) ps
           else if tok = 62 then parseredirs (redircmd cmd file O_TRUNC_sh 1) ps
           else if tok = 43 then parseredirs (redircmd cmd file O_APPEND_sh 1) ps
           else parseredirs cmd ps
      else Some (Inr (cmd, ps)))"
  by pat_completeness auto
termination
  by (relation "measure (\<lambda>(_, ps). length ps)") (auto dest: redir_progress [OF sym sym sym])

declare parseredirs.simps [simp del]

text \<open>\<open>cmd->argv[argc] = q; cmd->eargv[argc] = eq;\<close> where \<open>cmd\<close> is the \<open>EXEC\<close> node inside the redirections.\<close>

fun add_arg :: "span \<Rightarrow> cmd \<Rightarrow> cmd" where
  "add_arg a (EXEC args) = EXEC (args @ [a])"
| "add_arg a (REDIR cmd file mode fd) = REDIR (add_arg a cmd) file mode fd"
| "add_arg a cmd = cmd"

lemma parseredirs_le: "parseredirs cmd ps = Some (Inr (r, s)) \<Longrightarrow> length s \<le> length ps"
proof (induction cmd ps rule: parseredirs.induct)
  case (1 cmd ps)
  obtain b p where p: "peek ps [60, 62] = (b, p)" by fastforce
  obtain tok sp p1 where t1: "gettoken p = (tok, sp, p1)" by (cases "gettoken p") auto
  obtain a f p2 where t2: "gettoken p1 = (a, f, p2)" by (cases "gettoken p1") auto
  have l: "length p2 \<le> length ps" using peek_length [OF p] gettoken_le [OF t1] gettoken_le [OF t2] by simp
  show ?case
  proof (cases "b \<and> a = 97")
    case True
    then have "length s \<le> length p2"
      using 1(5) 1(1-4) [OF p [symmetric] _ t1 [symmetric] refl t2 [symmetric] refl] by (auto simp: parseredirs.simps [of cmd ps] p t1 t2 split: if_splits)
    with l show ?thesis by simp
  next
    case False
    then show ?thesis using 1(5) peek_length [OF p] by (auto simp: parseredirs.simps [of cmd ps] p t1 t2 split: if_splits)
  qed
qed

function parseexec_loop :: "nat \<Rightarrow> cmd \<Rightarrow> cstring \<Rightarrow> cmd parsed" where
  "parseexec_loop argc cmd ps =
     (case peek ps [124, 41, 38, 59] of (b, ps) \<Rightarrow>
      if b then Some (Inr (cmd, ps))
      else case gettoken ps of (tok, sp, ps) \<Rightarrow>
      if tok = 0 then Some (Inr (cmd, ps))
      else if tok \<noteq> 97 then Some (Inl ''syntax'')
      else let cmd = add_arg sp cmd; argc = argc + 1
      in if argc \<ge> 10 then Some (Inl ''too many args'')
         else pbind (parseredirs cmd ps) (\<lambda>cmd ps. parseexec_loop argc cmd ps))"
  by pat_completeness auto
termination
  by (relation "measure (\<lambda>(_, _, ps). length ps)") (auto dest!: peek_length [OF sym] gettoken_length [OF sym] parseredirs_le)

declare parseexec_loop.simps [simp del]

text \<open>\<open>while(peek(ps, es, "&")){ gettoken(ps, es, 0, 0); cmd = backcmd(cmd); }\<close>\<close>

function back_loop :: "cmd \<Rightarrow> cstring \<Rightarrow> cmd \<times> cstring" where
  "back_loop cmd ps =
     (case peek ps [38] of (b, ps) \<Rightarrow>
      if b then case gettoken ps of (_, _, ps) \<Rightarrow> back_loop (backcmd cmd) ps
      else (cmd, ps))"
  by pat_completeness auto
termination
  by (relation "measure (\<lambda>(_, ps). length ps)") (auto dest: peek_progress [OF sym sym])

declare back_loop.simps [simp del]

text \<open>
  The four functions that call each other. Every call takes a unit of fuel; \<open>parsecmd\<close> starts with four units per character
  and four more, and this is enough.
\<close>

fun parseline :: "nat \<Rightarrow> cstring \<Rightarrow> cmd parsed" and parsepipe :: "nat \<Rightarrow> cstring \<Rightarrow> cmd parsed"
  and parseexec :: "nat \<Rightarrow> cstring \<Rightarrow> cmd parsed" and parseblock :: "nat \<Rightarrow> cstring \<Rightarrow> cmd parsed" where
  "parseline 0 ps = None"
| "parseline (Suc n) ps =
     pbind (parsepipe n ps) (\<lambda>cmd ps.
     case back_loop cmd ps of (cmd, ps) \<Rightarrow>
     case peek ps [59] of (b, ps) \<Rightarrow>
     if b
     then case gettoken ps of (_, _, ps) \<Rightarrow> pbind (parseline n ps) (\<lambda>right ps. Some (Inr (listcmd cmd right, ps)))
     else Some (Inr (cmd, ps)))"
| "parsepipe 0 ps = None"
| "parsepipe (Suc n) ps =
     pbind (parseexec n ps) (\<lambda>cmd ps.
     case peek ps [124] of (b, ps) \<Rightarrow>
     if b
     then case gettoken ps of (_, _, ps) \<Rightarrow> pbind (parsepipe n ps) (\<lambda>right ps. Some (Inr (pipecmd cmd right, ps)))
     else Some (Inr (cmd, ps)))"
| "parseexec 0 ps = None"
| "parseexec (Suc n) ps =
     (case peek ps [40] of (b, ps) \<Rightarrow>
      if b then parseblock n ps
      else pbind (parseredirs execcmd ps) (\<lambda>cmd ps. parseexec_loop 0 cmd ps))"
| "parseblock 0 ps = None"
| "parseblock (Suc n) ps =
     (case peek ps [40] of (b, ps) \<Rightarrow>
      if \<not> b then Some (Inl ''parseblock'')
      else case gettoken ps of (_, _, ps) \<Rightarrow>
      pbind (parseline n ps) (\<lambda>cmd ps.
      case peek ps [41] of (b, ps) \<Rightarrow>
      if \<not> b then Some (Inl ''syntax - missing )'')
      else case gettoken ps of (_, _, ps) \<Rightarrow>
      parseredirs cmd ps))"

text \<open>The nodes are \<open>EXEC\<close> and so on; the position of a pointer \<open>p\<close> in a line of \<open>es\<close> bytes is \<open>es - length p\<close>.\<close>

fun nul_args :: "nat \<Rightarrow> span list \<Rightarrow> uint8 list \<Rightarrow> uint8 list option" where
  "nul_args es [] buf = Some buf"
| "nul_args es ((_, e) # args) buf = (case put buf (es - length e) 0 of None \<Rightarrow> None | Some buf \<Rightarrow> nul_args es args buf)"

fun nulterminate :: "nat \<Rightarrow> cmd \<Rightarrow> uint8 list \<Rightarrow> uint8 list option" where
  "nulterminate es (EXEC args) buf = nul_args es args buf"
| "nulterminate es (REDIR cmd (_, e) mode fd) buf =
     (case nulterminate es cmd buf of None \<Rightarrow> None | Some buf \<Rightarrow> put buf (es - length e) 0)"
| "nulterminate es (PIPE left right) buf =
     (case nulterminate es left buf of None \<Rightarrow> None | Some buf \<Rightarrow> nulterminate es right buf)"
| "nulterminate es (LIST left right) buf =
     (case nulterminate es left buf of None \<Rightarrow> None | Some buf \<Rightarrow> nulterminate es right buf)"
| "nulterminate es (BACK cmd) buf = nulterminate es cmd buf"

definition panic_sh :: "string \<Rightarrow> ('a) usys_scheme \<Rightarrow> ('b, ('a) usys_scheme) outcome" where
  "panic_sh msg s = obind (fprintf 2 (''%s'' @ [CHR 0x0A]) [UStr (Some (bytes msg))] s) (\<lambda>_ s. exit_call 1 s)"

lemma panic_not_Done [simp]: "panic_sh msg s \<noteq> Done x t"
  by (simp add: panic_sh_def obind_Done_iff)

definition parsecmd :: "uint8 list \<Rightarrow> ('a) usys_scheme \<Rightarrow> (nat \<times> cmd \<times> uint8 list, ('a) usys_scheme) outcome" where
  "parsecmd buf s =
     obind (inside (str_at buf 0) s) (\<lambda>line s.
     let es = strlen_user line
     in case parseline (4 * length line + 4) line of
          None \<Rightarrow> Spins
        | Some (Inl msg) \<Rightarrow> panic_sh msg s
        | Some (Inr (cmd, ps)) \<Rightarrow>
            (case peek ps [] of (_, ps) \<Rightarrow>
             if ps \<noteq> []
             then obind (fprintf 2 (''leftovers: %s'' @ [CHR 0x0A]) [UStr (Some ps)] s) (\<lambda>_ s. panic_sh ''syntax'' s)
             else obind (inside (nulterminate es cmd buf) s) (\<lambda>buf s. Done (es, cmd, buf) s)))"

section \<open>Running commands\<close>

definition fork1 :: "('a) usys_scheme \<Rightarrow> (int, ('a) usys_scheme) outcome" where
  "fork1 s = obind (fork_call s) (\<lambda>pid s. if pid = - 1 then panic_sh ''fork'' s else Done pid s)"

text \<open>The string at pointer \<open>q\<close>, in the buffer in which the strings end with NULs.\<close>

definition arg_at :: "nat \<Rightarrow> uint8 list \<Rightarrow> span \<Rightarrow> cstring option" where
  "arg_at es buf sp = str_at buf (es - length (fst sp))"

fun args_at :: "nat \<Rightarrow> uint8 list \<Rightarrow> span list \<Rightarrow> cstring list option" where
  "args_at es buf [] = Some []"
| "args_at es buf (sp # sps) = (case arg_at es buf sp of None \<Rightarrow> None | Some a \<Rightarrow> map_option ((#) a) (args_at es buf sps))"

text \<open>
  \<open>runcmd\<close> never returns; a child that runs a part of the command does not come back either. The two descriptors of a
  pipe are in the bytes that \<open>pipe\<close> copies out.
\<close>

fun runcmd :: "nat \<Rightarrow> uint8 list \<Rightarrow> cmd \<Rightarrow> ('a) usys_scheme \<Rightarrow> (unit, ('a) usys_scheme) outcome" where
  "runcmd es buf (EXEC args) s =
     (case args of
        [] \<Rightarrow> exit_call 1 s
      | arg0 # _ \<Rightarrow>
          obind (inside (args_at es buf args) s) (\<lambda>argv s.
          obind (icall (C_exec (hd argv) argv) s) (\<lambda>_ s.
          obind (fprintf 2 (''exec %s failed'' @ [CHR 0x0A]) [UStr (Some (hd argv))] s) (\<lambda>_ s.
          exit_call 0 s))))"
| "runcmd es buf (REDIR cmd sp mode fd) s =
     obind (close_call fd s) (\<lambda>_ s.
     obind (inside (arg_at es buf sp) s) (\<lambda>path s.
     obind (open_call path mode s) (\<lambda>r s.
     if r < 0
     then obind (fprintf 2 (''open %s failed'' @ [CHR 0x0A]) [UStr (Some path)] s) (\<lambda>_ s. exit_call 1 s)
     else runcmd es buf cmd s)))"
| "runcmd es buf (LIST left right) s =
     obind (fork1 s) (\<lambda>pid s.
     if pid = 0 then runcmd es buf left s
     else obind (wait_call s) (\<lambda>_ s. runcmd es buf right s))"
| "runcmd es buf (PIPE left right) s =
     obind (ecall C_pipe s) (\<lambda>a s.
     if ret a < 0 then panic_sh ''pipe'' s
     else let p0 = sint (le_word (take 4 (out a)) :: uint32); p1 = sint (le_word (take 4 (drop 4 (out a))) :: uint32)
     in obind (fork1 s) (\<lambda>pid s.
        if pid = 0
        then obind (close_call 1 s) (\<lambda>_ s.
             obind (icall (C_dup p1) s) (\<lambda>_ s.
             obind (close_call p0 s) (\<lambda>_ s.
             obind (close_call p1 s) (\<lambda>_ s.
             runcmd es buf left s))))
        else obind (fork1 s) (\<lambda>pid s.
        if pid = 0
        then obind (close_call 0 s) (\<lambda>_ s.
             obind (icall (C_dup p0) s) (\<lambda>_ s.
             obind (close_call p0 s) (\<lambda>_ s.
             obind (close_call p1 s) (\<lambda>_ s.
             runcmd es buf right s))))
        else obind (close_call p0 s) (\<lambda>_ s.
             obind (close_call p1 s) (\<lambda>_ s.
             obind (wait_call s) (\<lambda>_ s.
             obind (wait_call s) (\<lambda>_ s.
             exit_call 0 s)))))))"
| "runcmd es buf (BACK cmd) s =
     obind (fork1 s) (\<lambda>pid s.
     if pid = 0 then runcmd es buf cmd s
     else exit_call 0 s)"

section \<open>The main loop\<close>

definition getcmd :: "uint8 list \<Rightarrow> ('a) usys_scheme \<Rightarrow> (int \<times> uint8 list, ('a) usys_scheme) outcome" where
  "getcmd buf s =
     obind (fprintf 2 ''$ '' [] s) (\<lambda>_ s.
     obind (inside (memset_user buf 0 (length buf)) s) (\<lambda>buf s.
     obind (gets buf (int (length buf)) s) (\<lambda>buf s.
     obind (inside (str_at buf 0) s) (\<lambda>line s.
     if char_at line = 0 then Done (- 1, buf) s else Done (0, buf) s))))"

text \<open>\<open>while((fd = open("console", O_RDWR)) >= 0) if(fd >= 3){ close(fd); break; }\<close>\<close>

function open_console :: "('a) usys_scheme \<Rightarrow> (unit, ('a) usys_scheme) outcome" where
  "open_console s =
     obind (open_call (bytes ''console'') 2 s) (\<lambda>fd s.
     if fd \<ge> 0
     then if fd \<ge> 3 then obind (close_call fd s) (\<lambda>_ s. Done () s) else open_console s
     else Done () s)"
  by pat_completeness auto
termination by (relation "measure (\<lambda>s. length (answers s))") (auto dest!: icall_Done)

declare open_console.simps [simp del]

lemma getcmd_Done: "getcmd buf s = Done r t \<Longrightarrow> length (answers t) < length (answers s)"
proof -
  assume "getcmd buf s = Done r t"
  then obtain u where u: "fprintf 2 ''$ '' [] s = Done () u" "length (answers t) \<le> length (answers u)"
    unfolding getcmd_def by (auto simp: obind_Done_iff dest!: fewerD [OF fewer_gets] split: if_splits)
  have "length (answers u) < length (answers s)"
    using u(1) by (auto simp: fprintf_def bytes_def putc_def obind_Done_iff dest!: icall_Done)
  with u(2) show ?thesis by simp
qed

text \<open>The child that runs the command never returns; the characters \<open>c\<close> and \<open>d\<close> are 99 and 100.\<close>

function sh_loop :: "uint8 list \<Rightarrow> ('a) usys_scheme \<Rightarrow> (unit, ('a) usys_scheme) outcome" where
  "sh_loop buf s =
     obind (getcmd buf s) (\<lambda>r s. case r of (r, buf) \<Rightarrow>
     if r \<ge> 0
     then if take 3 buf = [99, 100, 32]
          then obind (inside (str_at buf 0) s) (\<lambda>line s.
               obind (inside (put buf (strlen_user line - 1) 0) s) (\<lambda>buf s.
               obind (inside (str_at buf 3) s) (\<lambda>dir s.
               obind (icall (C_chdir dir) s) (\<lambda>r s.
               obind (if r < 0 then fprintf 2 (''cannot cd %s'' @ [CHR 0x0A]) [UStr (Some dir)] s else Done () s) (\<lambda>_ s.
               sh_loop buf s)))))
          else obind (fork1 s) (\<lambda>pid s.
               if pid = 0
               then obind (parsecmd buf s) (\<lambda>r s. case r of (es, cmd, buf) \<Rightarrow> runcmd es buf cmd s)
               else obind (wait_call s) (\<lambda>_ s. sh_loop buf s))
     else Done () s)"
  by pat_completeness auto
termination
  by (relation "measure (\<lambda>(_, s). length (answers s))")
     (auto dest!: getcmd_Done icall_Done fewerD [OF fewer_printf(2)] simp: fork1_def obind_Done_iff split: if_splits)

declare sh_loop.simps [simp del]

definition main_sh :: "('a) usys_scheme \<Rightarrow> (unit, ('a) usys_scheme) outcome" where
  "main_sh s =
     obind (open_console s) (\<lambda>_ s.
     obind (sh_loop (replicate 100 0) s) (\<lambda>_ s.
     exit_call 0 s))"

end
