(* ===== verification/Shell_Parse.thy ===== *)
theory Shell_Parse
  imports Shell
begin

text \<open>
  The parser of the shell (\<open>user/sh.c\<close>): it terminates on every line, it stays inside of the buffer and of the argument
  arrays, and the strings of a parsed command are exactly words of the line.
\<close>

section \<open>Termination\<close>

lemma parseexec_loop_le: "parseexec_loop argc cmd ps = Some (Inr (r, s)) \<Longrightarrow> length s \<le> length ps"
proof (induction argc cmd ps rule: parseexec_loop.induct)
  case (1 argc cmd ps)
  obtain b p where p: "peek ps [124, 41, 38, 59] = (b, p)" by fastforce
  obtain tok sp p1 where t: "gettoken p = (tok, sp, p1)" by (cases "gettoken p") auto
  have l: "length p \<le> length ps" "length p1 \<le> length ps" using peek_length [OF p] gettoken_le [OF t] by simp_all
  show ?case
  proof (cases "\<not> b \<and> tok = 97 \<and> argc + 1 < 10")
    case True
    then obtain c p2 where c: "parseredirs (add_arg sp cmd) p1 = Some (Inr (c, p2))" "parseexec_loop (argc + 1) c p2 = Some (Inr (r, s))"
      using 1(2) by (auto simp: parseexec_loop.simps [of argc cmd ps] p t pbind_Inr)
    then have "length s \<le> length p2" using True 1(1) [OF p [symmetric] _ t [symmetric] refl _ _ refl refl] by simp
    with parseredirs_le [OF c(1)] l show ?thesis by simp
  next
    case False
    then show ?thesis using 1(2) l by (auto simp: parseexec_loop.simps [of argc cmd ps] p t Let_def split: if_splits)
  qed
qed

lemma back_loop_le: "back_loop cmd ps = (c, s) \<Longrightarrow> length s \<le> length ps"
proof (induction cmd ps rule: back_loop.induct)
  case (1 cmd ps)
  obtain b p where p: "peek ps [38] = (b, p)" by fastforce
  obtain tok sp p1 where t: "gettoken p = (tok, sp, p1)" by (cases "gettoken p") auto
  show ?case
    using 1(2) 1(1) [OF p [symmetric] _ t [symmetric] refl] peek_length [OF p] gettoken_le [OF t]
    by (cases b) (auto simp: back_loop.simps [of cmd ps] p t)
qed

lemma parseredirs_total: "parseredirs cmd ps \<noteq> None"
proof (induction cmd ps rule: parseredirs.induct)
  case (1 cmd ps)
  obtain b p where p: "peek ps [60, 62] = (b, p)" by fastforce
  obtain tok sp p1 where t1: "gettoken p = (tok, sp, p1)" by (cases "gettoken p") auto
  obtain a f p2 where t2: "gettoken p1 = (a, f, p2)" by (cases "gettoken p1") auto
  show ?case using 1 [OF p [symmetric] _ t1 [symmetric] refl t2 [symmetric] refl] by (simp add: parseredirs.simps [of cmd ps] p t1 t2)
qed

lemma pbind_None: "pbind m f = None \<longleftrightarrow> m = None \<or> (\<exists>x s. m = Some (Inr (x, s)) \<and> f x s = None)"
  by (auto simp: pbind_def split: option.splits sum.splits)

lemma parseexec_loop_total: "parseexec_loop argc cmd ps \<noteq> None"
proof (induction argc cmd ps rule: parseexec_loop.induct)
  case (1 argc cmd ps)
  obtain b p where p: "peek ps [124, 41, 38, 59] = (b, p)" by fastforce
  obtain tok sp p1 where t: "gettoken p = (tok, sp, p1)" by (cases "gettoken p") auto
  have "pbind (parseredirs (add_arg sp cmd) p1) (parseexec_loop (Suc argc)) \<noteq> None" if "\<not> b" "tok = 97" "\<not> 9 \<le> argc"
    using 1 [OF p [symmetric] _ t [symmetric] refl _ _ refl refl] that unfolding pbind_None by (auto simp: parseredirs_total)
  then show ?case by (simp add: parseexec_loop.simps [of argc cmd ps] p t Let_def)
qed

text \<open>The steps of the four functions, with the intermediate pointers named.\<close>

lemma scan: obtains b p tok sp p1 where "peek ps toks = (b, p)" and "gettoken p = (tok, sp, p1)" and "length p \<le> length ps" and "length p1 \<le> length p"
    and "b \<Longrightarrow> length p1 < length ps"
proof -
  obtain b p where p: "peek ps toks = (b, p)" by fastforce
  obtain tok sp p1 where t: "gettoken p = (tok, sp, p1)" by (cases "gettoken p") auto
  have "length p1 < length ps" if b using peek_progress [of ps toks p tok sp p1] p t that by simp
  with that [OF p t peek_length [OF p] gettoken_le [OF t]] show thesis .
qed

lemma parse_le:
  "parseline n ps = Some (Inr (c, s)) \<Longrightarrow> length s \<le> length ps"
  "parsepipe n ps = Some (Inr (c, s)) \<Longrightarrow> length s \<le> length ps"
  "parseexec n ps = Some (Inr (c, s)) \<Longrightarrow> length s \<le> length ps"
  "parseblock n ps = Some (Inr (c, s)) \<Longrightarrow> length s \<le> length ps"
proof (induction n arbitrary: ps c s)
  case (Suc n)
  {
    case 1
    then obtain c1 s1 where a: "parsepipe n ps = Some (Inr (c1, s1))" by (auto simp: pbind_Inr)
    obtain c2 s2 where l: "back_loop c1 s1 = (c2, s2)" by fastforce
    obtain b p tok sp p1 where q: "peek s2 [59] = (b, p)" "gettoken p = (tok, sp, p1)" "length p \<le> length s2" "length p1 \<le> length p" by (rule scan)
    show ?case using 1 Suc(2) [OF a] Suc(1) [of p1] q(3,4) back_loop_le [OF l] by (fastforce simp: a l q(1,2) pbind_Inr split: if_splits)
  next
    case 2
    then obtain c1 s1 where a: "parseexec n ps = Some (Inr (c1, s1))" by (auto simp: pbind_Inr)
    obtain b p tok sp p1 where q: "peek s1 [124] = (b, p)" "gettoken p = (tok, sp, p1)" "length p \<le> length s1" "length p1 \<le> length p" by (rule scan)
    show ?case using 2 Suc(3) [OF a] Suc(2) [of p1] q(3,4) by (fastforce simp: a q(1,2) pbind_Inr split: if_splits)
  next
    case 3
    obtain b p tok sp p1 where q: "peek ps [40] = (b, p)" "gettoken p = (tok, sp, p1)" "length p \<le> length ps" by (rule scan)
    show ?case using 3 Suc(4) [of p] q(3) by (cases b) (auto simp: q(1) pbind_Inr dest!: parseredirs_le parseexec_loop_le)
  next
    case 4
    obtain b p tok sp p1 where q: "peek ps [40] = (b, p)" "gettoken p = (tok, sp, p1)" "length p \<le> length ps" "length p1 \<le> length p" by (rule scan)
    with 4 obtain c1 s1 where a: "parseline n p1 = Some (Inr (c1, s1))" by (auto simp: pbind_Inr split: if_splits)
    obtain b' p' tok' sp' p1' where q': "peek s1 [41] = (b', p')" "gettoken p' = (tok', sp', p1')" "length p' \<le> length s1" "length p1' \<le> length p'" by (rule scan)
    show ?case using 4 Suc(1) [OF a] q(3,4) q'(3,4) by (auto simp: a q(1,2) q'(1,2) split: if_splits dest!: parseredirs_le)
  }
qed simp_all

lemma parse_fuel:
  "4 * length ps + 4 \<le> n \<Longrightarrow> parseline n ps \<noteq> None"
  "4 * length ps + 3 \<le> n \<Longrightarrow> parsepipe n ps \<noteq> None"
  "4 * length ps + 2 \<le> n \<Longrightarrow> parseexec n ps \<noteq> None"
  "4 * length ps + 1 \<le> n \<Longrightarrow> parseblock n ps \<noteq> None"
proof (induction n arbitrary: ps)
  case (Suc n)
  {
    case 1
    have bd: "pbind (parsepipe n ps) f \<noteq> None" if "\<And>c s. length s \<le> length ps \<Longrightarrow> f c s \<noteq> None" for f :: "cmd \<Rightarrow> cstring \<Rightarrow> cmd parsed"
      using Suc(2) [of ps] 1 that parse_le(2) unfolding pbind_None by auto
    show ?case unfolding parseline.simps
    proof (rule bd)
      fix c1 :: cmd and s1 :: cstring
      assume s1: "length s1 \<le> length ps"
      obtain c2 s2 where l: "back_loop c1 s1 = (c2, s2)" by fastforce
      obtain b p tok sp p1 where q: "peek s2 [59] = (b, p)" "gettoken p = (tok, sp, p1)" "b \<Longrightarrow> length p1 < length s2" by (rule scan [of s2 "[59]"]) blast
      have "parseline n p1 \<noteq> None" if b using Suc(1) [of p1] q(3) [OF that] back_loop_le [OF l] s1 1 by simp
      then show "(case back_loop c1 s1 of (cmd, ps) \<Rightarrow> case peek ps [59] of (b, ps) \<Rightarrow>
          if b then case gettoken ps of (_, _, ps) \<Rightarrow> pbind (parseline n ps) (\<lambda>right ps. Some (Inr (LIST cmd right, ps))) else Some (Inr (cmd, ps))) \<noteq> None"
        by (simp add: l q(1,2) pbind_None del: not_None_eq)
    qed
  next
    case 2
    have bd: "pbind (parseexec n ps) f \<noteq> None" if "\<And>c s. length s \<le> length ps \<Longrightarrow> f c s \<noteq> None" for f :: "cmd \<Rightarrow> cstring \<Rightarrow> cmd parsed"
      using Suc(3) [of ps] 2 that parse_le(3) unfolding pbind_None by auto
    show ?case unfolding parsepipe.simps
    proof (rule bd)
      fix c1 :: cmd and s1 :: cstring
      assume s1: "length s1 \<le> length ps"
      obtain b p tok sp p1 where q: "peek s1 [124] = (b, p)" "gettoken p = (tok, sp, p1)" "b \<Longrightarrow> length p1 < length s1" by (rule scan [of s1 "[124]"]) blast
      have "parsepipe n p1 \<noteq> None" if b using Suc(2) [of p1] q(3) [OF that] s1 2 by simp
      then show "(case peek s1 [124] of (b, ps) \<Rightarrow>
          if b then case gettoken ps of (_, _, ps) \<Rightarrow> pbind (parsepipe n ps) (\<lambda>right ps. Some (Inr (PIPE c1 right, ps))) else Some (Inr (c1, ps))) \<noteq> None"
        by (simp add: q(1,2) pbind_None del: not_None_eq)
    qed
  next
    case 3
    obtain b p tok sp p1 where q: "peek ps [40] = (b, p)" "gettoken p = (tok, sp, p1)" "length p \<le> length ps" by (rule scan [of ps "[40]"]) blast
    have "pbind (parseredirs (EXEC []) p) (parseexec_loop 0) \<noteq> None" unfolding pbind_None by (simp add: parseredirs_total parseexec_loop_total del: not_None_eq)
    then show ?case using 3 Suc(4) [of p] q(3) by (simp add: q(1))
  next
    case 4
    obtain b p tok sp p1 where q: "peek ps [40] = (b, p)" "gettoken p = (tok, sp, p1)" "b \<Longrightarrow> length p1 < length ps" by (rule scan [of ps "[40]"]) blast
    have "parseline n p1 \<noteq> None" if b using Suc(1) [of p1] q(3) [OF that] 4 by simp
    then have "b \<Longrightarrow> pbind (parseline n p1) (\<lambda>cmd ps. case peek ps [41] of (b, ps) \<Rightarrow>
      if \<not> b then Some (Inl ''syntax - missing )'') else case gettoken ps of (_, _, ps) \<Rightarrow> parseredirs cmd ps) \<noteq> None"
      unfolding pbind_None by (auto simp: parseredirs_total simp del: not_None_eq split: prod.splits)
    then show ?case by (simp add: q(1,2))
  }
qed simp_all

lemma pbind_mono: "pbind m f = Some r \<Longrightarrow> (\<And>y. m = Some y \<Longrightarrow> m' = Some y) \<Longrightarrow> (\<And>x s. f x s = Some r \<Longrightarrow> g x s = Some r) \<Longrightarrow> pbind m' g = Some r"
  by (auto simp: pbind_def split: option.splits sum.splits)

lemma parse_more:
  "parseline n ps = Some r \<Longrightarrow> parseline (Suc n) ps = Some r"
  "parsepipe n ps = Some r \<Longrightarrow> parsepipe (Suc n) ps = Some r"
  "parseexec n ps = Some r \<Longrightarrow> parseexec (Suc n) ps = Some r"
  "parseblock n ps = Some r \<Longrightarrow> parseblock (Suc n) ps = Some r"
proof (induction n arbitrary: ps r)
  case (Suc n)
  {
    case 1
    from 1 [unfolded parseline.simps(2) [of n]] show ?case unfolding parseline.simps(2) [of "Suc n"]
      by (rule pbind_mono) (auto simp del: parseline.simps parsepipe.simps parseexec.simps parseblock.simps intro: Suc elim!: pbind_mono split: prod.splits if_splits)
  next
    case 2
    from 2 [unfolded parsepipe.simps(2) [of n]] show ?case unfolding parsepipe.simps(2) [of "Suc n"]
      by (rule pbind_mono) (auto simp del: parseline.simps parsepipe.simps parseexec.simps parseblock.simps intro: Suc elim!: pbind_mono split: prod.splits if_splits)
  next
    case 3
    then show ?case using Suc(4) by (auto simp only: parseexec.simps split: prod.splits if_splits)
  next
    case 4
    then show ?case unfolding parseblock.simps
      by (auto simp del: parseline.simps parsepipe.simps parseexec.simps parseblock.simps intro: Suc elim!: pbind_mono split: prod.splits if_splits)
  }
qed simp_all

section \<open>Words\<close>

definition word_char :: "uint8 \<Rightarrow> bool" where
  "word_char c \<longleftrightarrow> c \<noteq> 0 \<and> strchr whitespace c = None \<and> strchr symbols c = None"

text \<open>The text of a span, and the spans that are a whole word of the line.\<close>

definition word_of :: "span \<Rightarrow> cstring" where
  "word_of sp = take (length (fst sp) - length (snd sp)) (fst sp)"

definition span_ok :: "cstring \<Rightarrow> span \<Rightarrow> bool" where
  "span_ok line sp \<longleftrightarrow> suffix (fst sp) line \<and> fst sp = word_of sp @ snd sp \<and> word_of sp \<noteq> [] \<and>
     (\<forall>c \<in> set (word_of sp). word_char c) \<and> (snd sp = [] \<or> \<not> word_char (hd (snd sp)))"

fun spans :: "cmd \<Rightarrow> span list" where
  "spans (EXEC args) = args"
| "spans (REDIR cmd sp mode fd) = sp # spans cmd"
| "spans (PIPE l r) = spans l @ spans r"
| "spans (LIST l r) = spans l @ spans r"
| "spans (BACK cmd) = spans cmd"

text \<open>Every \<open>EXEC\<close> node has fewer than \<open>MAXARGS\<close> = 10 arguments, so there is room for the final null pointer.\<close>

fun argc_ok :: "cmd \<Rightarrow> bool" where
  "argc_ok (EXEC args) = (length args < 10)"
| "argc_ok (REDIR cmd sp mode fd) = argc_ok cmd"
| "argc_ok (PIPE l r) = (argc_ok l \<and> argc_ok r)"
| "argc_ok (LIST l r) = (argc_ok l \<and> argc_ok r)"
| "argc_ok (BACK cmd) = argc_ok cmd"

definition cmd_ok :: "cstring \<Rightarrow> cmd \<Rightarrow> bool" where
  "cmd_ok line cmd \<longleftrightarrow> (\<forall>sp \<in> set (spans cmd). span_ok line sp) \<and> argc_ok cmd"

lemma skip_white_suffix: "suffix (skip_white s) s"
  by (induction s) (auto intro: suffix_ConsI)

lemma skip_word_split: "0 \<notin> set s \<Longrightarrow> \<exists>w. s = w @ skip_word s \<and> (\<forall>c \<in> set w. word_char c) \<and> (skip_word s = [] \<or> \<not> word_char (hd (skip_word s)))"
proof (induction s)
  case (Cons c s)
  show ?case
  proof (cases "strchr whitespace c = None \<and> strchr symbols c = None")
    case True
    with Cons obtain w where "s = w @ skip_word s" "\<forall>c \<in> set w. word_char c" "skip_word s = [] \<or> \<not> word_char (hd (skip_word s))" by auto
    with True Cons.prems show ?thesis by (intro exI [of _ "c # w"]) (auto simp: word_char_def)
  next
    case False
    then show ?thesis by (intro exI [of _ "[]"]) (auto simp: word_char_def)
  qed
qed simp

lemma token_at_suffix: "token_at q = (tok, eq) \<Longrightarrow> suffix eq q"
proof -
  have "suffix (skip_word s) s" for s by (induction s) (auto intro: suffix_ConsI)
  moreover assume "token_at q = (tok, eq)"
  ultimately show ?thesis by (auto simp: token_at_def Let_def suffix_tl split: if_splits intro: suffix_order.trans [OF suffix_tl suffix_tl])
qed

lemma gettoken_suffix: "gettoken ps = (tok, sp, s) \<Longrightarrow> suffix s ps"
  using skip_white_suffix token_at_suffix [of "skip_white ps"]
  by (auto simp: gettoken_def Let_def split: prod.splits) (meson suffix_order.trans)

lemma peek_suffix: "peek ps toks = (b, p) \<Longrightarrow> suffix p ps"
  using skip_white_suffix by (auto simp: peek_def Let_def)

lemma gettoken_word:
  assumes "gettoken ps = (97, sp, s)" and "suffix ps line" and "0 \<notin> set line"
  shows "span_ok line sp"
proof -
  let ?q = "skip_white ps"
  have q: "suffix ?q line" using skip_white_suffix assms(2) by (rule suffix_order.trans)
  then have "0 \<notin> set ?q" using assms(3) set_mono_suffix by blast
  then obtain w where w: "?q = w @ skip_word ?q" "\<forall>c \<in> set w. word_char c" "skip_word ?q = [] \<or> \<not> word_char (hd (skip_word ?q))"
    using skip_word_split by blast
  have sp: "sp = (?q, skip_word ?q)" "char_at ?q \<notin> {0, 124, 40, 41, 59, 38, 60, 62}"
    using assms(1) by (auto simp: gettoken_def token_at_def Let_def split: if_splits)
  obtain c r where c: "?q = c # r" using sp(2) by (cases ?q) auto
  have "strchr whitespace c = None" using skip_white_head [OF c] .
  moreover have "strchr symbols c = None" using sp(2) c by auto
  ultimately have "length (skip_word ?q) < length ?q" using skip_word_length [of r] by (simp add: c)
  then have "w \<noteq> []" using w(1) by auto
  moreover have "word_of sp = w" unfolding word_of_def sp(1) using w(1) by (metis append_eq_conv_conj diff_add_inverse2 fst_conv length_append snd_conv)
  ultimately show ?thesis using q w sp(1) by (simp add: span_ok_def)
qed

section \<open>Parsed commands consist of words\<close>

fun leaf :: "cmd \<Rightarrow> nat option" where
  "leaf (EXEC args) = Some (length args)"
| "leaf (REDIR cmd sp mode fd) = leaf cmd"
| "leaf _ = None"

lemma leaf_add_arg: "leaf cmd = Some n \<Longrightarrow> leaf (add_arg sp cmd) = Some (Suc n)"
  by (induction cmd) auto

lemma cmd_ok_simps [simp]:
  "cmd_ok line (REDIR cmd sp mode fd) \<longleftrightarrow> span_ok line sp \<and> cmd_ok line cmd"
  "cmd_ok line (PIPE l r) \<longleftrightarrow> cmd_ok line l \<and> cmd_ok line r" "cmd_ok line (LIST l r) \<longleftrightarrow> cmd_ok line l \<and> cmd_ok line r"
  "cmd_ok line (BACK cmd) \<longleftrightarrow> cmd_ok line cmd" "cmd_ok line (EXEC [])"
  by (auto simp: cmd_ok_def)

lemma cmd_ok_add_arg: "cmd_ok line cmd \<Longrightarrow> leaf cmd = Some n \<Longrightarrow> Suc n < 10 \<Longrightarrow> span_ok line sp \<Longrightarrow> cmd_ok line (add_arg sp cmd)"
proof (induction cmd)
  case (EXEC args)
  then show ?case by (auto simp: cmd_ok_def)
qed simp_all

lemma parseredirs_ok:
  assumes nul: "0 \<notin> set line"
  shows "parseredirs cmd ps = Some (Inr (r, s)) \<Longrightarrow> suffix ps line \<Longrightarrow> cmd_ok line cmd \<Longrightarrow> cmd_ok line r \<and> suffix s line \<and> leaf r = leaf cmd"
proof (induction cmd ps rule: parseredirs.induct)
  case (1 cmd ps)
  obtain b p where p: "peek ps [60, 62] = (b, p)" by fastforce
  obtain tok sp p1 where t1: "gettoken p = (tok, sp, p1)" by (cases "gettoken p") auto
  obtain a f p2 where t2: "gettoken p1 = (a, f, p2)" by (cases "gettoken p1") auto
  have l: "suffix p line" "suffix p1 line" "suffix p2 line"
    using peek_suffix [OF p] gettoken_suffix [OF t1] gettoken_suffix [OF t2] 1(6) by (meson suffix_order.trans)+
  show ?case
  proof (cases "b \<and> a = 97")
    case True
    then have "span_ok line f" using gettoken_word [of p1 f p2 line] t2 l(2) nul by simp
    with True l(3) 1(5,7) 1(1-4) [OF p [symmetric] _ t1 [symmetric] refl t2 [symmetric] refl] show ?thesis
      by (auto simp: parseredirs.simps [of cmd ps] p t1 t2 split: if_splits)
  next
    case False
    then show ?thesis using 1(5,7) l(1) by (auto simp: parseredirs.simps [of cmd ps] p t1 t2 split: if_splits)
  qed
qed

lemma parseexec_loop_ok:
  assumes nul: "0 \<notin> set line"
  shows "parseexec_loop argc cmd ps = Some (Inr (r, s)) \<Longrightarrow> suffix ps line \<Longrightarrow> cmd_ok line cmd \<Longrightarrow> leaf cmd = Some argc \<Longrightarrow> cmd_ok line r \<and> suffix s line"
proof (induction argc cmd ps rule: parseexec_loop.induct)
  case (1 argc cmd ps)
  obtain b p where p: "peek ps [124, 41, 38, 59] = (b, p)" by fastforce
  obtain tok sp p1 where t: "gettoken p = (tok, sp, p1)" by (cases "gettoken p") auto
  have l: "suffix p line" "suffix p1 line" using peek_suffix [OF p] gettoken_suffix [OF t] 1(3) by (meson suffix_order.trans)+
  show ?case
  proof (cases "\<not> b \<and> tok = 97 \<and> argc + 1 < 10")
    case True
    then obtain c p2 where c: "parseredirs (add_arg sp cmd) p1 = Some (Inr (c, p2))" "parseexec_loop (argc + 1) c p2 = Some (Inr (r, s))"
      using 1(2) by (auto simp: parseexec_loop.simps [of argc cmd ps] p t pbind_Inr)
    have "span_ok line sp" using gettoken_word [of p sp p1 line] t True l(1) nul by simp
    then have "cmd_ok line (add_arg sp cmd)" using cmd_ok_add_arg 1(4,5) True by simp
    with parseredirs_ok [OF nul c(1) l(2)] leaf_add_arg [OF 1(5), of sp] have "cmd_ok line c" "suffix p2 line" "leaf c = Some (argc + 1)" by simp_all
    with True c(2) 1(1) [OF p [symmetric] _ t [symmetric] refl _ _ refl refl _ c(1)] show ?thesis by simp
  next
    case False
    then show ?thesis using 1(2,4) l by (auto simp: parseexec_loop.simps [of argc cmd ps] p t Let_def split: if_splits)
  qed
qed

lemma back_loop_ok: "back_loop cmd ps = (c, s) \<Longrightarrow> suffix ps line \<Longrightarrow> cmd_ok line cmd \<Longrightarrow> cmd_ok line c \<and> suffix s line"
proof (induction cmd ps rule: back_loop.induct)
  case (1 cmd ps)
  obtain b p where p: "peek ps [38] = (b, p)" by fastforce
  obtain tok sp p1 where t: "gettoken p = (tok, sp, p1)" by (cases "gettoken p") auto
  have "suffix p line" "suffix p1 line" using peek_suffix [OF p] gettoken_suffix [OF t] 1(3) by (meson suffix_order.trans)+
  with 1(2,4) 1(1) [OF p [symmetric] _ t [symmetric] refl] show ?case by (cases b) (auto simp: back_loop.simps [of cmd ps] p t)
qed

lemma scan_suffix:
  assumes "suffix ps line"
  obtains b p tok sp p1 where "peek ps toks = (b, p)" and "gettoken p = (tok, sp, p1)" and "suffix p line" and "suffix p1 line"
proof -
  obtain b p where p: "peek ps toks = (b, p)" by fastforce
  obtain tok sp p1 where t: "gettoken p = (tok, sp, p1)" by (cases "gettoken p") auto
  have "suffix p line" "suffix p1 line" using peek_suffix [OF p] gettoken_suffix [OF t] assms by (meson suffix_order.trans)+
  with that [OF p t] show thesis .
qed

lemma parse_ok:
  assumes nul: "0 \<notin> set line"
  shows "parseline n ps = Some (Inr (c, s)) \<Longrightarrow> suffix ps line \<Longrightarrow> cmd_ok line c \<and> suffix s line"
    and "parsepipe n ps = Some (Inr (c, s)) \<Longrightarrow> suffix ps line \<Longrightarrow> cmd_ok line c \<and> suffix s line"
    and "parseexec n ps = Some (Inr (c, s)) \<Longrightarrow> suffix ps line \<Longrightarrow> cmd_ok line c \<and> suffix s line"
    and "parseblock n ps = Some (Inr (c, s)) \<Longrightarrow> suffix ps line \<Longrightarrow> cmd_ok line c \<and> suffix s line"
proof (induction n arbitrary: ps c s)
  case (Suc n)
  {
    case 1
    then obtain c1 s1 where a: "parsepipe n ps = Some (Inr (c1, s1))" by (auto simp: pbind_Inr)
    note a' = Suc(2) [OF a 1(2)]
    obtain c2 s2 where l: "back_loop c1 s1 = (c2, s2)" by fastforce
    have l': "cmd_ok line c2" "suffix s2 line" using back_loop_ok [OF l] a' by blast+
    obtain b p tok sp p1 where q: "peek s2 [59] = (b, p)" "gettoken p = (tok, sp, p1)" "suffix p line" "suffix p1 line" using scan_suffix [OF l'(2)] .
    show ?case using 1(1) Suc(1) [of p1] q(3,4) l' by (fastforce simp: a l q(1,2) pbind_Inr split: if_splits)
  next
    case 2
    then obtain c1 s1 where a: "parseexec n ps = Some (Inr (c1, s1))" by (auto simp: pbind_Inr)
    note a' = Suc(3) [OF a 2(2)]
    obtain b p tok sp p1 where q: "peek s1 [124] = (b, p)" "gettoken p = (tok, sp, p1)" "suffix p line" "suffix p1 line"
      using scan_suffix [OF conjunct2 [OF a']] .
    show ?case using 2(1) Suc(2) [of p1] q(3,4) a' by (fastforce simp: a q(1,2) pbind_Inr split: if_splits)
  next
    case 3
    obtain b p tok sp p1 where q: "peek ps [40] = (b, p)" "gettoken p = (tok, sp, p1)" "suffix p line" "suffix p1 line" using scan_suffix [OF 3(2)] .
    show ?case
    proof (cases b)
      case False
      with 3(1) obtain c1 s1 where c: "parseredirs (EXEC []) p = Some (Inr (c1, s1))" "parseexec_loop 0 c1 s1 = Some (Inr (c, s))"
        by (auto simp: q(1) pbind_Inr)
      from parseredirs_ok [OF nul c(1) q(3)] parseexec_loop_ok [OF nul c(2)] show ?thesis by simp
    qed (use 3(1) Suc(4) [of p] q(1,3) in auto)
  next
    case 4
    obtain b p tok sp p1 where q: "peek ps [40] = (b, p)" "gettoken p = (tok, sp, p1)" "suffix p line" "suffix p1 line" using scan_suffix [OF 4(2)] .
    with 4(1) obtain c1 s1 where a: "parseline n p1 = Some (Inr (c1, s1))" by (auto simp: pbind_Inr split: if_splits)
    note a' = Suc(1) [OF a q(4)]
    obtain b' p' tok' sp' p1' where q': "peek s1 [41] = (b', p')" "gettoken p' = (tok', sp', p1')" "suffix p' line" "suffix p1' line"
      using scan_suffix [OF conjunct2 [OF a']] .
    show ?case using 4(1) a' q'(4) parseredirs_ok [OF nul, of c1 p1' c s] by (auto simp: a q(1,2) q'(1,2) split: if_splits)
  }
qed simp_all

section \<open>Strings in the buffer\<close>

text \<open>
  The buffer while \<open>nulterminate\<close> works: the characters of words are unchanged, the line ends with its NUL, and the
  positions in \<open>Z\<close> hold NULs.
\<close>

definition nulled :: "cstring \<Rightarrow> nat set \<Rightarrow> nat \<Rightarrow> uint8 list \<Rightarrow> bool" where
  "nulled line Z n buf \<longleftrightarrow> length buf = n \<and> length line < n \<and> (\<forall>i < length line. word_char (line ! i) \<longrightarrow> buf ! i = line ! i) \<and> (\<forall>i \<in> Z. buf ! i = 0)"

definition end_of :: "cstring \<Rightarrow> span \<Rightarrow> nat" where
  "end_of line sp = length line - length (snd sp)"

lemma span_ok_end:
  assumes "span_ok line sp"
  shows "end_of line sp \<le> length line" and "end_of line sp < length line \<Longrightarrow> \<not> word_char (line ! end_of line sp)"
    and "length line - length (fst sp) + length (word_of sp) = end_of line sp"
    and "\<And>i. i < length (word_of sp) \<Longrightarrow> line ! (length line - length (fst sp) + i) = word_of sp ! i"
proof -
  obtain A where A: "line = A @ word_of sp @ snd sp" "fst sp = word_of sp @ snd sp"
    using assms unfolding span_ok_def suffix_def by metis
  note len = arg_cong [OF A(1), of length] arg_cong [OF A(2), of length]
  show "end_of line sp \<le> length line" by (simp add: end_of_def)
  have e: "end_of line sp = length A + length (word_of sp)" using len by (simp add: end_of_def)
  show "length line - length (fst sp) + length (word_of sp) = end_of line sp" using len by (simp add: end_of_def)
  show "\<not> word_char (line ! end_of line sp)" if "end_of line sp < length line"
  proof -
    have "snd sp \<noteq> []" using that len e by auto
    then have "line ! end_of line sp = hd (snd sp)" unfolding e by (subst A(1)) (simp add: nth_append hd_conv_nth)
    with \<open>snd sp \<noteq> []\<close> assms show ?thesis by (simp add: span_ok_def)
  qed
  have s: "length line - length (fst sp) = length A" using len by simp
  show "line ! (length line - length (fst sp) + i) = word_of sp ! i" if "i < length (word_of sp)" for i
    unfolding s using that by (subst A(1)) (simp add: nth_append)
qed

lemma nulled_put:
  assumes "nulled line Z n buf" and "span_ok line sp"
  shows "\<exists>b. put buf (length line - length (snd sp)) 0 = Some b \<and> nulled line (insert (end_of line sp) Z) n b"
  using assms span_ok_end(1,2) [OF assms(2)] unfolding end_of_def [symmetric]
  by (auto simp: nulled_def put_def nth_list_update)

lemma nul_args_spec:
  "nulled line Z n buf \<Longrightarrow> \<forall>sp \<in> set args. span_ok line sp \<Longrightarrow>
     \<exists>b. nul_args (length line) args buf = Some b \<and> nulled line (end_of line ` set args \<union> Z) n b"
proof (induction args arbitrary: Z buf)
  case (Cons sp args)
  obtain q e where sp: "sp = (q, e)" by (cases sp)
  from nulled_put [OF Cons.prems(1), of sp] Cons.prems(2) obtain b1 where b1: "put buf (length line - length e) 0 = Some b1"
    "nulled line (insert (end_of line sp) Z) n b1" by (auto simp: sp)
  from Cons.IH [OF b1(2)] Cons.prems(2) b1(1) show ?case by (auto simp: sp)
qed simp

lemma nulterminate_spec:
  "nulled line Z n buf \<Longrightarrow> \<forall>sp \<in> set (spans cmd). span_ok line sp \<Longrightarrow>
     \<exists>b. nulterminate (length line) cmd buf = Some b \<and> nulled line (end_of line ` set (spans cmd) \<union> Z) n b"
proof (induction cmd arbitrary: Z buf)
  case (EXEC args)
  then show ?case using nul_args_spec by simp
next
  case (REDIR cmd sp mode fd)
  obtain q e where sp: "sp = (q, e)" by (cases sp)
  from REDIR.IH [OF REDIR.prems(1)] REDIR.prems(2) obtain b1 where b1: "nulterminate (length line) cmd buf = Some b1"
    "nulled line (end_of line ` set (spans cmd) \<union> Z) n b1" by auto
  from nulled_put [OF b1(2), of sp] REDIR.prems(2) b1(1) show ?case by (auto simp: sp)
next
  case (PIPE l r)
  from PIPE.IH(1) [OF PIPE.prems(1)] PIPE.prems(2) obtain b1 where b1: "nulterminate (length line) l buf = Some b1"
    "nulled line (end_of line ` set (spans l) \<union> Z) n b1" by auto
  from PIPE.IH(2) [OF b1(2)] PIPE.prems(2) b1(1) show ?case by (auto simp: image_Un Un_assoc Un_left_commute)
next
  case (LIST l r)
  from LIST.IH(1) [OF LIST.prems(1)] LIST.prems(2) obtain b1 where b1: "nulterminate (length line) l buf = Some b1"
    "nulled line (end_of line ` set (spans l) \<union> Z) n b1" by auto
  from LIST.IH(2) [OF b1(2)] LIST.prems(2) b1(1) show ?case by (auto simp: image_Un Un_assoc Un_left_commute)
qed simp

lemma nulled_arg:
  assumes "nulled line Z n buf" and "span_ok line sp" and "end_of line sp \<in> Z"
  shows "arg_at (length line) buf sp = Some (word_of sp)"
proof -
  let ?p = "length line - length (fst sp)" and ?w = "word_of sp"
  note e = span_ok_end [OF assms(2)]
  have n: "end_of line sp < length buf" "length buf = n" using assms(1) e(1) by (simp_all add: nulled_def)
  have "?w ! i = buf ! (?p + i)" if "i < length ?w" for i
  proof -
    have "word_char (?w ! i)" using assms(2) that by (simp add: span_ok_def)
    moreover have "?p + i < length line" using that e(1,3) by simp
    ultimately show ?thesis using assms(1) e(4) [OF that] by (simp add: nulled_def)
  qed
  then have w: "take (length ?w) (drop ?p buf) = ?w" using n(1) e(3) by (intro nth_equalityI) auto
  have "drop (end_of line sp) buf = 0 # drop (Suc (end_of line sp)) buf"
    using Cons_nth_drop_Suc [OF n(1)] assms(1,3) by (simp add: nulled_def)
  then have "buf = take ?p buf @ ?w @ 0 # drop (Suc (end_of line sp)) buf"
    using w e(3) by (metis append_take_drop_id drop_drop add.commute)
  moreover have "?p = length (take ?p buf)" "0 \<notin> set ?w" using n(1) e(3) assms(2) by (auto simp: span_ok_def word_char_def)
  ultimately show ?thesis unfolding arg_at_def using str_at_append by metis
qed

section \<open>The properties\<close>

lemma parse_more_add: "parseline n ps = Some r \<Longrightarrow> parseline (n + k) ps = Some r"
  by (induction k) (simp_all add: parse_more(1) del: parseline.simps)

text \<open>C16. The parser terminates on every line: four calls per character and four more are always enough for \<open>parseline\<close> to
  return a command or an error, and more fuel gives the same result.\<close>

theorem parseline_terminates:
  "\<exists>r. parseline (4 * length ps + 4) ps = Some r \<and> parseline (4 * length ps + 4 + k) ps = Some r"
  using parse_fuel(1) [of ps "4 * length ps + 4"] parse_more_add by blast

lemma safely_panic: "safely (panic_sh msg s) P (\<lambda>_. True)"
  unfolding panic_sh_def by (rule safely_mono [OF safely_complain [of 0 2]]) auto

lemma strlen_user_length: "0 \<notin> set s \<Longrightarrow> strlen_user s = length s"
  by (induction s) auto

lemma cstr_split: "0 \<in> set buf \<Longrightarrow> \<exists>Z. buf = cstr buf @ 0 # Z"
proof -
  assume "0 \<in> set buf"
  then obtain A Z where A: "buf = A @ 0 # Z" "0 \<notin> set A" using split_list_first by metis
  then have "cstr buf = A" unfolding cstr_def A(1) by (subst takeWhile_append2) auto
  with A(1) show ?thesis by auto
qed

lemma nulterminate_strings:
  assumes "0 \<in> set buf" and "cmd_ok (cstr buf) cmd"
  shows "\<exists>b. nulterminate (length (cstr buf)) cmd buf = Some b \<and> length b = length buf \<and>
    (\<forall>sp \<in> set (spans cmd). arg_at (length (cstr buf)) b sp = Some (word_of sp) \<and> span_ok (cstr buf) sp)"
proof -
  let ?line = "cstr buf"
  obtain Z where buf: "buf = ?line @ 0 # Z" using cstr_split [OF assms(1)] by blast
  have "nulled ?line {} (length buf) buf" unfolding nulled_def by (subst buf, subst (2 3) buf) (auto simp: nth_append)
  from nulterminate_spec [OF this] assms(2) obtain b where b: "nulterminate (length ?line) cmd buf = Some b"
    "nulled ?line (end_of ?line ` set (spans cmd)) (length buf) b" by (auto simp: cmd_ok_def)
  show ?thesis
    using b nulled_arg [OF b(2)] assms(2) by (intro exI [of _ b]) (auto simp: cmd_ok_def nulled_def)
qed



end
