(* ===== verification/Shell_Print.thy ===== *)
theory Shell_Print
  imports Shell_Parse
begin

text \<open>
  Commands as trees over strings, their text, and that the parser of the shell reads every command back from its text.
\<close>

section \<open>Commands and their text\<close>

datatype redir = From | To | Append

datatype ast =
    AExec "cstring list"
  | ARedir ast redir cstring
  | APipe ast ast
  | AList ast ast
  | ABack ast

definition redir_of :: "nat \<Rightarrow> int \<Rightarrow> redir" where
  "redir_of mode fd = (if fd = 0 then From else if mode = O_TRUNC_sh then To else Append)"

fun view :: "cmd \<Rightarrow> ast" where
  "view (EXEC args) = AExec (map word_of args)"
| "view (REDIR cmd sp mode fd) = ARedir (view cmd) (redir_of mode fd) (word_of sp)"
| "view (PIPE l r) = APipe (view l) (view r)"
| "view (LIST l r) = AList (view l) (view r)"
| "view (BACK cmd) = ABack (view cmd)"

fun redir_text :: "redir \<times> cstring \<Rightarrow> cstring" where
  "redir_text (From, f) = [32, 60, 32] @ f"
| "redir_text (To, f) = [32, 62, 32] @ f"
| "redir_text (Append, f) = [32, 62, 62, 32] @ f"

definition paren :: "bool \<Rightarrow> cstring \<Rightarrow> cstring" where
  "paren b s = (if b then [32, 40] @ s @ [32, 41] else s)"

text \<open>The text of a command where the grammar wants a simple command (0), a pipe (1), a background command (2) or a line (3).\<close>

fun show_cmd :: "nat \<Rightarrow> ast \<Rightarrow> cstring" where
  "show_cmd k (AExec ws) = concat (map (\<lambda>w. 32 # w) ws)"
| "show_cmd k (ARedir c d f) = show_cmd 0 c @ redir_text (d, f)"
| "show_cmd k (APipe l r) = paren (k < 1) (show_cmd 0 l @ [32, 124] @ show_cmd 1 r)"
| "show_cmd k (ABack c) = paren (k < 2) (show_cmd 2 c @ [32, 38])"
| "show_cmd k (AList l r) = paren (k < 3) (show_cmd 2 l @ [32, 59] @ show_cmd 3 r)"

definition word_ok :: "cstring \<Rightarrow> bool" where
  "word_ok w \<longleftrightarrow> w \<noteq> [] \<and> (\<forall>c \<in> set w. word_char c)"

fun ast_ok :: "ast \<Rightarrow> bool" where
  "ast_ok (AExec ws) = (length ws < 10 \<and> (\<forall>w \<in> set ws. word_ok w))"
| "ast_ok (ARedir c d f) = (ast_ok c \<and> word_ok f)"
| "ast_ok (APipe l r) = (ast_ok l \<and> ast_ok r)"
| "ast_ok (AList l r) = (ast_ok l \<and> ast_ok r)"
| "ast_ok (ABack c) = ast_ok c"

section \<open>Scanning text\<close>

lemma char_classes:
  "strchr whitespace 32 \<noteq> None" "strchr whitespace 60 = None" "strchr whitespace 62 = None" "strchr whitespace 124 = None"
  "strchr whitespace 40 = None" "strchr whitespace 41 = None" "strchr whitespace 38 = None" "strchr whitespace 59 = None"
  by simp_all

lemma skip_white_sp [simp]: "skip_white (32 # s) = skip_white s"
  by simp

text \<open>The next character that matters.\<close>

definition next_char :: "cstring \<Rightarrow> uint8" where
  "next_char s = char_at (skip_white s)"

lemma peek_next: "peek ps toks = (next_char ps \<noteq> 0 \<and> strchr toks (next_char ps) \<noteq> None, skip_white ps)"
  by (simp add: peek_def next_char_def Let_def)

lemma peek_white: "peek (skip_white ps) toks = peek ps toks"
  by (simp add: peek_def skip_white_idem Let_def)

lemma gettoken_white: "gettoken (skip_white ps) = gettoken ps"
  by (simp add: gettoken_def skip_white_idem)

lemma parse_white:
  "parseredirs cmd (skip_white ps) = parseredirs cmd ps" "parseexec_loop argc cmd (skip_white ps) = parseexec_loop argc cmd ps"
  "back_loop cmd (skip_white ps) = back_loop cmd ps"
  by (subst (1 2) parseredirs.simps parseexec_loop.simps back_loop.simps; simp add: peek_white)+

lemma word_head: "word_ok w \<Longrightarrow> \<exists>c u. w = c # u \<and> word_char c"
  by (cases w) (auto simp: word_ok_def)

lemma word_char_white: "word_char c \<Longrightarrow> skip_white (c # s) = c # s"
  by (simp add: word_char_def)

lemma next_char_word: "word_ok w \<Longrightarrow> next_char (w @ s) \<notin> {0, 60, 62, 124, 41, 38, 59, 40}"
  by (auto dest!: word_head simp: next_char_def word_char_white) (simp_all add: word_char_def)

definition ends :: "cstring \<Rightarrow> bool" where
  "ends s \<longleftrightarrow> s = [] \<or> \<not> word_char (hd s)"

lemma skip_word_append: "\<forall>c \<in> set w. word_char c \<Longrightarrow> ends s \<Longrightarrow> 0 \<notin> set s \<Longrightarrow> skip_word (w @ s) = s"
proof (induction w)
  case Nil
  then show ?case by (cases s) (auto simp: ends_def word_char_def)
qed (auto simp: word_char_def)

lemma gettoken_word_text:
  assumes "word_ok w" and "ends s" and "0 \<notin> set s"
  shows "gettoken (w @ s) = (97, (w @ s, s), skip_white s)"
proof -
  obtain c u where w: "w = c # u" "word_char c" using word_head [OF assms(1)] by blast
  have "skip_white (w @ s) = w @ s" using word_char_white [OF w(2)] by (simp add: w(1))
  moreover have "skip_word (w @ s) = s" using assms by (intro skip_word_append) (auto simp: word_ok_def)
  moreover have "char_at (w @ s) \<notin> {0, 124, 40, 41, 59, 38, 60, 62}" using w by (auto simp: word_char_def)
  ultimately show ?thesis by (simp add: gettoken_def token_at_def Let_def)
qed

lemma word_of_append: "word_of (w @ s, s) = w"
  by (simp add: word_of_def)

definition rest_ok :: "uint8 set \<Rightarrow> cstring \<Rightarrow> bool" where
  "rest_ok K s \<longleftrightarrow> ends s \<and> 0 \<notin> set s \<and> next_char s \<in> K"

lemma rest_mono: "rest_ok K s \<Longrightarrow> K \<subseteq> K' \<Longrightarrow> rest_ok K' s"
  by (auto simp: rest_ok_def)

lemma next_char_simps [simp]: "next_char [] = 0" "next_char (32 # s) = next_char s" "strchr whitespace c = None \<Longrightarrow> next_char (c # s) = c"
  by (simp_all add: next_char_def)

lemma next_char_white [simp]: "next_char (skip_white s) = next_char s"
  by (simp add: next_char_def skip_white_idem)

lemma ends_sp [simp]: "ends (32 # s)"
  by (simp add: ends_def word_char_def)

lemma rest_sp: "c \<in> K \<Longrightarrow> strchr whitespace c = None \<Longrightarrow> c \<noteq> 0 \<Longrightarrow> 0 \<notin> set s \<Longrightarrow> rest_ok K (32 # c # s)"
  by (auto simp: rest_ok_def)

lemma redir_text_nul: "word_ok f \<Longrightarrow> 0 \<notin> set (redir_text (d, f))"
  by (cases d) (auto simp: word_ok_def word_char_def)

lemma show_cmd_nul: "ast_ok c \<Longrightarrow> 0 \<notin> set (show_cmd k c)"
  by (induction c arbitrary: k) (auto simp: paren_def word_ok_def word_char_def redir_text_nul)

lemma gettoken_symbol:
  assumes "c \<in> {124, 40, 41, 59, 38, 60}"
  shows "gettoken (32 # c # s) = (c, (c # s, s), skip_white s)" and "gettoken (c # s) = (c, (c # s, s), skip_white s)"
proof -
  have "strchr whitespace c = None" using assms by auto
  then have w: "skip_white (c # s) = c # s" by (simp del: strchr.simps)
  then have "skip_white (32 # c # s) = c # s" by (simp only: skip_white_sp)
  moreover have "token_at (c # s) = (c, s)" using assms by (auto simp: token_at_def Let_def simp del: strchr.simps)
  ultimately show "gettoken (32 # c # s) = (c, (c # s, s), skip_white s)" "gettoken (c # s) = (c, (c # s, s), skip_white s)"
    using w by (simp_all add: gettoken_def Let_def del: skip_white.simps skip_white_sp)
qed

section \<open>Redirections and words\<close>

definition redirs_text :: "(redir \<times> cstring) list \<Rightarrow> cstring" where
  "redirs_text rs = concat (map redir_text rs)"

definition wrap :: "ast \<Rightarrow> (redir \<times> cstring) list \<Rightarrow> ast" where
  "wrap c rs = foldl (\<lambda>c (d, f). ARedir c d f) c rs"

lemma wrap_simps [simp]: "wrap c [] = c" "wrap c ((d, f) # rs) = wrap (ARedir c d f) rs"
  by (simp_all add: wrap_def)

lemma redirs_simps [simp]: "redirs_text [] = []" "redirs_text (r # rs) = redir_text r @ redirs_text rs"
  by (simp_all add: redirs_text_def)

lemma redirs_nul: "\<forall>(d, f) \<in> set rs. word_ok f \<Longrightarrow> 0 \<notin> set (redirs_text rs)"
  by (induction rs) (auto dest: redir_text_nul)

lemma redirs_ends: "ends s \<Longrightarrow> ends (redirs_text rs @ s)"
proof (cases rs)
  case (Cons r rs')
  obtain d f where "r = (d, f)" by (cases r)
  with Cons show "ends s \<Longrightarrow> ?thesis" by (cases d) simp_all
qed simp

lemma redirs_next: "next_char (redirs_text rs @ s) = next_char s \<or> next_char (redirs_text rs @ s) \<in> {60, 62}"
proof (cases rs)
  case (Cons r rs')
  obtain d f where "r = (d, f)" by (cases r)
  with Cons show ?thesis by (cases d) simp_all
qed simp

text \<open>One redirection.\<close>

lemma parseredirs_one:
  assumes "word_ok f" and "ends s" and "0 \<notin> set s"
  shows "\<exists>sp m fd. word_of sp = f \<and> redir_of m fd = d \<and> parseredirs cmd (redir_text (d, f) @ s) = parseredirs (REDIR cmd sp m fd) s"
proof -
  have f: "gettoken (f @ s) = (97, (f @ s, s), skip_white s)" by (rule gettoken_word_text [OF assms])
  have g: "gettoken (skip_white (f @ s)) = (97, (f @ s, s), skip_white s)" unfolding gettoken_white by (rule f)
  show ?thesis
  proof (cases d)
    case From
    then show ?thesis
      by (intro exI [of _ "(f @ s, s)"] exI [of _ O_RDONLY_sh] exI [of _ 0])
        (simp add: word_of_append redir_of_def parseredirs.simps [of cmd] peek_def gettoken_symbol g parse_white)
  next
    case To
    have "gettoken (62 # 32 # f @ s) = (62, (62 # 32 # f @ s, 32 # f @ s), skip_white (f @ s))"
      by (simp add: gettoken_def token_at_def Let_def)
    with To show ?thesis
      by (intro exI [of _ "(f @ s, s)"] exI [of _ O_TRUNC_sh] exI [of _ 1])
        (simp add: word_of_append redir_of_def parseredirs.simps [of cmd] peek_def g parse_white)
  next
    case Append
    have "gettoken (62 # 62 # 32 # f @ s) = (43, (62 # 62 # 32 # f @ s, 32 # f @ s), skip_white (f @ s))"
      by (simp add: gettoken_def token_at_def Let_def)
    with Append show ?thesis
      by (intro exI [of _ "(f @ s, s)"] exI [of _ O_APPEND_sh] exI [of _ 1])
        (simp add: word_of_append redir_of_def parseredirs.simps [of cmd] peek_def g parse_white)
  qed
qed

lemma parseredirs_text:
  assumes "\<forall>(d, f) \<in> set rs. word_ok f" and "ends s" and "0 \<notin> set s" and "next_char s \<notin> {60, 62}"
  shows "\<exists>cmd'. view cmd' = wrap (view cmd) rs \<and> parseredirs cmd (redirs_text rs @ s) = Some (Inr (cmd', skip_white s))"
  using assms(1)
proof (induction rs arbitrary: cmd)
  case Nil
  show ?case using assms(4) by (simp add: parseredirs.simps [of cmd] peek_next)
next
  case (Cons r rs)
  obtain d f where r: "r = (d, f)" by (cases r)
  have "ends (redirs_text rs @ s)" "0 \<notin> set (redirs_text rs @ s)" "word_ok f"
    using Cons.prems assms(2,3) redirs_ends redirs_nul [of rs] by (auto simp: r)
  from parseredirs_one [OF this(3,1,2), of d cmd] obtain sp m fd where
    one: "word_of sp = f" "redir_of m fd = d" "parseredirs cmd (redir_text (d, f) @ redirs_text rs @ s) = parseredirs (REDIR cmd sp m fd) (redirs_text rs @ s)"
    by blast
  from Cons.IH [of "REDIR cmd sp m fd"] Cons.prems one show ?case by (auto simp: r)
qed

abbreviation (input) after_exec :: "uint8 set" where "after_exec \<equiv> {0, 124, 41, 38, 59}"

lemma loop_end: "next_char s \<in> after_exec \<Longrightarrow> parseexec_loop k cmd s = Some (Inr (cmd, skip_white s))"
proof (cases "next_char s = 0")
  case True
  then have "gettoken (skip_white s) = (0, (skip_white s, skip_white s), skip_white s)"
    by (simp add: gettoken_def token_at_def next_char_def skip_white_idem Let_def)
  with True show ?thesis by (simp add: parseexec_loop.simps [of k cmd s] peek_next)
qed (auto simp: parseexec_loop.simps [of k cmd s] peek_next)

definition words_text :: "cstring list \<Rightarrow> cstring" where
  "words_text ws = concat (map (\<lambda>w. 32 # w) ws)"

lemma words_simps [simp]: "words_text [] = []" "words_text (w # ws) = 32 # w @ words_text ws"
  by (simp_all add: words_text_def)

lemma words_ends: "ends s \<Longrightarrow> ends (words_text ws @ s)"
  by (cases ws) simp_all

lemma words_nul: "\<forall>w \<in> set ws. word_ok w \<Longrightarrow> 0 \<notin> set (words_text ws)"
  by (induction ws) (auto simp: word_ok_def word_char_def)

lemma parse_words:
  assumes "\<forall>(d, f) \<in> set rs. word_ok f" and "rest_ok after_exec s"
  shows "length args + length ws < 10 \<Longrightarrow> \<forall>w \<in> set ws. word_ok w \<Longrightarrow>
    \<exists>cmd. view cmd = wrap (AExec (map word_of args @ ws)) rs \<and>
      pbind (parseredirs (EXEC args) (words_text ws @ redirs_text rs @ s)) (parseexec_loop (length args)) = Some (Inr (cmd, skip_white s))"
proof (induction ws arbitrary: args)
  case Nil
  have s: "ends s" "0 \<notin> set s" "next_char s \<notin> {60, 62}" "next_char s \<in> after_exec" using assms(2) by (auto simp: rest_ok_def)
  from parseredirs_text [OF assms(1) s(1-3), of "EXEC args"] obtain cmd where
    cmd: "view cmd = wrap (AExec (map word_of args)) rs" "parseredirs (EXEC args) (redirs_text rs @ s) = Some (Inr (cmd, skip_white s))"
    by auto
  have "next_char (skip_white s) \<in> after_exec" using s(4) by simp
  from loop_end [OF this] cmd show ?case by (simp add: skip_white_idem)
next
  case (Cons w ws)
  let ?s = "words_text ws @ redirs_text rs @ s" and ?sp = "(w @ words_text ws @ redirs_text rs @ s, words_text ws @ redirs_text rs @ s)"
  have s: "ends ?s" "0 \<notin> set ?s" "word_ok w"
    using assms Cons.prems(2) words_ends redirs_ends words_nul [of ws] redirs_nul [OF assms(1)] by (auto simp: rest_ok_def)
  have nc: "next_char (w @ ?s) \<notin> {0, 60, 62, 124, 41, 38, 59, 40}" by (rule next_char_word [OF s(3)])
  have "parseredirs (EXEC args) (words_text (w # ws) @ redirs_text rs @ s) = Some (Inr (EXEC args, skip_white (w @ ?s)))"
    using nc by (simp add: parseredirs.simps [of "EXEC args"] peek_next)
  moreover have "parseexec_loop (length args) (EXEC args) (skip_white (w @ ?s)) =
      pbind (parseredirs (EXEC (args @ [?sp])) ?s) (parseexec_loop (length (args @ [?sp])))"
  proof -
    have "parseexec_loop (length args) (EXEC args) (w @ ?s) =
        pbind (parseredirs (EXEC (args @ [?sp])) (skip_white ?s)) (parseexec_loop (length (args @ [?sp])))"
      using nc Cons.prems(1) gettoken_word_text [OF s(3,1,2)]
      by (simp add: parseexec_loop.simps [of "length args"] peek_next gettoken_white)
    then show ?thesis by (simp only: parse_white)
  qed
  ultimately show ?case using Cons.IH [of "args @ [?sp]"] Cons.prems by (simp add: word_of_append)
qed

section \<open>The levels of the grammar\<close>

lemma parse_more_le:
  "n \<le> m \<Longrightarrow> parseline n ps = Some r \<Longrightarrow> parseline m ps = Some r" "n \<le> m \<Longrightarrow> parsepipe n ps = Some r \<Longrightarrow> parsepipe m ps = Some r"
  "n \<le> m \<Longrightarrow> parseexec n ps = Some r \<Longrightarrow> parseexec m ps = Some r"
  by (induction m rule: dec_induct; blast intro: parse_more)+

lemma exec_white: "parseexec n (skip_white ps) = parseexec n ps"
  by (cases n) (simp_all add: peek_white)

lemma pipe_white: "parsepipe n (skip_white ps) = parsepipe n ps"
  by (cases n) (simp_all add: exec_white)

lemma line_white: "parseline n (skip_white ps) = parseline n ps"
  by (cases n) (simp_all add: pipe_white)

definition E0 :: "ast \<Rightarrow> bool" where
  "E0 c \<longleftrightarrow> (\<forall>rs s. (\<forall>(d, f) \<in> set rs. word_ok f) \<longrightarrow> rest_ok after_exec s \<longrightarrow>
     (\<exists>n cmd. view cmd = wrap c rs \<and> parseexec n (show_cmd 0 c @ redirs_text rs @ s) = Some (Inr (cmd, skip_white s))))"

definition E1 :: "ast \<Rightarrow> bool" where
  "E1 c \<longleftrightarrow> (\<forall>s. rest_ok {0, 41, 38, 59} s \<longrightarrow>
     (\<exists>n cmd. view cmd = c \<and> parsepipe n (show_cmd 1 c @ s) = Some (Inr (cmd, skip_white s))))"

definition E2 :: "ast \<Rightarrow> bool" where
  "E2 c \<longleftrightarrow> (\<forall>s. rest_ok {0, 41, 38, 59} s \<longrightarrow>
     (\<exists>n c0 s0 cmd. view cmd = c \<and> parsepipe n (show_cmd 2 c @ s) = Some (Inr (c0, s0)) \<and> back_loop c0 s0 = back_loop cmd s))"

definition E3 :: "ast \<Rightarrow> bool" where
  "E3 c \<longleftrightarrow> (\<forall>s. rest_ok {0, 41} s \<longrightarrow>
     (\<exists>n cmd. view cmd = c \<and> parseline n (show_cmd 3 c @ s) = Some (Inr (cmd, skip_white s))))"

lemma E0_exec:
  assumes "ast_ok (AExec ws)"
  shows "E0 (AExec ws)"
  unfolding E0_def
proof (intro allI impI)
  fix rs :: "(redir \<times> cstring) list" and s
  assume rs: "\<forall>(d, f) \<in> set rs. word_ok f" and s: "rest_ok after_exec s"
  let ?t = "words_text ws @ redirs_text rs @ s"
  from parse_words [OF rs s, of "[]" ws] assms obtain cmd where
    cmd: "view cmd = wrap (AExec ws) rs" "pbind (parseredirs (EXEC []) ?t) (parseexec_loop 0) = Some (Inr (cmd, skip_white s))" by auto
  have "next_char ?t \<noteq> 40"
  proof (cases ws)
    case Nil
    then show ?thesis using redirs_next [of rs s] s by (auto simp: rest_ok_def)
  next
    case (Cons w vs)
    with assms next_char_word [of w "words_text vs @ redirs_text rs @ s"] show ?thesis by simp
  qed
  then have "parseexec (Suc 0) ?t = Some (Inr (cmd, skip_white s))" using cmd(2) by (simp add: peek_next parse_white)
  then show "\<exists>n cmd. view cmd = wrap (AExec ws) rs \<and> parseexec n (show_cmd 0 (AExec ws) @ redirs_text rs @ s) = Some (Inr (cmd, skip_white s))"
    using cmd(1) by (intro exI [of _ "Suc 0"] exI [of _ cmd]) (simp add: words_text_def del: parseexec.simps)
qed

lemma E0_redir: "E0 c \<Longrightarrow> word_ok f \<Longrightarrow> E0 (ARedir c d f)"
  unfolding E0_def
proof (intro allI impI)
  fix rs :: "(redir \<times> cstring) list" and s
  assume c: "\<forall>rs s. (\<forall>(d, f) \<in> set rs. word_ok f) \<longrightarrow> rest_ok after_exec s \<longrightarrow>
      (\<exists>n cmd. view cmd = wrap c rs \<and> parseexec n (show_cmd 0 c @ redirs_text rs @ s) = Some (Inr (cmd, skip_white s)))"
    and "word_ok f" and "\<forall>(d, f) \<in> set rs. word_ok f" and s: "rest_ok after_exec s"
  then have "\<forall>(d, f) \<in> set ((d, f) # rs). word_ok f" by auto
  with c s obtain n cmd where "view cmd = wrap c ((d, f) # rs)" "parseexec n (show_cmd 0 c @ redirs_text ((d, f) # rs) @ s) = Some (Inr (cmd, skip_white s))" by blast
  then show "\<exists>n cmd. view cmd = wrap (ARedir c d f) rs \<and> parseexec n (show_cmd 0 (ARedir c d f) @ redirs_text rs @ s) = Some (Inr (cmd, skip_white s))"
    by (intro exI [of _ n] exI [of _ cmd]) simp
qed

lemma E1_lift: "E0 c \<Longrightarrow> show_cmd 1 c = show_cmd 0 c \<Longrightarrow> E1 c"
  unfolding E1_def
proof (intro allI impI)
  fix s
  assume c: "E0 c" "show_cmd 1 c = show_cmd 0 c" and s: "rest_ok {0, 41, 38, 59} s"
  have "rest_ok after_exec s" using s by (auto simp: rest_ok_def)
  with c(1) [unfolded E0_def, rule_format, of "[]" s] obtain n cmd where
    n: "view cmd = c" "parseexec n (show_cmd 0 c @ s) = Some (Inr (cmd, skip_white s))" by auto
  have "parsepipe (Suc n) (show_cmd 1 c @ s) = Some (Inr (cmd, skip_white s))"
    unfolding c(2) using n(2) s by (auto simp: peek_next skip_white_idem rest_ok_def)
  with n(1) show "\<exists>n cmd. view cmd = c \<and> parsepipe n (show_cmd 1 c @ s) = Some (Inr (cmd, skip_white s))" by blast
qed

lemma E2_lift: "E1 c \<Longrightarrow> show_cmd 2 c = show_cmd 1 c \<Longrightarrow> E2 c"
  unfolding E1_def E2_def using parse_white(3) by metis

lemma E3_lift: "E2 c \<Longrightarrow> show_cmd 3 c = show_cmd 2 c \<Longrightarrow> E3 c"
  unfolding E3_def
proof (intro allI impI)
  fix s
  assume c: "E2 c" "show_cmd 3 c = show_cmd 2 c" and s: "rest_ok {0, 41} s"
  have "rest_ok {0, 41, 38, 59} s" using s by (auto simp: rest_ok_def)
  with c(1) obtain n c0 s0 cmd where
    n: "view cmd = c" "parsepipe n (show_cmd 2 c @ s) = Some (Inr (c0, s0))" "back_loop c0 s0 = back_loop cmd s" unfolding E2_def by blast
  have "back_loop cmd s = (cmd, skip_white s)" using s by (auto simp: back_loop.simps [of cmd s] peek_next rest_ok_def)
  then have "parseline (Suc n) (show_cmd 3 c @ s) = Some (Inr (cmd, skip_white s))"
    unfolding c(2) using n(2,3) s by (auto simp: peek_next skip_white_idem rest_ok_def)
  with n(1) show "\<exists>n cmd. view cmd = c \<and> parseline n (show_cmd 3 c @ s) = Some (Inr (cmd, skip_white s))" by blast
qed

lemma E1_pipe:
  assumes "E0 l" and "E1 r" and "ast_ok r"
  shows "E1 (APipe l r)"
  unfolding E1_def
proof (intro allI impI)
  fix s
  assume s: "rest_ok {0, 41, 38, 59} s"
  let ?s = "[32, 124] @ show_cmd 1 r @ s"
  have "rest_ok after_exec ?s" using s show_cmd_nul [OF assms(3)] rest_sp [of 124 after_exec "show_cmd 1 r @ s"] by (auto simp: rest_ok_def)
  with assms(1) [unfolded E0_def, rule_format, of "[]" ?s] obtain n cmd where
    n: "view cmd = l" "parseexec n (show_cmd 0 l @ ?s) = Some (Inr (cmd, skip_white ?s))" by auto
  from assms(2) s obtain m cmd' where m: "view cmd' = r" "parsepipe m (show_cmd 1 r @ s) = Some (Inr (cmd', skip_white s))" unfolding E1_def by blast
  let ?k = "max n m"
  have k: "parseexec ?k (show_cmd 0 l @ ?s) = Some (Inr (cmd, skip_white ?s))" "parsepipe ?k (show_cmd 1 r @ s) = Some (Inr (cmd', skip_white s))"
    using parse_more_le(3) [OF _ n(2), of ?k] parse_more_le(2) [OF _ m(2), of ?k] by simp_all
  have "peek (skip_white ?s) [124] = (True, skip_white ?s)" by (simp add: peek_next)
  moreover have "gettoken (skip_white ?s) = (124, (124 # show_cmd 1 r @ s, show_cmd 1 r @ s), skip_white (show_cmd 1 r @ s))"
    unfolding gettoken_white by (simp add: gettoken_symbol del: One_nat_def)
  ultimately have "parsepipe (Suc ?k) (show_cmd 0 l @ ?s) = Some (Inr (PIPE cmd cmd', skip_white s))"
    unfolding parsepipe.simps k(1) by (simp add: pipe_white k(2) del: One_nat_def skip_white.simps skip_white_sp append_Cons)
  then show "\<exists>n cmd. view cmd = APipe l r \<and> parsepipe n (show_cmd 1 (APipe l r) @ s) = Some (Inr (cmd, skip_white s))"
    using n(1) m(1) by (intro exI [of _ "Suc ?k"] exI [of _ "PIPE cmd cmd'"]) (simp add: paren_def del: parsepipe.simps)
qed

lemma E2_back:
  assumes "E2 c"
  shows "E2 (ABack c)"
  unfolding E2_def
proof (intro allI impI)
  fix s
  assume s: "rest_ok {0, 41, 38, 59} s"
  let ?s = "[32, 38] @ s"
  have "rest_ok {0, 41, 38, 59} ?s" using s by (auto simp: rest_ok_def)
  with assms obtain n c0 s0 cmd where
    n: "view cmd = c" "parsepipe n (show_cmd 2 c @ ?s) = Some (Inr (c0, s0))" "back_loop c0 s0 = back_loop cmd ?s" unfolding E2_def by blast
  have "gettoken (skip_white ?s) = (38, (38 # s, s), skip_white s)" unfolding gettoken_white by (simp add: gettoken_symbol)
  then have "back_loop cmd ?s = back_loop (BACK cmd) s" by (simp add: back_loop.simps [of cmd] peek_next parse_white)
  with n show "\<exists>n c0 s0 cmd. view cmd = ABack c \<and> parsepipe n (show_cmd 2 (ABack c) @ s) = Some (Inr (c0, s0)) \<and> back_loop c0 s0 = back_loop cmd s"
    by (intro exI [of _ n] exI [of _ c0] exI [of _ s0] exI [of _ "BACK cmd"]) (simp add: paren_def)
qed

lemma E3_list:
  assumes "E2 l" and "E3 r" and "ast_ok r"
  shows "E3 (AList l r)"
  unfolding E3_def
proof (intro allI impI)
  fix s
  assume s: "rest_ok {0, 41} s"
  let ?s = "[32, 59] @ show_cmd 3 r @ s"
  have "rest_ok {0, 41, 38, 59} ?s" using s show_cmd_nul [OF assms(3)] by (auto simp: rest_ok_def)
  with assms(1) obtain n c0 s0 cmd where
    n: "view cmd = l" "parsepipe n (show_cmd 2 l @ ?s) = Some (Inr (c0, s0))" "back_loop c0 s0 = back_loop cmd ?s" unfolding E2_def by blast
  from assms(2) s obtain m cmd' where m: "view cmd' = r" "parseline m (show_cmd 3 r @ s) = Some (Inr (cmd', skip_white s))" unfolding E3_def by blast
  let ?k = "max n m"
  have k: "parsepipe ?k (show_cmd 2 l @ ?s) = Some (Inr (c0, s0))" "parseline ?k (show_cmd 3 r @ s) = Some (Inr (cmd', skip_white s))"
    using parse_more_le(2) [OF _ n(2), of ?k] parse_more_le(1) [OF _ m(2), of ?k] by simp_all
  have b: "back_loop c0 s0 = (cmd, skip_white ?s)" unfolding n(3) by (simp add: back_loop.simps [of cmd] peek_next)
  have "peek (skip_white ?s) [59] = (True, skip_white ?s)" by (simp add: peek_next)
  moreover have "gettoken (skip_white ?s) = (59, (59 # show_cmd 3 r @ s, show_cmd 3 r @ s), skip_white (show_cmd 3 r @ s))"
    unfolding gettoken_white by (simp add: gettoken_symbol)
  ultimately have "parseline (Suc ?k) (show_cmd 2 l @ ?s) = Some (Inr (LIST cmd cmd', skip_white s))"
    unfolding parseline.simps k(1) by (simp add: b line_white k(2) del: skip_white.simps skip_white_sp append_Cons)
  then show "\<exists>n cmd. view cmd = AList l r \<and> parseline n (show_cmd 3 (AList l r) @ s) = Some (Inr (cmd, skip_white s))"
    using n(1) m(1) by (intro exI [of _ "Suc ?k"] exI [of _ "LIST cmd cmd'"]) (simp add: paren_def del: parseline.simps)
qed

lemma E0_block:
  assumes "E3 c" and "show_cmd 0 c = [32, 40] @ show_cmd 3 c @ [32, 41]"
  shows "E0 c"
  unfolding E0_def
proof (intro allI impI)
  fix rs :: "(redir \<times> cstring) list" and s
  assume rs: "\<forall>(d, f) \<in> set rs. word_ok f" and s: "rest_ok after_exec s"
  let ?r = "redirs_text rs @ s"
  let ?s = "[32, 41] @ ?r"
  have "rest_ok {0, 41} ?s" using s redirs_nul [OF rs] by (auto simp: rest_ok_def)
  with assms(1) obtain n cmd where n: "view cmd = c" "parseline n (show_cmd 3 c @ ?s) = Some (Inr (cmd, skip_white ?s))" unfolding E3_def by blast
  have "ends s" "0 \<notin> set s" "next_char s \<notin> {60, 62}" using s by (auto simp: rest_ok_def)
  from parseredirs_text [OF rs this, of cmd] n(1) obtain cmd' where
    c': "view cmd' = wrap c rs" "parseredirs cmd ?r = Some (Inr (cmd', skip_white s))" by auto
  let ?t = "[32, 40] @ show_cmd 3 c @ ?s"
  have "peek ?t [40] = (True, skip_white ?t)" "peek (skip_white ?t) [40] = (True, skip_white ?t)" by (simp_all add: peek_next)
  moreover have "gettoken (skip_white ?t) = (40, (40 # show_cmd 3 c @ ?s, show_cmd 3 c @ ?s), skip_white (show_cmd 3 c @ ?s))"
    unfolding gettoken_white by (simp add: gettoken_symbol)
  moreover have "peek (skip_white ?s) [41] = (True, skip_white ?s)" by (simp add: peek_next)
  moreover have "gettoken (skip_white ?s) = (41, (41 # ?r, ?r), skip_white ?r)"
    unfolding gettoken_white by (simp add: gettoken_symbol)
  ultimately have "parseexec (Suc (Suc n)) ?t = Some (Inr (cmd', skip_white s))"
    by (simp add: line_white n(2) parse_white c'(2) del: skip_white.simps skip_white_sp append_Cons)
  then show "\<exists>n cmd. view cmd = wrap c rs \<and> parseexec n (show_cmd 0 c @ redirs_text rs @ s) = Some (Inr (cmd, skip_white s))"
    using c'(1) by (intro exI [of _ "Suc (Suc n)"] exI [of _ cmd']) (simp add: assms(2) del: parseexec.simps)
qed

lemma levels: "ast_ok c \<Longrightarrow> E0 c \<and> E1 c \<and> E2 c \<and> E3 c"
proof (induction c)
  case (AExec ws)
  from E0_exec [OF this] show ?case by (auto intro!: E1_lift E2_lift E3_lift)
next
  case (ARedir c d f)
  then have "E0 (ARedir c d f)" by (intro E0_redir) simp_all
  then show ?case by (auto intro!: E1_lift E2_lift E3_lift)
next
  case (APipe l r)
  then have 1: "E1 (APipe l r)" by (intro E1_pipe) simp_all
  then have "E2 (APipe l r)" by (rule E2_lift) (simp add: paren_def)
  moreover from this have 3: "E3 (APipe l r)" by (rule E3_lift) (simp add: paren_def)
  moreover from 3 have "E0 (APipe l r)" by (rule E0_block) (simp add: paren_def)
  ultimately show ?case using 1 by simp
next
  case (AList l r)
  then have 3: "E3 (AList l r)" by (intro E3_list) simp_all
  then have 0: "E0 (AList l r)" by (rule E0_block) (simp add: paren_def)
  then have "E1 (AList l r)" by (rule E1_lift) (simp add: paren_def)
  moreover from this have "E2 (AList l r)" by (rule E2_lift) (simp add: paren_def)
  ultimately show ?case using 0 3 by simp
next
  case (ABack c)
  then have 2: "E2 (ABack c)" by (intro E2_back) simp_all
  then have 3: "E3 (ABack c)" by (rule E3_lift) (simp add: paren_def)
  then have 0: "E0 (ABack c)" by (rule E0_block) (simp add: paren_def)
  then have "E1 (ABack c)" by (rule E1_lift) (simp add: paren_def)
  then show ?case using 0 2 3 by simp
qed

section \<open>The round trip\<close>

lemma parseline_reads_back:
  assumes "ast_ok c"
  shows "\<exists>cmd. view cmd = c \<and> parseline (4 * length (show_cmd 3 c) + 4) (show_cmd 3 c) = Some (Inr (cmd, []))"
proof -
  let ?line = "show_cmd 3 c" and ?f = "4 * length (show_cmd 3 c) + 4"
  have "rest_ok {0, 41} []" by (simp add: rest_ok_def ends_def)
  with levels [OF assms] obtain n cmd where n: "view cmd = c" "parseline n ?line = Some (Inr (cmd, []))"
    unfolding E3_def by fastforce
  obtain r where r: "parseline ?f ?line = Some r" using parse_fuel(1) [of ?line ?f] by blast
  have "Some r = Some (Inr (cmd, []))"
    using parse_more_le(1) [OF _ r, of "max n ?f"] parse_more_le(1) [OF _ n(2), of "max n ?f"] by simp
  with r n(1) show ?thesis by auto
qed

text \<open>C14. The parser reads every command back from its text: a tree of simple commands, redirections, pipes, lists and background
  commands, written down with parentheses where the grammar needs them, parses to that tree again, and the arguments and
  file names that the shell then finds in its buffer are the words of the tree.\<close>

theorem parsecmd_reads_back:
  assumes "ast_ok c"
  shows "\<exists>cmd buf. parsecmd (show_cmd 3 c @ [0]) s = Done (length (show_cmd 3 c), cmd, buf) s \<and> view cmd = c \<and>
    (\<forall>sp \<in> set (spans cmd). arg_at (length (show_cmd 3 c)) buf sp = Some (word_of sp))"
proof -
  let ?line = "show_cmd 3 c"
  have nul: "0 \<notin> set ?line" by (rule show_cmd_nul [OF assms])
  then have line: "cstr (?line @ [0]) = ?line" unfolding cstr_def by (subst takeWhile_append2) auto
  then have at: "str_at (?line @ [0]) 0 = Some ?line" by (simp add: str_at_def)
  from parseline_reads_back [OF assms] obtain cmd where
    cmd: "view cmd = c" "parseline (4 * length ?line + 4) ?line = Some (Inr (cmd, []))" by blast
  have "cmd_ok ?line cmd" using parse_ok(1) [OF nul cmd(2)] by simp
  then obtain b where b: "nulterminate (length ?line) cmd (?line @ [0]) = Some b"
    "\<forall>sp \<in> set (spans cmd). arg_at (length ?line) b sp = Some (word_of sp)"
    using nulterminate_strings [of "?line @ [0]" cmd] unfolding line by auto
  then have "parsecmd (?line @ [0]) s = Done (length ?line, cmd, b) s"
    by (simp add: parsecmd_def at Let_def cmd(2) strlen_user_length [OF nul] peek_def del: parseline.simps)
  with b(2) cmd(1) show ?thesis by blast
qed

text \<open>\<open>(ls | wc) > out & ; echo hi\<close>\<close>

theorem parsecmd_reads_back_witness:
  "\<exists>cmd buf. parsecmd (bytes '' ( ls | wc ) > out & ; echo hi'' @ [0]) \<lparr>calls = [], answers = []\<rparr> = Done (30, cmd, buf) \<lparr>calls = [], answers = []\<rparr> \<and>
     view cmd = AList (ABack (ARedir (APipe (AExec [bytes ''ls'']) (AExec [bytes ''wc''])) To (bytes ''out'')))
       (AExec [bytes ''echo'', bytes ''hi''])"
proof -
  let ?c = "AList (ABack (ARedir (APipe (AExec [bytes ''ls'']) (AExec [bytes ''wc''])) To (bytes ''out''))) (AExec [bytes ''echo'', bytes ''hi''])"
  have "show_cmd 3 ?c = bytes '' ( ls | wc ) > out & ; echo hi''" by (simp add: paren_def bytes_def)
  moreover have "ast_ok ?c" by (simp add: word_ok_def word_char_def bytes_def)
  moreover have "length (bytes '' ( ls | wc ) > out & ; echo hi'') = 30" by (simp add: bytes_def)
  ultimately show ?thesis using parsecmd_reads_back [of ?c "\<lparr>calls = [], answers = []\<rparr>"] by auto
qed

end
