(* ===== verification/Spec2Isabelle.thy ===== *)
theory Spec2Isabelle
  imports Fs_Alloc Getprocs Grep User_Progs Shell_Print
begin

text \<open>
  Verification of xv6 for RISC-V as this repository has it: the kernel (\<open>src/kernel\<close>) and its user programs (\<open>src/user\<close>).

  \<^bold>\<open>How C becomes HOL.\<close> A kernel function is a HOL function from its arguments and the kernel state to an \<open>outcome\<close>
  (theory \<open>Prelude\<close>): it returns a value and a state (\<open>Done\<close>), panics or dereferences a null pointer (\<open>Panic\<close>), spins on a lock
  that another hart holds (\<open>Spins\<close>), or gives up its hart (\<open>Switch\<close>). \<open>obind\<close> is C's semicolon, and \<open>yields m P\<close> says that \<open>m\<close>
  returns with \<open>P\<close>. The state is one record that every component extends: \<open>machine\<close> (harts, locks), \<open>kmem\<close> (physical memory
  and free list), \<open>vm\<close>, \<open>pstate\<close> (process table), \<open>uart\<close>, \<open>pr\<close>, \<open>console\<close>, \<open>slstate\<close> (sleep-locks), \<open>bcache\<close>, \<open>vdisk\<close>, \<open>logst\<close>, \<open>itable\<close>,
  \<open>pipest\<close>, \<open>ftable\<close>, \<open>trapst\<close>. Integers are words of their C width, so that counters and addresses wrap. Objects the
  hardware reads or that share pages (page tables, free pages, trapframes, user memory) are bytes of one physical
  memory; tables of structs are functions from indices to records. Devices are lists of the values that the kernel will
  read and of those it has written. The code after a context switch is a separate continuation (\<open>sched_resumed\<close>,
  \<open>sleep_resumed\<close>, \<open>scheduler_resumed\<close>).

  \<^bold>\<open>The kernel.\<close>
  \<^item> \<open>Riscv\<close>: constants and address arithmetic (\<open>riscv.h\<close>, \<open>memlayout.h\<close>, \<open>param.h\<close>). \<open>Byte_Mem\<close>, \<open>C_String\<close>: \<open>string.c\<close>; \<open>memmove\<close>
    copies for every overlap, \<open>strncmp\<close> decides equality, \<open>safestrcpy\<close> terminates. Locale \<open>word_store\<close>.
  \<^item> \<open>Spinlock\<close>: \<open>spinlock.c\<close>. Beside the functions, an \<open>inductive\<close> relation interleaves the memory operations of all
    harts: mutual exclusion, and the functions are runs of it; nesting of \<open>push_off\<close> and \<open>pop_off\<close>.
  \<^item> \<open>Kalloc\<close>: \<open>kalloc.c\<close> refines a stack of pages (locale \<open>page_allocator\<close>). \<open>Vm\<close>: all of \<open>vm.c\<close>. \<open>Vm_Tree\<close>, \<open>Vm_Map\<close>, \<open>Vm_Free\<close>, \<open>Vm_User\<close>, \<open>Vm_Copy\<close>: page tables as
    partial functions; \<open>mappages\<close>, \<open>uvmalloc\<close>, \<open>uvmdealloc\<close> and \<open>uvmfree\<close> change exactly what they should, lose no page
    and undo a growth that fails; \<open>copyin\<close> reads what \<open>copyout\<close> wrote.
  \<^item> \<open>Proc\<close>, \<open>Proc_Life\<close>: \<open>proc.c\<close>. \<open>Proc_Frame\<close>: what operations leave alone (locale \<open>frame\<close>). \<open>Sched\<close>: the scheduler seen from
    all harts: no process runs on two, no wakeup is lost, a sleeper runs again; \<open>kill\<close>.
  \<^item> \<open>Uart\<close>, \<open>Printf\<close>, \<open>Console\<close>: \<open>uart.c\<close>, \<open>printf.c\<close>, \<open>console.c\<close>, \<open>procdump\<close> and \<open>procinfo\<close>. \<open>Tty\<close>: the serial line is a queue
    and the console a line editor. \<open>Getprocs\<close>: the system call \<open>getprocs\<close> counts processes and delivers none. \<open>Ring\<close>: the ring buffers (locale \<open>ring\<close>) of pipe, uart and console; \<open>piperead\<close>, \<open>pipewrite\<close>.
  \<^item> \<open>Sleeplock\<close>, \<open>Bio\<close>, \<open>Virtio\<close>: \<open>sleeplock.c\<close>, \<open>bio.c\<close>, \<open>virtio_disk.c\<close>. \<open>Bio_List\<close>, \<open>Bio_Cache\<close>, \<open>Bio_Init\<close>: the list of buffers, the
    contract of the cache by block number (locale \<open>block_cache\<close>), and its initialisation.
  \<^item> \<open>Log\<close>: \<open>log.c\<close>. \<open>Log_View\<close>, \<open>Log_Crash\<close>: a commit is atomic under a crash after any disk write; recovery can be restarted.
  \<^item> \<open>Fs\<close>: \<open>fs.c\<close>. \<open>Fs_View\<close>: blocks inside a transaction. \<open>Fs_Alloc\<close>: \<open>balloc\<close> and \<open>bfree\<close> on the bitmap as a set of blocks.
  \<^item> \<open>Pipe\<close>, \<open>File\<close>, \<open>Exec\<close>, \<open>Sysfile\<close>, \<open>Trap\<close>: \<open>pipe.c\<close>, \<open>file.c\<close>, \<open>exec.c\<close>, \<open>sysfile.c\<close>, \<open>syscall.c\<close>, \<open>sysproc.c\<close>, \<open>trap.c\<close>, \<open>plic.c\<close>, \<open>start.c\<close>,
    \<open>main.c\<close>. \<open>Bss\<close>: concrete kernel states on which the theorems are evaluated.

  \<^bold>\<open>User programs.\<close> A program runs against a list of answers of the kernel and records its system calls
  (\<open>User_Sys\<close>); \<open>Switch\<close> means that it waits in its last call, \<open>Panic\<close> that it has left an object. \<open>safely m P Q\<close>: \<open>m\<close> returns
  with \<open>P\<close> or waits with \<open>Q\<close>, and never leaves an object.
  \<^item> \<open>Ulib\<close>: \<open>ulib.c\<close> and \<open>printf.c\<close>; \<open>atoi\<close> reads what \<open>printint\<close> prints. \<open>Grep\<close>: \<open>grep.c\<close>; the matcher decides the
    language of the pattern, the program prints the matching lines. \<open>User_Progs\<close>: the small programs; \<open>cat\<close> copies, \<open>wc\<close>
    counts.
  \<^item> \<open>Shell\<close>: \<open>sh.c\<close>. \<open>Shell_Parse\<close>: the parser terminates, stays in its buffers, and its strings are words of the line.
    \<open>Shell_Print\<close>: every command can be written as a line that parses to it.

  \<^bold>\<open>Bounds and fuel.\<close> Loops are structural recursion or have a termination proof. A loop around \<open>sleep\<close> (\<open>acquiresleep\<close>,
  \<open>begin_op\<close>, \<open>wait\<close>, the reads and writes that block) runs until it returns or gives up its hart; what follows the
  wakeup is \<open>sleep_resumed\<close>. User programs that make a system call in every round end with the list of answers, and
  the endless loop of \<open>scheduler\<close> is given for any number of rounds. The recursion of \<open>freewalk\<close> and of \<open>pstree\<close> takes
  the depth that the stack allows; \<open>uvmfree\<close> gives the first three levels, the depth of a page table. The four functions of
  the shell's parser that call each other take fuel, and \<open>parseline_terminates\<close> shows that four calls per character and
  four more are enough.

  \<^bold>\<open>Not modelled.\<close>
  \<^item> The assembly files (\<open>entry.S\<close>, \<open>kernelvec.S\<close>, \<open>swtch.S\<close>, \<open>trampoline.S\<close>) and the single-instruction register
    accessors of \<open>riscv.h\<close>: register saves and restores below the level of the state. \<open>initcode.S\<close> is the byte array that \<open>userinit\<close> copies.
  \<^item> \<open>ramdisk.c\<close>, which the Makefile does not build, and \<open>defs.h\<close>, which holds prototypes.
  \<^item> \<open>umalloc.c\<close>: commands of the shell are values, so a failing \<open>malloc\<close> is not modelled. \<open>mkfs.c\<close>, a program of the host.
  \<^item> \<open>usertests.c\<close> and \<open>grind.c\<close>: test drivers that state no behaviour of their own.
  \<^item> The timing of other harts inside a critical section: a lock that is taken gives \<open>Spins\<close>; the interleavings that
    matter are modelled apart, in \<open>Spinlock\<close> and \<open>Sched\<close>.
\<close>

end
